(* ===== verification/Prelude.thy ===== *)
theory Prelude
  imports Complex_Main "HOL-Library.AList" "HOL-Library.Multiset" "HOL-Library.Sublist"
    "HOL-Library.List_Lexorder" "HOL-Library.Char_ord"
begin

text \<open>
  Shared vocabulary of the development: exceptions as the left side of a sum, Python's
  insertion-ordered dictionaries as association lists, decimal printing, and the lemma
  collections the component theories use.

  Text is a \<^typ>\<open>string\<close> holding the UTF-8 bytes of the Python string.  Concatenation,
  searching for an ASCII delimiter and comparison agree with Python on every text; the
  character classes (digits, letters, case) are those of ASCII, bytes above 127 belonging to
  no class.  Lengths and cuts (\<^verbatim>\<open>String(64)\<close>, \<^verbatim>\<open>[:4000]\<close>) count bytes, which are the
  characters of Python on ASCII text.
\<close>

named_theorems frame \<open>fields an operation leaves alone\<close>
named_theorems ops \<open>defining equations of the storage operations\<close>

subsection \<open>Exceptions as sums\<close>

fun bindE :: "'e + 'a \<Rightarrow> ('a \<Rightarrow> 'e + 'b) \<Rightarrow> 'e + 'b" where
  "bindE (Inl e) f = Inl e"
| "bindE (Inr x) f = f x"

text \<open>Sequencing over a list, stopping at the first exception.\<close>

fun mapE :: "('a \<Rightarrow> 'e + 'b) \<Rightarrow> 'a list \<Rightarrow> 'e + 'b list" where
  "mapE f [] = Inr []"
| "mapE f (x # xs) = bindE (f x) (\<lambda>y. bindE (mapE f xs) (\<lambda>ys. Inr (y # ys)))"

definition is_Inr :: "'e + 'a \<Rightarrow> bool" where
  "is_Inr r = (case r of Inl _ \<Rightarrow> False | Inr _ \<Rightarrow> True)"

lemma is_Inr_simps [simp]: "is_Inr (Inr x)" "\<not> is_Inr (Inl e)"
  by (simp_all add: is_Inr_def)

lemma bindE_Inr_iff: "bindE m f = Inr y \<longleftrightarrow> (\<exists>x. m = Inr x \<and> f x = Inr y)"
  by (cases m) auto

lemma bindE_Inl_iff:
  "bindE m f = Inl e \<longleftrightarrow> m = Inl e \<or> (\<exists>x. m = Inr x \<and> f x = Inl e)"
  by (cases m) auto

lemma mapE_Inr_length: "mapE f xs = Inr ys \<Longrightarrow> length ys = length xs"
  by (induction xs arbitrary: ys) (auto simp: bindE_Inr_iff)

subsection \<open>Python dictionaries\<close>

text \<open>
  A dictionary is the list of its items in insertion order.  Assignment to a key replaces
  the value in place or appends a new item, which is the library's \<^const>\<open>AList.update\<close>.
\<close>

type_synonym ('k, 'v) dict = "('k \<times> 'v) list"

definition dict_put :: "'k \<Rightarrow> 'v \<Rightarrow> ('k, 'v) dict \<Rightarrow> ('k, 'v) dict" where
  "dict_put k v d = AList.update k v d"

definition dict_merge :: "('k, 'v) dict \<Rightarrow> ('k, 'v) dict \<Rightarrow> ('k, 'v) dict" where
  "dict_merge a b = fold (\<lambda>(k, v) d. dict_put k v d) b a"

definition dict_of :: "('k \<times> 'v) list \<Rightarrow> ('k, 'v) dict" where
  "dict_of ps = dict_merge [] ps"

abbreviation dict_keys :: "('k, 'v) dict \<Rightarrow> 'k list" where
  "dict_keys d \<equiv> List.map fst d"

lemma map_of_dict_put [simp]: "map_of (dict_put k v d) = (map_of d)(k \<mapsto> v)"
  by (simp add: dict_put_def update_conv')

lemma distinct_dict_put [simp]:
  "distinct (dict_keys d) \<Longrightarrow> distinct (dict_keys (dict_put k v d))"
  by (simp add: dict_put_def distinct_update)

lemma keys_dict_put [simp]: "set (dict_keys (dict_put k v d)) = insert k (set (dict_keys d))"
  using dom_update [of k v d] by (simp add: dict_put_def dom_map_of_conv_image_fst)

lemma fst_image_dict_put [simp]: "fst ` set (dict_put k v d) = insert k (fst ` set d)"
  using keys_dict_put [of k v d] by simp

lemma dict_merge_simps [simp]:
  "dict_merge a [] = a"
  "dict_merge a (p # b) = dict_merge (dict_put (fst p) (snd p) a) b"
  by (simp_all add: dict_merge_def case_prod_beta)

lemma distinct_dict_merge [simp]:
  "distinct (dict_keys a) \<Longrightarrow> distinct (dict_keys (dict_merge a b))"
  by (induction b arbitrary: a) simp_all

lemma map_of_dict_merge: "map_of (dict_merge a b) = map_of a ++ map_of (rev b)"
  by (induction b arbitrary: a) (simp_all add: map_add_upd_left fun_eq_iff map_add_def
      split: option.splits)

lemma map_of_dict_merge_distinct:
  "distinct (dict_keys b) \<Longrightarrow> map_of (dict_merge a b) = map_of a ++ map_of b"
  using map_of_inject_set [of "rev b" b] by (simp add: map_of_dict_merge rev_map [symmetric])

lemma distinct_dict_of [simp]: "distinct (dict_keys (dict_of ps))"
  by (simp add: dict_of_def)

lemma dict_put_new: "k \<notin> set (dict_keys d) \<Longrightarrow> dict_put k v d = d @ [(k, v)]"
  unfolding dict_put_def by (induction d) auto

lemma dict_merge_append:
  "distinct (dict_keys (a @ b)) \<Longrightarrow> dict_merge a b = a @ b"
proof (induction b arbitrary: a)
  case Nil
  then show ?case by simp
next
  case (Cons p b)
  then have "dict_put (fst p) (snd p) a = a @ [p]"
    using dict_put_new [of "fst p" a "snd p"] by (cases p) auto
  with Cons.IH [of "a @ [p]"] Cons.prems show ?case by (cases p) auto
qed

lemma dict_of_distinct: "distinct (dict_keys ps) \<Longrightarrow> dict_of ps = ps"
  using dict_merge_append [of "[]" ps] by (simp add: dict_of_def)

subsection \<open>Decimal numbers\<close>

text \<open>\<open>str(n)\<close> for integers, and its inverse.\<close>

definition digit :: "nat \<Rightarrow> char" where
  "digit d = char_of (48 + d)"

fun dec_nat :: "nat \<Rightarrow> string" where
  "dec_nat n = (if n < 10 then [digit n] else dec_nat (n div 10) @ [digit (n mod 10)])"

declare dec_nat.simps [simp del]

definition dec_int :: "int \<Rightarrow> string" where
  "dec_int i = (if i < 0 then CHR ''-'' # dec_nat (nat (- i)) else dec_nat (nat i))"

definition undigit :: "char \<Rightarrow> nat" where
  "undigit c = of_char c - 48"

definition undec :: "string \<Rightarrow> nat" where
  "undec s = foldl (\<lambda>a c. 10 * a + undigit c) 0 s"

text \<open>\<open>f"{n:05d}"\<close> for a non-negative number.\<close>

definition dec5 :: "nat \<Rightarrow> string" where
  "dec5 n = replicate (5 - length (dec_nat n)) (CHR ''0'') @ dec_nat n"

lemma undigit_digit [simp]: "d < 10 \<Longrightarrow> undigit (digit d) = d"
  by (simp add: undigit_def digit_def)

lemma undec_snoc [simp]: "undec (s @ [c]) = 10 * undec s + undigit c"
  by (simp add: undec_def)

lemma undec_Nil [simp]: "undec [] = 0"
  by (simp add: undec_def)

lemma undec_dec_nat [simp]: "undec (dec_nat n) = n"
proof (induction n rule: dec_nat.induct)
  case (1 n)
  show ?case
  proof (cases "n < 10")
    case True
    then show ?thesis using undec_snoc [of "[]" "digit n"] by (simp add: dec_nat.simps [of n])
  next
    case False
    with 1 show ?thesis by (simp add: dec_nat.simps [of n])
  qed
qed

lemma dec_nat_inj [simp]: "dec_nat m = dec_nat n \<longleftrightarrow> m = n"
  by (metis undec_dec_nat)

lemma undec_zeros: "undec (replicate k (CHR ''0'') @ s) = undec s"
proof -
  have "foldl (\<lambda>a c. 10 * a + undigit c) 0 (replicate k (CHR ''0'')) = 0"
    by (induction k) (simp_all add: undigit_def)
  then show ?thesis by (simp add: undec_def)
qed

lemma dec5_inj [simp]: "dec5 m = dec5 n \<longleftrightarrow> m = n"
  by (metis dec5_def undec_zeros undec_dec_nat)

lemma digit_range:
  "d < 10 \<Longrightarrow> 48 \<le> (of_char (digit d) :: nat) \<and> (of_char (digit d) :: nat) < 58"
  by (simp add: digit_def)

lemma dec_nat_chars: "c \<in> set (dec_nat n) \<Longrightarrow> 48 \<le> (of_char c :: nat) \<and> (of_char c :: nat) < 58"
proof (induction n rule: dec_nat.induct)
  case (1 n)
  then show ?case
    using digit_range [of n] digit_range [of "n mod 10"]
    by (subst (asm) dec_nat.simps) (auto split: if_splits)
qed

lemma dec_nat_not_Nil [simp]: "dec_nat n \<noteq> []"
  by (subst dec_nat.simps) simp

lemma dec_nat_no_minus: "CHR ''-'' \<notin> set (dec_nat n)"
  using dec_nat_chars [of "CHR ''-''" n] by auto

lemma dec_int_inj [simp]: "dec_int i = dec_int j \<longleftrightarrow> i = j"
proof
  assume eq: "dec_int i = dec_int j"
  have nm: "CHR ''-'' # s \<noteq> dec_nat n" for s n
    using dec_nat_no_minus [of n] by (metis list.set_intros(1))
  show "i = j"
    using eq nm nm [symmetric] by (auto simp: dec_int_def split: if_splits)
qed simp

lemma dec_int_chars:
  "c \<in> set (dec_int i) \<Longrightarrow> c = CHR ''-'' \<or> 48 \<le> (of_char c :: nat) \<and> (of_char c :: nat) < 58"
  by (auto simp: dec_int_def dec_nat_chars split: if_splits)

subsection \<open>Lists\<close>

lemma find_Some_in: "List.find P xs = Some x \<Longrightarrow> x \<in> set xs \<and> P x"
  by (induction xs) (auto split: if_splits)

lemma find_None_iff': "List.find P xs = None \<longleftrightarrow> (\<forall>x \<in> set xs. \<not> P x)"
  by (induction xs) auto

lemma find_map_same:
  assumes "\<And>x. P (f x) \<longleftrightarrow> P x"
  shows "List.find P (List.map f xs) = map_option f (List.find P xs)"
  by (induction xs) (simp_all add: assms)

lemma find_append:
  "List.find P (xs @ ys) = (case List.find P xs of None \<Rightarrow> List.find P ys | Some x \<Rightarrow> Some x)"
  by (induction xs) auto

lemma find_unique:
  "x \<in> set xs \<Longrightarrow> distinct (List.map f xs) \<Longrightarrow> List.find (\<lambda>y. f y = f x) xs = Some x"
  by (induction xs) auto

end
