(* ===== verification/States.thy ===== *)
theory States
  imports Prelude
begin

text \<open>
  The lifecycle of \<^verbatim>\<open>core/states.py\<close>: job and page states, the transition table, and the
  check every write of a state goes through.  The exceptions the program raises are collected
  here as one datatype, with the class name and message that end up in \<^verbatim>\<open>failed_pages\<close>.
\<close>

datatype job_state =
  PENDING | RUNNING | PAUSED | SUCCEEDED | PARTIAL | SUSPECT | FAILED | CANCELLED | DEAD_LETTER

datatype page_state = PagePENDING | PageFETCHED | PagePARSED | PageFAILED

text \<open>A \<^verbatim>\<open>StrEnum\<close> prints as its value.\<close>

fun state_str :: "job_state \<Rightarrow> string" where
  "state_str PENDING = ''PENDING''"
| "state_str RUNNING = ''RUNNING''"
| "state_str PAUSED = ''PAUSED''"
| "state_str SUCCEEDED = ''SUCCEEDED''"
| "state_str PARTIAL = ''PARTIAL''"
| "state_str SUSPECT = ''SUSPECT''"
| "state_str FAILED = ''FAILED''"
| "state_str CANCELLED = ''CANCELLED''"
| "state_str DEAD_LETTER = ''DEAD_LETTER''"

definition terminal_states :: "job_state list" where
  "terminal_states = [SUCCEEDED, PARTIAL, SUSPECT, FAILED, CANCELLED, DEAD_LETTER]"

definition terminal :: "job_state \<Rightarrow> bool" where
  "terminal s = (s \<in> set terminal_states)"

fun transitions :: "job_state \<Rightarrow> job_state list" where
  "transitions PENDING = [RUNNING, CANCELLED, FAILED]"
| "transitions RUNNING =
     [RUNNING, PAUSED, SUCCEEDED, PARTIAL, SUSPECT, FAILED, CANCELLED, DEAD_LETTER]"
| "transitions PAUSED = [RUNNING, CANCELLED, FAILED]"
| "transitions SUCCEEDED = []"
| "transitions PARTIAL = []"
| "transitions SUSPECT = []"
| "transitions FAILED = []"
| "transitions CANCELLED = []"
| "transitions DEAD_LETTER = []"

definition can_transition :: "job_state \<Rightarrow> job_state \<Rightarrow> bool" where
  "can_transition current target = (target \<in> set (transitions current))"

subsection \<open>Exceptions\<close>

datatype exn =
    IllegalTransition job_state job_state
  | ValueError string
  | TypeError string
  | KeyError string
  | TimeoutError string
  | UnknownTarget string
  | BlockedURL string
  | UnsupportedPagination string
  | CircuitOpen string int
  | TransientFetchError string
  | PermanentFetchError string
  | SoftTimeLimitExceeded
  | WorkerLostError
  | ScheduleError string
  | IntegrityError string
  | CardinalityViolation
  | DataError string
  | ObjectMissing string
  | NoResultFound
  | HTTPException int string
  | OtherError string string

text \<open>\<open>type(exc).__name__\<close> and \<open>str(exc)\<close>.\<close>

fun exn_name :: "exn \<Rightarrow> string" where
  "exn_name (IllegalTransition _ _) = ''IllegalTransition''"
| "exn_name (ValueError _) = ''ValueError''"
| "exn_name (TypeError _) = ''TypeError''"
| "exn_name (KeyError _) = ''KeyError''"
| "exn_name (TimeoutError _) = ''TimeoutError''"
| "exn_name (UnknownTarget _) = ''UnknownTarget''"
| "exn_name (BlockedURL _) = ''BlockedURL''"
| "exn_name (UnsupportedPagination _) = ''UnsupportedPagination''"
| "exn_name (CircuitOpen _ _) = ''CircuitOpen''"
| "exn_name (TransientFetchError _) = ''TransientFetchError''"
| "exn_name (PermanentFetchError _) = ''PermanentFetchError''"
| "exn_name SoftTimeLimitExceeded = ''SoftTimeLimitExceeded''"
| "exn_name WorkerLostError = ''WorkerLostError''"
| "exn_name (ScheduleError _) = ''ScheduleError''"
| "exn_name (IntegrityError _) = ''IntegrityError''"
| "exn_name CardinalityViolation = ''CardinalityViolation''"
| "exn_name (DataError _) = ''DataError''"
| "exn_name (ObjectMissing _) = ''ClientError''"
| "exn_name NoResultFound = ''NoResultFound''"
| "exn_name (HTTPException _ _) = ''HTTPException''"
| "exn_name (OtherError n _) = n"

fun exn_str :: "exn \<Rightarrow> string" where
  "exn_str (IllegalTransition c t) =
     ''illegal job transition '' @ state_str c @ '' -> '' @ state_str t"
| "exn_str (CircuitOpen d ttl) =
     ''circuit open for '' @ d @ '', retry in '' @ dec_int ttl @ ''s''"
| "exn_str (ValueError m) = m"
| "exn_str (TypeError m) = m"
| "exn_str (KeyError m) = m"
| "exn_str (TimeoutError m) = m"
| "exn_str (UnknownTarget m) = m"
| "exn_str (BlockedURL m) = m"
| "exn_str (UnsupportedPagination m) = m"
| "exn_str (TransientFetchError m) = m"
| "exn_str (PermanentFetchError m) = m"
| "exn_str SoftTimeLimitExceeded = ''SoftTimeLimitExceeded()''"
| "exn_str WorkerLostError = ''WorkerLostError()''"
| "exn_str (ScheduleError m) = m"
| "exn_str (IntegrityError m) = m"
| "exn_str CardinalityViolation = ''ON CONFLICT DO UPDATE command cannot affect row a second time''"
| "exn_str (DataError m) = m"
| "exn_str (ObjectMissing m) = m"
| "exn_str NoResultFound = ''No row was found when one was required''"
| "exn_str (HTTPException _ m) = m"
| "exn_str (OtherError _ m) = m"

definition assert_transition :: "job_state \<Rightarrow> job_state \<Rightarrow> exn + unit" where
  "assert_transition current target =
     (if \<not> can_transition current target then Inl (IllegalTransition current target) else Inr ())"

subsection \<open>The transition relation\<close>

lemma terminal_iff: "terminal s \<longleftrightarrow> transitions s = []"
  by (cases s) (simp_all add: terminal_def terminal_states_def)

lemma terminal_simps [simp]:
  "\<not> terminal PENDING" "\<not> terminal RUNNING" "\<not> terminal PAUSED"
  "terminal SUCCEEDED" "terminal PARTIAL" "terminal SUSPECT"
  "terminal FAILED" "terminal CANCELLED" "terminal DEAD_LETTER"
  by (simp_all add: terminal_def terminal_states_def)

lemma assert_transition_Inr [simp]:
  "assert_transition c t = Inr u \<longleftrightarrow> can_transition c t"
  by (simp add: assert_transition_def)

lemma assert_transition_Inl [simp]:
  "assert_transition c t = Inl e \<longleftrightarrow> \<not> can_transition c t \<and> e = IllegalTransition c t"
  by (auto simp: assert_transition_def)

lemma terminal_no_transition: "terminal s \<Longrightarrow> \<not> can_transition s t"
  by (simp add: can_transition_def terminal_iff)

lemma can_transition_simps [simp]:
  "can_transition PENDING t \<longleftrightarrow> t = RUNNING \<or> t = CANCELLED \<or> t = FAILED"
  "can_transition RUNNING t \<longleftrightarrow> t \<noteq> PENDING"
  "can_transition PAUSED t \<longleftrightarrow> t = RUNNING \<or> t = CANCELLED \<or> t = FAILED"
  by (cases t; simp add: can_transition_def)+

inductive evolves :: "job_state \<Rightarrow> job_state \<Rightarrow> bool" where
  evolves_refl: "evolves s s"
| evolves_step: "evolves s t \<Longrightarrow> can_transition t u \<Longrightarrow> evolves s u"

inductive_cases evolves_to: "evolves s t"

lemma evolves_from_terminal: "evolves s t \<Longrightarrow> terminal s \<Longrightarrow> t = s"
  by (induction rule: evolves.induct) (auto dest: terminal_no_transition)

lemma evolves_trans: "evolves t u \<Longrightarrow> evolves s t \<Longrightarrow> evolves s u"
  by (induction rule: evolves.induct) (auto intro: evolves.intros)

lemma evolves_not_PENDING: "evolves s t \<Longrightarrow> t = PENDING \<Longrightarrow> s = PENDING"
proof (induction rule: evolves.induct)
  case (evolves_step s t u)
  have "\<not> can_transition t PENDING"
    by (cases t) (simp_all add: can_transition_def)
  with evolves_step show ?case by simp
qed simp

end
