(* ===== verification/Json.thy ===== *)
theory Json
  imports Prelude
begin

text \<open>
  JSON values as Python holds them after \<^verbatim>\<open>json.loads\<close>, with the parts of the standard
  library the program applies to them: truth value, \<^verbatim>\<open>str\<close>, and \<^verbatim>\<open>json.dumps\<close> in
  the three configurations used (compact with sorted keys for hashing, plain for page
  snapshots, indented for results).  A float is held as its shortest decimal text, which is
  what both \<^verbatim>\<open>str\<close> and \<^verbatim>\<open>json.dumps\<close> print.
\<close>

datatype json =
    JNull
  | JBool bool
  | JInt int
  | JFloat string
  | JStr string
  | JArr "json list"
  | JObj "(string \<times> json) list"

type_synonym row = "(string, json) dict"

fun truthy :: "json \<Rightarrow> bool" where
  "truthy JNull = False"
| "truthy (JBool b) = b"
| "truthy (JInt i) = (i \<noteq> 0)"
| "truthy (JFloat t) = (t \<noteq> ''0.0'' \<and> t \<noteq> ''-0.0'')"
| "truthy (JStr s) = (s \<noteq> [])"
| "truthy (JArr xs) = (xs \<noteq> [])"
| "truthy (JObj ps) = (ps \<noteq> [])"

definition join :: "string \<Rightarrow> string list \<Rightarrow> string" where
  "join sep xs = (case xs of [] \<Rightarrow> [] | y # ys \<Rightarrow> y @ concat (map (\<lambda>z. sep @ z) ys))"

definition hexdigit :: "nat \<Rightarrow> char" where
  "hexdigit d = (if d < 10 then char_of (48 + d) else char_of (87 + d))"

definition hex2 :: "nat \<Rightarrow> string" where
  "hex2 n = [hexdigit (n div 16 mod 16), hexdigit (n mod 16)]"

definition hex4 :: "nat \<Rightarrow> string" where
  "hex4 n = hex2 (n div 256) @ hex2 (n mod 256)"

subsection \<open>\<open>str\<close> and \<open>repr\<close>\<close>

definition repr_char :: "char \<Rightarrow> char \<Rightarrow> string" where
  "repr_char q c =
     (let n = (of_char c :: nat) in
      if c = q \<or> n = 92 then [CHR 0x5C, c]
      else if n = 10 then [CHR 0x5C, CHR ''n'']
      else if n = 13 then [CHR 0x5C, CHR ''r'']
      else if n = 9 then [CHR 0x5C, CHR ''t'']
      else if n < 32 \<or> n = 127 then [CHR 0x5C, CHR ''x''] @ hex2 n
      else [c])"

definition repr_string :: "string \<Rightarrow> string" where
  "repr_string s =
     (let q = (if CHR 0x27 \<in> set s \<and> CHR 0x22 \<notin> set s then CHR 0x22 else CHR 0x27)
      in [q] @ concat (map (repr_char q) s) @ [q])"

fun py_repr :: "json \<Rightarrow> string"
and py_repr_list :: "json list \<Rightarrow> string list"
and py_repr_items :: "(string \<times> json) list \<Rightarrow> string list" where
  "py_repr JNull = ''None''"
| "py_repr (JBool b) = (if b then ''True'' else ''False'')"
| "py_repr (JInt i) = dec_int i"
| "py_repr (JFloat t) = t"
| "py_repr (JStr s) = repr_string s"
| "py_repr (JArr xs) = ''['' @ join '', '' (py_repr_list xs) @ '']''"
| "py_repr (JObj ps) = ''{'' @ join '', '' (py_repr_items ps) @ ''}''"
| "py_repr_list [] = []"
| "py_repr_list (x # xs) = py_repr x # py_repr_list xs"
| "py_repr_items [] = []"
| "py_repr_items ((k, v) # ps) = (repr_string k @ '': '' @ py_repr v) # py_repr_items ps"

fun py_str :: "json \<Rightarrow> string" where
  "py_str (JStr s) = s"
| "py_str v = py_repr v"

subsection \<open>\<open>json.dumps\<close>\<close>

text \<open>
  With \<open>ensure_ascii\<close> a character outside ASCII is written as its UTF-16 escapes;
  \<open>utf8_points\<close> decodes the bytes of the model's text.
\<close>

fun utf8_points :: "string \<Rightarrow> nat list" where
  "utf8_points [] = []"
| "utf8_points [a] = [of_char a]"
| "utf8_points (a # b # s) =
     (let x = of_char a :: nat; y = of_char b :: nat in
      if x < 192 then x # utf8_points (b # s)
      else if x < 224 then ((x - 192) * 64 + (y - 128)) # utf8_points s
      else if x < 240 then
        (case s of c # t \<Rightarrow>
           ((x - 224) * 4096 + (y - 128) * 64 + (of_char c - 128)) # utf8_points t
         | [] \<Rightarrow> [x, y])
      else
        (case s of c # d # t \<Rightarrow>
           ((x - 240) * 262144 + (y - 128) * 4096 + (of_char c - 128) * 64
              + (of_char d - 128)) # utf8_points t
         | _ \<Rightarrow> x # y # map of_char s))"

definition u_escape :: "nat \<Rightarrow> string" where
  "u_escape n = [CHR 0x5C, CHR ''u''] @ hex4 n"

definition esc_point :: "nat \<Rightarrow> string" where
  "esc_point n =
     (if n = 34 then [CHR 0x5C, CHR 0x22]
      else if n = 92 then [CHR 0x5C, CHR 0x5C]
      else if n = 10 then [CHR 0x5C, CHR ''n'']
      else if n = 13 then [CHR 0x5C, CHR ''r'']
      else if n = 9 then [CHR 0x5C, CHR ''t'']
      else if n = 12 then [CHR 0x5C, CHR ''f'']
      else if n = 8 then [CHR 0x5C, CHR ''b'']
      else if 32 \<le> n \<and> n < 127 then [char_of n]
      else if n < 65536 then u_escape n
      else u_escape (55296 + (n - 65536) div 1024) @ u_escape (56320 + (n - 65536) mod 1024))"

definition esc_char :: "char \<Rightarrow> string" where
  "esc_char c =
     (let n = (of_char c :: nat) in if n < 32 \<or> n = 34 \<or> n = 92 then esc_point n else [c])"

definition json_string :: "bool \<Rightarrow> string \<Rightarrow> string" where
  "json_string ascii s =
     (let body = (if ascii then concat (map esc_point (utf8_points s))
                  else concat (map esc_char s))
      in [CHR 0x22] @ body @ [CHR 0x22])"

text \<open>\<open>sort_keys=True\<close> prints every object in key order: the value is put in key order first.\<close>

fun sort_json :: "json \<Rightarrow> json"
and sort_json_list :: "json list \<Rightarrow> json list"
and sort_json_items :: "(string \<times> json) list \<Rightarrow> (string \<times> json) list" where
  "sort_json (JArr xs) = JArr (sort_json_list xs)"
| "sort_json (JObj ps) = JObj (sort_key fst (sort_json_items ps))"
| "sort_json v = v"
| "sort_json_list [] = []"
| "sort_json_list (x # xs) = sort_json x # sort_json_list xs"
| "sort_json_items [] = []"
| "sort_json_items ((k, v) # ps) = (k, sort_json v) # sort_json_items ps"

text \<open>The separators between items and after a key, and the \<open>ensure_ascii\<close> flag.\<close>

record style =
  ascii :: bool
  item_sep :: string
  key_sep :: string

definition compact :: style where
  "compact = \<lparr>ascii = True, item_sep = '','', key_sep = '':''\<rparr>"

definition plain :: style where
  "plain = \<lparr>ascii = False, item_sep = '', '', key_sep = '': ''\<rparr>"

fun dumps :: "style \<Rightarrow> json \<Rightarrow> string"
and dumps_list :: "style \<Rightarrow> json list \<Rightarrow> string list"
and dumps_items :: "style \<Rightarrow> (string \<times> json) list \<Rightarrow> string list" where
  "dumps st JNull = ''null''"
| "dumps st (JBool b) = (if b then ''true'' else ''false'')"
| "dumps st (JInt i) = dec_int i"
| "dumps st (JFloat t) = t"
| "dumps st (JStr s) = json_string (ascii st) s"
| "dumps st (JArr xs) = ''['' @ join (item_sep st) (dumps_list st xs) @ '']''"
| "dumps st (JObj ps) = ''{'' @ join (item_sep st) (dumps_items st ps) @ ''}''"
| "dumps_list st [] = []"
| "dumps_list st (x # xs) = dumps st x # dumps_list st xs"
| "dumps_items st [] = []"
| "dumps_items st ((k, v) # ps) =
     (json_string (ascii st) k @ key_sep st @ dumps st v) # dumps_items st ps"

text \<open>\<open>json.dumps(v, sort_keys=True, separators=(",", ":"), default=str)\<close>.\<close>

definition canonical :: "json \<Rightarrow> string" where
  "canonical v = dumps compact (sort_json v)"

text \<open>\<open>json.dumps(v, ensure_ascii=False, indent=2)\<close>; \<open>n\<close> is the current indentation.\<close>

definition newline_indent :: "nat \<Rightarrow> string" where
  "newline_indent n = CHR 0x0A # replicate n (CHR '' '')"

fun dumps_indent :: "nat \<Rightarrow> json \<Rightarrow> string"
and dumps_indent_list :: "nat \<Rightarrow> json list \<Rightarrow> string list"
and dumps_indent_items :: "nat \<Rightarrow> (string \<times> json) list \<Rightarrow> string list" where
  "dumps_indent n (JArr []) = ''[]''"
| "dumps_indent n (JObj []) = ''{}''"
| "dumps_indent n (JArr (x # xs)) =
     ''['' @ newline_indent (n + 2)
       @ join ('','' @ newline_indent (n + 2)) (dumps_indent_list (n + 2) (x # xs))
       @ newline_indent n @ '']''"
| "dumps_indent n (JObj (p # ps)) =
     ''{'' @ newline_indent (n + 2)
       @ join ('','' @ newline_indent (n + 2)) (dumps_indent_items (n + 2) (p # ps))
       @ newline_indent n @ ''}''"
| "dumps_indent n JNull = ''null''"
| "dumps_indent n (JBool b) = (if b then ''true'' else ''false'')"
| "dumps_indent n (JInt i) = dec_int i"
| "dumps_indent n (JFloat t) = t"
| "dumps_indent n (JStr s) = json_string False s"
| "dumps_indent_list n [] = []"
| "dumps_indent_list n (x # xs) = dumps_indent n x # dumps_indent_list n xs"
| "dumps_indent_items n [] = []"
| "dumps_indent_items n ((k, v) # ps) =
     (json_string False k @ '': '' @ dumps_indent n v) # dumps_indent_items n ps"

subsection \<open>Facts shared by the users of the codec\<close>

lemma dumps_list_map: "dumps_list st xs = map (dumps st) xs"
  by (induction xs) simp_all

lemma sort_json_list_map: "sort_json_list xs = map sort_json xs"
  by (induction xs) simp_all

lemma sort_json_items_map: "sort_json_items ps = map (\<lambda>(k, v). (k, sort_json v)) ps"
  by (induction ps) auto

lemma join_simps [simp]:
  "join sep [] = []"
  "join sep [x] = x"
  "join sep (x # y # xs) = x @ sep @ join sep (y # xs)"
  by (simp_all add: join_def)

lemma sort_key_unique:
  assumes "mset xs = mset ys" and "distinct (map f ys)"
  shows "sort_key f xs = sort_key f ys"
proof (rule sort_key_inj_key_eq)
  show "mset xs = mset (sort_key f ys)" using assms(1) by simp
  show "inj_on f (set xs)"
    using assms by (simp add: distinct_map mset_eq_setD [OF assms(1)])
  show "sorted (map f (sort_key f ys))" by simp
qed

text \<open>The order in which the keys of an object were inserted does not reach the hash.\<close>

lemma canonical_key_order:
  assumes "mset ps = mset qs" and "distinct (dict_keys qs)"
  shows "canonical (JObj ps) = canonical (JObj qs)"
proof -
  let ?g = "\<lambda>(k, v). (k, sort_json v)"
  have "mset (map ?g ps) = mset (map ?g qs)" using assms(1) by simp
  moreover have "map fst (map ?g qs) = dict_keys qs" by (induction qs) auto
  then have "distinct (map fst (map ?g qs))" using assms(2) by argo
  ultimately have "sort_key fst (map ?g ps) = sort_key fst (map ?g qs)"
    by (rule sort_key_unique)
  then show ?thesis by (simp add: canonical_def sort_json_items_map)
qed

end
