(* ===== verification/Store.thy ===== *)
theory Store
  imports States Json
begin

text \<open>
  The storage schema of \<^verbatim>\<open>db/tables.py\<close> as records, one list of rows per table, and the
  statements of \<^verbatim>\<open>db/repo.py\<close> as functions on that state: the uniqueness constraints are
  checked where an insert meets them, \<open>ON CONFLICT\<close> clauses say what happens then, and every
  state change goes through the transition check.  Surrogate keys are left out.  A UUID is its
  canonical text; a time is an integer; a write to a job row also moves \<open>updated_at\<close>.
\<close>

type_synonym uuid = string
type_synonym datetime = int

record job =
  j_id :: uuid
  j_state :: job_state
  j_target :: string
  j_fetcher :: string
  j_start_url :: string
  j_max_pages :: int
  j_output_format :: string
  j_incremental :: bool
  j_params :: "(string, json) dict"
  j_api_key_id :: string
  j_idempotency_key :: "string option"
  j_callback_url :: "string option"
  j_celery_task_id :: "string option"
  j_attempts :: int
  j_lost_worker_count :: int
  j_pages_total :: "int option"
  j_pages_done :: int
  j_pages_failed :: int
  j_rows :: int
  j_result_key :: "string option"
  j_result_bytes :: "int option"
  j_error :: "string option"
  j_created_at :: datetime
  j_updated_at :: datetime
  j_started_at :: "datetime option"
  j_finished_at :: "datetime option"

record job_page =
  p_job_id :: uuid
  p_page :: int
  p_url :: string
  p_state :: page_state
  p_rows :: int
  p_content_hash :: "string option"
  p_attempts :: int
  p_fetched_at :: "datetime option"

record failed_page =
  f_job_id :: uuid
  f_page :: int
  f_url :: string
  f_attempts :: int
  f_error_type :: string
  f_error :: string
  f_traceback :: "string option"
  f_last_attempt_at :: datetime

record dead_letter =
  d_job_id :: uuid
  d_reason :: string
  d_detail :: string
  d_payload :: "(string, json) dict"
  d_parked_at :: datetime
  d_resolved_at :: "datetime option"

record target_snapshot =
  s_target :: string
  s_row_key :: string
  s_content_hash :: string
  s_job_id :: "uuid option"
  s_seen_at :: datetime

record drift_baseline =
  b_target :: string
  b_rows_per_page :: int
  b_samples :: int
  b_updated_at :: datetime

record db =
  jobs :: "job list"
  job_pages :: "job_page list"
  failed_pages :: "failed_page list"
  dead_letters :: "dead_letter list"
  target_snapshots :: "target_snapshot list"
  drift_baselines :: "drift_baseline list"

definition empty_db :: db where
  "empty_db = \<lparr>jobs = [], job_pages = [], failed_pages = [], dead_letters = [],
     target_snapshots = [], drift_baselines = []\<rparr>"

subsection \<open>Jobs\<close>

definition get_job :: "db \<Rightarrow> uuid \<Rightarrow> job option" where
  "get_job db i = List.find (\<lambda>j. j_id j = i) (jobs db)"

text \<open>\<open>UPDATE jobs SET ... WHERE id = i\<close>; the \<open>onupdate\<close> column moves with it.\<close>

definition update_job :: "datetime \<Rightarrow> uuid \<Rightarrow> (job \<Rightarrow> job) \<Rightarrow> db \<Rightarrow> db" where
  "update_job now i f db =
     db\<lparr>jobs := map (\<lambda>j. if j_id j = i then (f j)\<lparr>j_updated_at := now\<rparr> else j) (jobs db)\<rparr>"

definition find_by_idempotency_key :: "db \<Rightarrow> string \<Rightarrow> string \<Rightarrow> exn + job option" where
  "find_by_idempotency_key db api_key_id key =
     (case filter (\<lambda>j. j_api_key_id j = api_key_id \<and> j_idempotency_key j = Some key) (jobs db) of
        [] \<Rightarrow> Inr None
      | [j] \<Rightarrow> Inr (Some j)
      | _ \<Rightarrow> Inl (OtherError ''MultipleResultsFound'' ''Multiple rows were found when one or none was required''))"

text \<open>
  The columns a caller of \<open>create_job\<close> sets; the rest take the defaults of the table
  (\<open>new_job\<close>), the id being the fresh UUID handed in.
\<close>

record job_fields =
  n_state :: job_state
  n_target :: string
  n_fetcher :: string
  n_start_url :: string
  n_max_pages :: int
  n_output_format :: string
  n_incremental :: bool
  n_params :: "(string, json) dict"
  n_api_key_id :: string
  n_idempotency_key :: "string option"
  n_callback_url :: "string option"

definition new_job :: "datetime \<Rightarrow> uuid \<Rightarrow> job_fields \<Rightarrow> job" where
  "new_job now i n =
     \<lparr>j_id = i, j_state = n_state n, j_target = n_target n, j_fetcher = n_fetcher n,
      j_start_url = n_start_url n, j_max_pages = n_max_pages n,
      j_output_format = n_output_format n, j_incremental = n_incremental n,
      j_params = n_params n, j_api_key_id = n_api_key_id n,
      j_idempotency_key = n_idempotency_key n, j_callback_url = n_callback_url n,
      j_celery_task_id = None, j_attempts = 0, j_lost_worker_count = 0, j_pages_total = None,
      j_pages_done = 0, j_pages_failed = 0, j_rows = 0, j_result_key = None,
      j_result_bytes = None, j_error = None, j_created_at = now, j_updated_at = now,
      j_started_at = None, j_finished_at = None\<rparr>"

definition too_long :: "job \<Rightarrow> bool" where
  "too_long j \<longleftrightarrow> 64 < length (j_target j) \<or> 16 < length (j_fetcher j)
     \<or> 8 < length (j_output_format j) \<or> 64 < length (j_api_key_id j)
     \<or> (case j_idempotency_key j of None \<Rightarrow> False | Some k \<Rightarrow> 128 < length k)"

definition idempotency_clash :: "db \<Rightarrow> job \<Rightarrow> bool" where
  "idempotency_clash db j \<longleftrightarrow> j_idempotency_key j \<noteq> None
     \<and> (\<exists>k \<in> set (jobs db). j_api_key_id k = j_api_key_id j
                          \<and> j_idempotency_key k = j_idempotency_key j)"

definition create_job :: "datetime \<Rightarrow> uuid \<Rightarrow> job_fields \<Rightarrow> db \<Rightarrow> exn + job \<times> db" where
  "create_job now i n db =
     (let j = new_job now i n in
      if too_long j then Inl (DataError ''value too long for type character varying'')
      else if 2147483647 < j_max_pages j then Inl (DataError ''integer out of range'')
      else if \<not> 0 < j_max_pages j then Inl (IntegrityError ''ck_jobs_max_pages_positive'')
      else if get_job db i \<noteq> None then Inl (IntegrityError ''jobs_pkey'')
      else if idempotency_clash db j then Inl (IntegrityError ''uq_jobs_idempotency_key'')
      else Inr (j, db\<lparr>jobs := jobs db @ [j]\<rparr>))"

text \<open>
  A session hands out a job object; assignments to it reach the row at the next flush, column
  by column and only where the value differs from the one loaded.  \<open>flush_job now j j'\<close> is that
  flush for an object loaded as \<open>j\<close> and now \<open>j'\<close>.
\<close>

definition flushed :: "'a \<Rightarrow> 'a \<Rightarrow> 'a \<Rightarrow> 'a" where
  "flushed old new stored = (if new = old then stored else new)"

definition flush_cols :: "job \<Rightarrow> job \<Rightarrow> job \<Rightarrow> job" where
  "flush_cols j j' r =
     r\<lparr>j_state := flushed (j_state j) (j_state j') (j_state r),
       j_celery_task_id := flushed (j_celery_task_id j) (j_celery_task_id j') (j_celery_task_id r),
       j_attempts := flushed (j_attempts j) (j_attempts j') (j_attempts r),
       j_pages_total := flushed (j_pages_total j) (j_pages_total j') (j_pages_total r),
       j_rows := flushed (j_rows j) (j_rows j') (j_rows r),
       j_result_key := flushed (j_result_key j) (j_result_key j') (j_result_key r),
       j_result_bytes := flushed (j_result_bytes j) (j_result_bytes j') (j_result_bytes r),
       j_error := flushed (j_error j) (j_error j') (j_error r),
       j_started_at := flushed (j_started_at j) (j_started_at j') (j_started_at r),
       j_finished_at := flushed (j_finished_at j) (j_finished_at j') (j_finished_at r)\<rparr>"

definition flush_job :: "datetime \<Rightarrow> job \<Rightarrow> job \<Rightarrow> db \<Rightarrow> db" where
  "flush_job now j j' db =
     (if j' = j then db else update_job now (j_id j) (flush_cols j j') db)"

text \<open>
  \<open>transition\<close> checks the state of the object it is given, which need not be the state of the
  row by then: no lock is taken when the object is loaded.
\<close>

definition transition_cols :: "datetime \<Rightarrow> job_state \<Rightarrow> string option \<Rightarrow> job \<Rightarrow> job" where
  "transition_cols now target err j =
     j\<lparr>j_state := target,
       j_started_at := (if target = RUNNING \<and> j_started_at j = None then Some now
                        else j_started_at j),
       j_finished_at := (if terminal target then Some now else j_finished_at j),
       j_error := (case err of None \<Rightarrow> j_error j | Some e \<Rightarrow> Some (take 4000 e))\<rparr>"

definition transition ::
  "datetime \<Rightarrow> db \<Rightarrow> job \<Rightarrow> job \<Rightarrow> job_state \<Rightarrow> string option \<Rightarrow> exn + job \<times> db" where
  "transition now db loaded j target err =
     bindE (assert_transition (j_state j) target) (\<lambda>_.
       let j' = transition_cols now target err j in Inr (j', flush_job now loaded j' db))"

subsection \<open>Pages and failures\<close>

definition page_recorded :: "db \<Rightarrow> uuid \<Rightarrow> int \<Rightarrow> bool" where
  "page_recorded db i page \<longleftrightarrow> (\<exists>p \<in> set (job_pages db). p_job_id p = i \<and> p_page p = page)"

definition record_page ::
  "datetime \<Rightarrow> db \<Rightarrow> uuid \<Rightarrow> int \<Rightarrow> string \<Rightarrow> page_state \<Rightarrow> int \<Rightarrow> string option
    \<Rightarrow> exn + bool \<times> db" where
  "record_page now db i page url st n h =
     (if page_recorded db i page then Inr (False, db)
      else if get_job db i = None then Inl (IntegrityError ''job_pages_job_id_fkey'')
      else Inr (True,
        update_job now i (\<lambda>j. j\<lparr>j_pages_done := j_pages_done j + 1, j_rows := j_rows j + n\<rparr>)
          (db\<lparr>job_pages := job_pages db @
             [\<lparr>p_job_id = i, p_page = page, p_url = url, p_state = st, p_rows = n,
               p_content_hash = h, p_attempts = 1, p_fetched_at = Some now\<rparr>]\<rparr>)))"

definition failure_recorded :: "db \<Rightarrow> uuid \<Rightarrow> int \<Rightarrow> bool" where
  "failure_recorded db i page \<longleftrightarrow>
     (\<exists>f \<in> set (failed_pages db). f_job_id f = i \<and> f_page f = page)"

definition record_failed_page ::
  "datetime \<Rightarrow> db \<Rightarrow> uuid \<Rightarrow> int \<Rightarrow> string \<Rightarrow> int \<Rightarrow> string \<Rightarrow> string \<Rightarrow> string option
    \<Rightarrow> exn + db" where
  "record_failed_page now db i page url n ty e tb =
     (if get_job db i = None then Inl (IntegrityError ''failed_pages_job_id_fkey'')
      else
        let db' =
          (if failure_recorded db i page then
             db\<lparr>failed_pages := map (\<lambda>f. if f_job_id f = i \<and> f_page f = page
                  then f\<lparr>f_attempts := n, f_error := take 4000 e, f_last_attempt_at := now\<rparr>
                  else f) (failed_pages db)\<rparr>
           else
             db\<lparr>failed_pages := failed_pages db @
               [\<lparr>f_job_id = i, f_page = page, f_url = url, f_attempts = n,
                 f_error_type = take 64 ty, f_error = take 4000 e, f_traceback = tb,
                 f_last_attempt_at = now\<rparr>]\<rparr>)
        in Inr (update_job now i (\<lambda>j. j\<lparr>j_pages_failed := j_pages_failed j + 1\<rparr>) db'))"

definition completed_pages :: "db \<Rightarrow> uuid \<Rightarrow> int set" where
  "completed_pages db i =
     set (map p_page (filter (\<lambda>p. p_job_id p = i \<and> p_state p \<in> {PageFETCHED, PagePARSED})
                        (job_pages db)))"

subsection \<open>Dead letters and redelivery counts\<close>

definition park_dead_letter ::
  "datetime \<Rightarrow> db \<Rightarrow> uuid \<Rightarrow> string \<Rightarrow> string \<Rightarrow> (string, json) dict \<Rightarrow> exn + db" where
  "park_dead_letter now db i reason detail payload =
     (if get_job db i = None then Inl (IntegrityError ''dead_letters_job_id_fkey'')
      else Inr (db\<lparr>dead_letters := dead_letters db @
        [\<lparr>d_job_id = i, d_reason = take 32 reason, d_detail = take 4000 detail,
          d_payload = payload, d_parked_at = now, d_resolved_at = None\<rparr>]\<rparr>))"

definition bump_lost_worker :: "datetime \<Rightarrow> db \<Rightarrow> uuid \<Rightarrow> exn + int \<times> db" where
  "bump_lost_worker now db i =
     (case get_job db i of
        None \<Rightarrow> Inl NoResultFound
      | Some j \<Rightarrow> Inr (j_lost_worker_count j + 1,
          update_job now i
            (\<lambda>j. j\<lparr>j_lost_worker_count := j_lost_worker_count j + 1\<rparr>) db))"

definition queue_depth_by_state :: "db \<Rightarrow> (string, nat) dict" where
  "queue_depth_by_state db =
     map (\<lambda>s. (s, length (filter (\<lambda>j. state_str (j_state j) = s) (jobs db))))
       (remdups (map (\<lambda>j. state_str (j_state j)) (jobs db)))"

subsection \<open>Looking up a row after a statement\<close>

lemma get_job_id: "get_job db i = Some j \<Longrightarrow> j_id j = i"
  by (auto simp: get_job_def dest: find_Some_in)

lemma get_job_in: "get_job db i = Some j \<Longrightarrow> j \<in> set (jobs db)"
  by (auto simp: get_job_def dest: find_Some_in)

lemma get_job_known: "get_job db i \<noteq> None \<Longrightarrow> i \<in> j_id ` set (jobs db)"
  using find_Some_in [of "\<lambda>j. j_id j = i" "jobs db"] by (force simp: get_job_def)

lemma get_job_None: "get_job db i = None \<longleftrightarrow> i \<notin> j_id ` set (jobs db)"
  by (auto simp: get_job_def find_None_iff')

lemma get_job_mem:
  "j \<in> set (jobs db) \<Longrightarrow> distinct (map j_id (jobs db)) \<Longrightarrow> get_job db (j_id j) = Some j"
  by (simp add: get_job_def find_unique)

lemma get_job_update:
  assumes "\<And>j. j_id (f j) = j_id j"
  shows "get_job (update_job now i f db) k =
     (if k = i then map_option (\<lambda>j. (f j)\<lparr>j_updated_at := now\<rparr>) (get_job db k)
      else get_job db k)"
proof -
  let ?g = "\<lambda>j. if j_id j = i then (f j)\<lparr>j_updated_at := now\<rparr> else j"
  have "get_job (update_job now i f db) k = map_option ?g (get_job db k)"
    unfolding get_job_def update_job_def by (simp add: find_map_same assms)
  moreover have "map_option ?g (get_job db k) = (if k = i then
      map_option (\<lambda>j. (f j)\<lparr>j_updated_at := now\<rparr>) (get_job db k) else get_job db k)"
    by (cases "get_job db k") (auto dest: get_job_id)
  ultimately show ?thesis by simp
qed

lemma update_job_frame [frame]:
  "job_pages (update_job now i f db) = job_pages db"
  "failed_pages (update_job now i f db) = failed_pages db"
  "dead_letters (update_job now i f db) = dead_letters db"
  "target_snapshots (update_job now i f db) = target_snapshots db"
  "drift_baselines (update_job now i f db) = drift_baselines db"
  by (simp_all add: update_job_def)

lemma get_job_frame [simp]:
  "get_job (db\<lparr>job_pages := a\<rparr>) i = get_job db i"
  "get_job (db\<lparr>failed_pages := b\<rparr>) i = get_job db i"
  "get_job (db\<lparr>dead_letters := c\<rparr>) i = get_job db i"
  "get_job (db\<lparr>target_snapshots := d\<rparr>) i = get_job db i"
  "get_job (db\<lparr>drift_baselines := e\<rparr>) i = get_job db i"
  by (simp_all add: get_job_def)

lemma transition_cols_sel [simp]:
  "j_id (transition_cols now t e j) = j_id j"
  "j_state (transition_cols now t e j) = t"
  "j_target (transition_cols now t e j) = j_target j"
  "j_fetcher (transition_cols now t e j) = j_fetcher j"
  "j_start_url (transition_cols now t e j) = j_start_url j"
  "j_max_pages (transition_cols now t e j) = j_max_pages j"
  "j_output_format (transition_cols now t e j) = j_output_format j"
  "j_incremental (transition_cols now t e j) = j_incremental j"
  "j_params (transition_cols now t e j) = j_params j"
  "j_api_key_id (transition_cols now t e j) = j_api_key_id j"
  "j_idempotency_key (transition_cols now t e j) = j_idempotency_key j"
  "j_callback_url (transition_cols now t e j) = j_callback_url j"
  "j_celery_task_id (transition_cols now t e j) = j_celery_task_id j"
  "j_attempts (transition_cols now t e j) = j_attempts j"
  "j_lost_worker_count (transition_cols now t e j) = j_lost_worker_count j"
  "j_pages_total (transition_cols now t e j) = j_pages_total j"
  "j_pages_done (transition_cols now t e j) = j_pages_done j"
  "j_pages_failed (transition_cols now t e j) = j_pages_failed j"
  "j_rows (transition_cols now t e j) = j_rows j"
  "j_result_key (transition_cols now t e j) = j_result_key j"
  "j_result_bytes (transition_cols now t e j) = j_result_bytes j"
  "j_created_at (transition_cols now t e j) = j_created_at j"
  "j_updated_at (transition_cols now t e j) = j_updated_at j"
  by (simp_all add: transition_cols_def)

lemma flushed_own [simp]: "flushed x y x = y"
  by (simp add: flushed_def)

lemma flushed_same [simp]: "flushed x x z = z"
  by (simp add: flushed_def)

lemma flush_cols_keeps [simp]:
  "j_id (flush_cols j j' r) = j_id r"
  "j_target (flush_cols j j' r) = j_target r"
  "j_start_url (flush_cols j j' r) = j_start_url r"
  "j_max_pages (flush_cols j j' r) = j_max_pages r"
  "j_output_format (flush_cols j j' r) = j_output_format r"
  "j_incremental (flush_cols j j' r) = j_incremental r"
  "j_api_key_id (flush_cols j j' r) = j_api_key_id r"
  "j_idempotency_key (flush_cols j j' r) = j_idempotency_key r"
  "j_callback_url (flush_cols j j' r) = j_callback_url r"
  "j_lost_worker_count (flush_cols j j' r) = j_lost_worker_count r"
  "j_pages_done (flush_cols j j' r) = j_pages_done r"
  "j_pages_failed (flush_cols j j' r) = j_pages_failed r"
  "j_fetcher (flush_cols j j' r) = j_fetcher r"
  "j_params (flush_cols j j' r) = j_params r"
  "j_created_at (flush_cols j j' r) = j_created_at r"
  by (simp_all add: flush_cols_def)

lemma flush_cols_sel:
  "j_state (flush_cols j j' r) = flushed (j_state j) (j_state j') (j_state r)"
  "j_rows (flush_cols j j' r) = flushed (j_rows j) (j_rows j') (j_rows r)"
  "j_result_key (flush_cols j j' r) = flushed (j_result_key j) (j_result_key j') (j_result_key r)"
  "j_attempts (flush_cols j j' r) = flushed (j_attempts j) (j_attempts j') (j_attempts r)"
  "j_error (flush_cols j j' r) = flushed (j_error j) (j_error j') (j_error r)"
  "j_finished_at (flush_cols j j' r) =
     flushed (j_finished_at j) (j_finished_at j') (j_finished_at r)"
  "j_started_at (flush_cols j j' r) = flushed (j_started_at j) (j_started_at j') (j_started_at r)"
  "j_celery_task_id (flush_cols j j' r) =
     flushed (j_celery_task_id j) (j_celery_task_id j') (j_celery_task_id r)"
  "j_pages_total (flush_cols j j' r) =
     flushed (j_pages_total j) (j_pages_total j') (j_pages_total r)"
  "j_result_bytes (flush_cols j j' r) =
     flushed (j_result_bytes j) (j_result_bytes j') (j_result_bytes r)"
  by (simp_all add: flush_cols_def)

lemma get_job_flush:
  "get_job (flush_job now j j' db) k =
     (if k = j_id j \<and> j' \<noteq> j
      then map_option (\<lambda>r. (flush_cols j j' r)\<lparr>j_updated_at := now\<rparr>) (get_job db k)
      else get_job db k)"
  by (simp add: flush_job_def get_job_update)

lemma flush_job_frame [frame]:
  "job_pages (flush_job now j j' db) = job_pages db"
  "failed_pages (flush_job now j j' db) = failed_pages db"
  "dead_letters (flush_job now j j' db) = dead_letters db"
  "target_snapshots (flush_job now j j' db) = target_snapshots db"
  "drift_baselines (flush_job now j j' db) = drift_baselines db"
  by (simp_all add: flush_job_def frame)

text \<open>Flushed onto the row it was loaded from, an object is what the row becomes.\<close>

lemma flush_own_state:
  assumes "get_job db i = Some j" and "j_id j' = i"
  shows "\<exists>r. get_job (flush_job now j j' db) i = Some r \<and> j_state r = j_state j'
    \<and> j_result_key r = j_result_key j' \<and> j_error r = j_error j' \<and> j_rows r = j_rows j'
    \<and> j_finished_at r = j_finished_at j' \<and> j_started_at r = j_started_at j'"
  using assms get_job_id [OF assms(1)]
  by (cases "j' = j") (simp_all add: get_job_flush flush_cols_sel)

lemma transition_Inr:
  "transition now db l j t e = Inr (j', db') \<longleftrightarrow>
     can_transition (j_state j) t \<and> j' = transition_cols now t e j
     \<and> db' = flush_job now l (transition_cols now t e j) db"
  by (auto simp: transition_def bindE_Inr_iff Let_def)

lemma transition_Inl:
  "transition now db l j t e = Inl x \<longleftrightarrow>
     \<not> can_transition (j_state j) t \<and> x = IllegalTransition (j_state j) t"
  by (auto simp: transition_def bindE_Inl_iff Let_def)

lemma create_job_Inr:
  "create_job now i n db = Inr (j, db') \<longleftrightarrow>
     j = new_job now i n \<and> db' = db\<lparr>jobs := jobs db @ [j]\<rparr> \<and> \<not> too_long j
     \<and> j_max_pages j \<le> 2147483647 \<and> 0 < j_max_pages j \<and> get_job db i = None \<and> \<not> idempotency_clash db j"
  by (auto simp: create_job_def Let_def split: if_splits)

lemma get_job_append:
  "get_job (db\<lparr>jobs := jobs db @ [j]\<rparr>) k =
     (case get_job db k of None \<Rightarrow> if j_id j = k then Some j else None | Some x \<Rightarrow> Some x)"
  by (simp add: get_job_def find_append split: option.split)

lemma get_job_create:
  assumes "create_job now i n db = Inr (j, db')"
  shows "get_job db' k = (if k = i then Some j else get_job db k)"
proof -
  from assms have "j_id j = i" "get_job db i = None" "db' = db\<lparr>jobs := jobs db @ [j]\<rparr>"
    by (auto simp: create_job_Inr new_job_def)
  then show ?thesis by (auto simp: get_job_append split: option.splits)
qed

lemma record_page_again:
  "page_recorded db i page \<Longrightarrow> record_page now db i page url st n h = Inr (False, db)"
  by (simp add: record_page_def)

lemma record_page_True:
  "record_page now db i page url st n h = Inr (True, db') \<longleftrightarrow>
     \<not> page_recorded db i page \<and> get_job db i \<noteq> None
     \<and> db' = update_job now i
         (\<lambda>j. j\<lparr>j_pages_done := j_pages_done j + 1, j_rows := j_rows j + n\<rparr>)
         (db\<lparr>job_pages := job_pages db @
            [\<lparr>p_job_id = i, p_page = page, p_url = url, p_state = st, p_rows = n,
              p_content_hash = h, p_attempts = 1, p_fetched_at = Some now\<rparr>]\<rparr>)"
  by (auto simp: record_page_def)

lemma record_page_False:
  "record_page now db i page url st n h = Inr (False, db') \<longleftrightarrow>
     page_recorded db i page \<and> db' = db"
  by (auto simp: record_page_def)

lemma record_page_recorded:
  "record_page now db i page url st n h = Inr (b, db') \<Longrightarrow>
     page_recorded db' k q \<longleftrightarrow> page_recorded db k q \<or> (k = i \<and> q = page)"
  by (cases b) (auto simp: record_page_True record_page_False page_recorded_def frame)

lemma record_page_completed:
  assumes "record_page now db i page url st n h = Inr (True, db')"
    and "st = PageFETCHED \<or> st = PagePARSED"
  shows "completed_pages db' k =
     (if k = i then insert page (completed_pages db k) else completed_pages db k)"
  using assms by (auto simp: record_page_True completed_pages_def frame)

subsection \<open>The invariant of the tables\<close>

definition keys_ok :: "db \<Rightarrow> bool" where
  "keys_ok db \<longleftrightarrow> distinct (map j_id (jobs db))
     \<and> distinct (map (\<lambda>p. (p_job_id p, p_page p)) (job_pages db))
     \<and> distinct (map (\<lambda>f. (f_job_id f, f_page f)) (failed_pages db))"

definition idempotency_ok :: "db \<Rightarrow> bool" where
  "idempotency_ok db \<longleftrightarrow>
     distinct (map (\<lambda>j. (j_api_key_id j, j_idempotency_key j))
       (filter (\<lambda>j. j_idempotency_key j \<noteq> None) (jobs db)))"

definition refs_ok :: "db \<Rightarrow> bool" where
  "refs_ok db \<longleftrightarrow>
     p_job_id ` set (job_pages db) \<union> f_job_id ` set (failed_pages db)
       \<union> d_job_id ` set (dead_letters db) \<subseteq> j_id ` set (jobs db)"

definition pages_of :: "db \<Rightarrow> uuid \<Rightarrow> job_page list" where
  "pages_of db i = filter (\<lambda>p. p_job_id p = i) (job_pages db)"

definition failures_of :: "db \<Rightarrow> uuid \<Rightarrow> failed_page list" where
  "failures_of db i = filter (\<lambda>f. f_job_id f = i) (failed_pages db)"

text \<open>
  The counters of a job row against the rows they count.  \<open>j_rows\<close> counts the rows of the
  recorded pages until the job is finalised, when it becomes the number of emitted rows.
\<close>

definition counts_ok :: "db \<Rightarrow> job \<Rightarrow> bool" where
  "counts_ok db j \<longleftrightarrow>
     j_pages_done j = int (length (pages_of db (j_id j)))
     \<and> int (length (failures_of db (j_id j))) \<le> j_pages_failed j
     \<and> (j_result_key j = None \<longrightarrow> j_rows j = sum_list (map p_rows (pages_of db (j_id j))))"

definition jobs_ok :: "db \<Rightarrow> bool" where
  "jobs_ok db \<longleftrightarrow> (\<forall>j \<in> set (jobs db). 0 < j_max_pages j \<and> counts_ok db j)"

definition store_ok :: "db \<Rightarrow> bool" where
  "store_ok db \<longleftrightarrow> keys_ok db \<and> idempotency_ok db \<and> refs_ok db \<and> jobs_ok db"

lemma store_ok_empty: "store_ok empty_db"
  by (simp add: store_ok_def keys_ok_def idempotency_ok_def refs_ok_def jobs_ok_def empty_db_def)

lemma store_okD:
  assumes "store_ok db"
  shows "keys_ok db" "idempotency_ok db" "refs_ok db" "jobs_ok db"
  using assms by (simp_all add: store_ok_def)

subsection \<open>Preservation, statement by statement\<close>

text \<open>The columns the constraints look at.\<close>

definition keeps_identity :: "(job \<Rightarrow> job) \<Rightarrow> bool" where
  "keeps_identity f \<longleftrightarrow> (\<forall>j. j_id (f j) = j_id j \<and> j_api_key_id (f j) = j_api_key_id j
     \<and> j_idempotency_key (f j) = j_idempotency_key j \<and> j_max_pages (f j) = j_max_pages j)"

lemma keeps_identityD:
  assumes "keeps_identity f"
  shows "j_id (f j) = j_id j" "j_api_key_id (f j) = j_api_key_id j"
    "j_idempotency_key (f j) = j_idempotency_key j" "j_max_pages (f j) = j_max_pages j"
  using assms by (simp_all add: keeps_identity_def)

lemma map_job_ids_update:
  assumes "keeps_identity f"
  shows "map j_id (jobs (update_job now i f db)) = map j_id (jobs db)"
  using assms by (simp add: update_job_def keeps_identity_def)

lemma keys_ok_update: "keeps_identity f \<Longrightarrow> keys_ok (update_job now i f db) \<longleftrightarrow> keys_ok db"
  by (simp add: keys_ok_def map_job_ids_update frame)

lemma ids_update:
  "keeps_identity f \<Longrightarrow> j_id ` set (jobs (update_job now i f db)) = j_id ` set (jobs db)"
  using map_job_ids_update [of f now i db] by (metis list.set_map)

lemma refs_ok_update: "keeps_identity f \<Longrightarrow> refs_ok (update_job now i f db) \<longleftrightarrow> refs_ok db"
  by (simp add: refs_ok_def ids_update frame)

lemma idempotency_ok_update:
  assumes "keeps_identity f"
  shows "idempotency_ok (update_job now i f db) \<longleftrightarrow> idempotency_ok db"
proof -
  let ?g = "\<lambda>j. if j_id j = i then (f j)\<lparr>j_updated_at := now\<rparr> else j"
  let ?k = "\<lambda>j. (j_api_key_id j, j_idempotency_key j)"
  have "map ?k (filter (\<lambda>j. j_idempotency_key j \<noteq> None) (map ?g js)) =
        map ?k (filter (\<lambda>j. j_idempotency_key j \<noteq> None) js)" for js
    by (induction js) (auto simp: keeps_identityD [OF assms])
  then show ?thesis by (simp add: idempotency_ok_def update_job_def)
qed

lemma in_update_jobE:
  assumes "j' \<in> set (jobs (update_job now i f db))"
  obtains j where "j \<in> set (jobs db)"
    and "j' = (if j_id j = i then (f j)\<lparr>j_updated_at := now\<rparr> else j)"
  using assms by (auto simp: update_job_def)

lemma pages_of_frame [frame]: "pages_of (update_job now i f db) k = pages_of db k"
  by (simp add: pages_of_def frame)

lemma failures_of_frame [frame]: "failures_of (update_job now i f db) k = failures_of db k"
  by (simp add: failures_of_def frame)

lemma counts_ok_frame [frame]: "counts_ok (update_job now i f db) j = counts_ok db j"
  by (simp add: counts_ok_def frame)

lemma counts_ok_stamp [simp]: "counts_ok db (j\<lparr>j_updated_at := now\<rparr>) = counts_ok db j"
  by (simp add: counts_ok_def)

text \<open>An update of job \<open>i\<close> keeps the invariant when the new row still fits its counts.\<close>

lemma store_ok_update:
  assumes ok: "store_ok db" and f: "keeps_identity f"
    and c: "\<And>j. j \<in> set (jobs db) \<Longrightarrow> j_id j = i \<Longrightarrow> counts_ok db j \<Longrightarrow> counts_ok db (f j)"
  shows "store_ok (update_job now i f db)"
proof -
  have "jobs_ok (update_job now i f db)"
    unfolding jobs_ok_def
  proof
    fix j' assume "j' \<in> set (jobs (update_job now i f db))"
    then obtain j where j: "j \<in> set (jobs db)"
      "j' = (if j_id j = i then (f j)\<lparr>j_updated_at := now\<rparr> else j)" by (rule in_update_jobE)
    with ok c f show "0 < j_max_pages j' \<and> counts_ok (update_job now i f db) j'"
      by (auto simp: store_ok_def jobs_ok_def frame keeps_identityD)
  qed
  with ok f show ?thesis
    by (simp add: store_ok_def keys_ok_update refs_ok_update idempotency_ok_update)
qed

lemma store_ok_flush:
  assumes "store_ok db" and rows: "j_result_key j' = None \<or> j_result_key j' = j_result_key j \<longrightarrow> j_rows j' = j_rows j"
    and key: "j_result_key j' = None \<longrightarrow> j_result_key j = None"
  shows "store_ok (flush_job now j j' db)"
proof (cases "j' = j")
  case False
  have "counts_ok db (flush_cols j j' r)" if "counts_ok db r" for r
    using that rows key
    by (auto simp: counts_ok_def flush_cols_sel flushed_def split: if_splits)
  with assms False show ?thesis
    by (auto simp: flush_job_def keeps_identity_def intro!: store_ok_update)
qed (use assms in \<open>simp add: flush_job_def\<close>)

lemma store_ok_flush_own:
  assumes ok: "store_ok db" and j: "get_job db i = Some j"
    and rows: "j_result_key j' = None \<longrightarrow> j_result_key j = None \<and> j_rows j' = j_rows j"
  shows "store_ok (flush_job now j j' db)"
proof (cases "j' = j")
  case False
  have "counts_ok db (flush_cols j j' r)"
    if "r \<in> set (jobs db)" "j_id r = j_id j" "counts_ok db r" for r
  proof -
    have "get_job db i = Some r"
      using that ok get_job_id [OF j] get_job_mem [of r db] by (simp add: store_ok_def keys_ok_def)
    with j have "r = j" by simp
    with that(3) rows show ?thesis by (simp add: counts_ok_def flush_cols_sel)
  qed
  with ok False show ?thesis
    by (auto simp: flush_job_def keeps_identity_def intro!: store_ok_update)
qed (use ok in \<open>simp add: flush_job_def\<close>)

lemma store_ok_transition:
  assumes "store_ok db" and "transition now db j j t e = Inr (j', db')"
  shows "store_ok db'"
  using assms by (auto simp: transition_Inr intro!: store_ok_flush)

lemma store_ok_bump:
  assumes "store_ok db" and "bump_lost_worker now db i = Inr (n, db')"
  shows "store_ok db'"
  using assms by (auto simp: bump_lost_worker_def keeps_identity_def counts_ok_def
      split: option.splits intro!: store_ok_update)

lemma counts_ok_pages:
  "pages_of db' = pages_of db \<Longrightarrow> failures_of db' = failures_of db \<Longrightarrow>
     counts_ok db' j = counts_ok db j"
  by (simp add: counts_ok_def)

lemma store_ok_park:
  assumes ok: "store_ok db" and park: "park_dead_letter now db i r d p = Inr db'"
  shows "store_ok db'"
proof -
  obtain x where db': "db' = db\<lparr>dead_letters := dead_letters db @ [x]\<rparr>" "d_job_id x = i"
    and i: "i \<in> j_id ` set (jobs db)"
    using park get_job_known [of db i] by (force simp: park_dead_letter_def split: if_splits)
  have "counts_ok db' j = counts_ok db j" for j
    by (rule counts_ok_pages) (simp_all add: db' pages_of_def failures_of_def fun_eq_iff)
  with ok db' i show ?thesis
    by (simp add: store_ok_def keys_ok_def idempotency_ok_def refs_ok_def jobs_ok_def)
qed

text \<open>A new page row together with the counter updates of its job.\<close>

lemma page_recorded_iff: "page_recorded db i page \<longleftrightarrow>
    (i, page) \<in> (\<lambda>p. (p_job_id p, p_page p)) ` set (job_pages db)"
  by (auto simp: page_recorded_def)

lemma failure_recorded_iff: "failure_recorded db i page \<longleftrightarrow>
    (i, page) \<in> (\<lambda>f. (f_job_id f, f_page f)) ` set (failed_pages db)"
  by (auto simp: failure_recorded_def)


lemma store_ok_create:
  assumes ok: "store_ok db" and create: "create_job now i n db = Inr (j, db')"
  shows "store_ok db'"
proof -
  have j: "j = new_job now i n" "db' = db\<lparr>jobs := jobs db @ [j]\<rparr>" "0 < j_max_pages j"
    and new: "i \<notin> j_id ` set (jobs db)" and clash: "\<not> idempotency_clash db j"
    using create by (auto simp: create_job_Inr get_job_None)
  have jid: "j_id j = i" by (simp add: j new_job_def)
  have none: "pages_of db i = []" "failures_of db i = []"
    using ok new by (auto simp: store_ok_def refs_ok_def pages_of_def failures_of_def filter_empty_conv)
  have counts: "counts_ok db' k = counts_ok db k" for k
    by (rule counts_ok_pages) (simp_all add: j(2) pages_of_def failures_of_def fun_eq_iff)
  have "counts_ok db j" using none jid by (simp add: counts_ok_def j new_job_def)
  then have "jobs_ok db'" using ok counts j(3) by (simp add: store_ok_def jobs_ok_def j(2))
  moreover have "keys_ok db'" "refs_ok db'"
    using ok new jid by (auto simp: store_ok_def keys_ok_def refs_ok_def j(2))
  moreover have "idempotency_ok db'"
    using ok clash by (auto simp: store_ok_def idempotency_ok_def idempotency_clash_def j(2) image_iff)
  ultimately show ?thesis by (simp add: store_ok_def)
qed

lemma store_ok_record_page:
  assumes ok: "store_ok db" and rec: "record_page now db i page url st n h = Inr (b, db')"
  shows "store_ok db'"
proof (cases b)
  case False
  with rec ok show ?thesis by (simp add: record_page_False)
next
  case True
  let ?f = "\<lambda>j. j\<lparr>j_pages_done := j_pages_done j + 1, j_rows := j_rows j + n\<rparr>"
  obtain p where pd: "p = \<lparr>p_job_id = i, p_page = page, p_url = url, p_state = st, p_rows = n,
    p_content_hash = h, p_attempts = 1, p_fetched_at = Some now\<rparr>" by simp
  then have p: "p_job_id p = i" "p_page p = page" "p_rows p = n" by simp_all
  from rec True have db': "db' = update_job now i ?f (db\<lparr>job_pages := job_pages db @ [p]\<rparr>)"
    and new: "\<not> page_recorded db i page" and known: "i \<in> j_id ` set (jobs db)"
    using get_job_known [of db i] by (simp_all add: record_page_True pd)
  let ?db = "db\<lparr>job_pages := job_pages db @ [p]\<rparr>"
  have keep: "keeps_identity ?f" by (simp add: keeps_identity_def)
  have "keys_ok ?db" "refs_ok ?db" "idempotency_ok ?db"
    using ok new known p
    by (auto simp: store_ok_def keys_ok_def refs_ok_def idempotency_ok_def page_recorded_iff)
  moreover have "jobs_ok db'"
    unfolding jobs_ok_def
  proof
    fix j' assume "j' \<in> set (jobs db')"
    then obtain j where j: "j \<in> set (jobs db)"
      "j' = (if j_id j = i then (?f j)\<lparr>j_updated_at := now\<rparr> else j)"
      by (auto simp: db' elim: in_update_jobE)
    with ok have "0 < j_max_pages j \<and> counts_ok db j" by (simp add: store_ok_def jobs_ok_def)
    with j p show "0 < j_max_pages j' \<and> counts_ok db' j'"
      by (simp add: db' frame) (auto simp: counts_ok_def pages_of_def failures_of_def)
  qed
  ultimately show ?thesis using keep
    by (simp add: store_ok_def db' keys_ok_update refs_ok_update idempotency_ok_update)
qed

lemma store_ok_record_failed_page:
  assumes ok: "store_ok db" and rec: "record_failed_page now db i page url n ty e tb = Inr db'"
  shows "store_ok db'"
proof -
  let ?f = "\<lambda>j. j\<lparr>j_pages_failed := j_pages_failed j + 1\<rparr>"
  obtain fs where db': "db' = update_job now i ?f (db\<lparr>failed_pages := fs\<rparr>)"
    and fs: "map (\<lambda>f. (f_job_id f, f_page f)) fs =
        map (\<lambda>f. (f_job_id f, f_page f)) (failed_pages db)
          @ (if failure_recorded db i page then [] else [(i, page)])"
    and known: "i \<in> j_id ` set (jobs db)"
    using rec get_job_known [of db i]
    by (auto simp: record_failed_page_def Let_def split: if_splits)
  let ?db = "db\<lparr>failed_pages := fs\<rparr>"
  have keep: "keeps_identity ?f" by (simp add: keeps_identity_def)
  have ids: "map f_job_id fs = map f_job_id (failed_pages db)
      @ (if failure_recorded db i page then [] else [i])"
    using arg_cong [OF fs, of "map fst"] by (simp add: comp_def split: if_splits)
  have len: "length (filter (\<lambda>f. f_job_id f = k) xs) = length (filter (\<lambda>i. i = k) (map f_job_id xs))"
    for k and xs :: "failed_page list" by (simp add: filter_map comp_def)
  have set: "f_job_id ` set fs \<subseteq> insert i (f_job_id ` set (failed_pages db))"
    using arg_cong [OF ids, of set] by (auto split: if_splits)
  have "keys_ok ?db"
    using ok fs by (auto simp: store_ok_def keys_ok_def failure_recorded_iff)
  moreover have "f_job_id ` set fs \<subseteq> j_id ` set (jobs db)"
    using set known store_okD(3) [OF ok] unfolding refs_ok_def by blast
  then have "refs_ok ?db" using store_okD(3) [OF ok] by (simp add: refs_ok_def)
  moreover have "idempotency_ok ?db"
    using store_okD(2) [OF ok] by (simp add: idempotency_ok_def)
  moreover have "jobs_ok db'"
    unfolding jobs_ok_def
  proof
    fix j' assume "j' \<in> set (jobs db')"
    then obtain j where j: "j \<in> set (jobs db)"
      "j' = (if j_id j = i then (?f j)\<lparr>j_updated_at := now\<rparr> else j)"
      by (auto simp: db' elim: in_update_jobE)
    with ok have "0 < j_max_pages j \<and> counts_ok db j" by (simp add: store_ok_def jobs_ok_def)
    with j show "0 < j_max_pages j' \<and> counts_ok db' j'"
      by (simp add: db' frame)
         (simp add: counts_ok_def pages_of_def failures_of_def len ids split: if_splits)
  qed
  ultimately show ?thesis using keep
    by (simp add: store_ok_def db' keys_ok_update refs_ok_update idempotency_ok_update)
qed

lemmas store_ok_ops = store_ok_create store_ok_transition store_ok_record_page
  store_ok_record_failed_page store_ok_bump store_ok_park

definition sample_fields :: job_fields where
  "sample_fields =
     \<lparr>n_state = PENDING, n_target = ''grants'', n_fetcher = ''http'',
      n_start_url = ''https://simpler.grants.gov/search'', n_max_pages = 3,
      n_output_format = ''csv'', n_incremental = False, n_params = [], n_api_key_id = ''k1'',
      n_idempotency_key = Some ''key-1'', n_callback_url = None\<rparr>"

definition sample_db :: db where
  "sample_db = empty_db\<lparr>jobs := [new_job 0 ''j1'' sample_fields]\<rparr>"

lemma sample_job [simp]: "get_job sample_db ''j1'' = Some (new_job 0 ''j1'' sample_fields)"
  by (simp add: sample_db_def get_job_def new_job_def)

lemma sample_store_ok: "store_ok sample_db"
  by (simp add: store_ok_def keys_ok_def idempotency_ok_def refs_ok_def jobs_ok_def counts_ok_def
      pages_of_def failures_of_def sample_db_def empty_db_def new_job_def sample_fields_def)

text \<open>
  C6. transition applies exactly when the table allows it: then the row gets the new state, its
  start and finish stamps and its error cut to 4000 characters, and no other job changes;
  otherwise it raises IllegalTransition and nothing is written.
\<close>

theorem transition_row:
  assumes "get_job db i = Some j"
  shows "if can_transition (j_state j) t
    then \<exists>j' db' r. transition now db j j t err = Inr (j', db') \<and> get_job db' i = Some r
        \<and> j_state r = t
        \<and> j_started_at r = (if t = RUNNING \<and> j_started_at j = None then Some now else j_started_at j)
        \<and> j_finished_at r = (if terminal t then Some now else j_finished_at j)
        \<and> j_error r = (case err of None \<Rightarrow> j_error j | Some e \<Rightarrow> Some (take 4000 e))
        \<and> (\<forall>k. k \<noteq> i \<longrightarrow> get_job db' k = get_job db k)
    else transition now db j j t err = Inl (IllegalTransition (j_state j) t)"
proof (cases "can_transition (j_state j) t")
  case True
  let ?j' = "transition_cols now t err j"
  have "transition now db j j t err = Inr (?j', flush_job now j ?j' db)"
    using True by (simp add: transition_Inr)
  moreover have "get_job (flush_job now j ?j' db) k = get_job db k" if "k \<noteq> i" for k
    using that get_job_id [OF assms] by (simp add: get_job_flush)
  moreover have "\<exists>r. get_job (flush_job now j ?j' db) i = Some r \<and> j_state r = t
        \<and> j_started_at r = j_started_at ?j' \<and> j_finished_at r = j_finished_at ?j'
        \<and> j_error r = j_error ?j'"
    using flush_own_state [OF assms, of ?j' now] get_job_id [OF assms] by auto
  ultimately show ?thesis using True by (auto simp: transition_cols_def)
qed (simp add: transition_Inl)

theorem transition_row_witness:
  "\<exists>j' db' r. transition 7 sample_db (new_job 0 ''j1'' sample_fields) (new_job 0 ''j1'' sample_fields)
        RUNNING None = Inr (j', db') \<and> get_job db' ''j1'' = Some r \<and> j_state r = RUNNING"
  using transition_row [OF sample_job, of RUNNING 7 None]
  by (auto simp: new_job_def sample_fields_def)

text \<open>
  C8. Recording a page adds one to pages_done and its rows to the job once: a second record of
  the same page, whatever it carries, returns False and leaves the database as it is.
\<close>

theorem record_page_once:
  assumes rec: "record_page now db i page url PagePARSED n h = Inr (True, db')"
    and j: "get_job db i = Some j"
  shows "record_page now' db' i page url' st' n' h' = Inr (False, db')
    \<and> completed_pages db' i = insert page (completed_pages db i)
    \<and> map_option (\<lambda>r. (j_pages_done r, j_rows r, j_state r)) (get_job db' i)
        = Some (j_pages_done j + 1, j_rows j + n, j_state j)"
proof -
  have new: "\<not> page_recorded db i page" using rec by (auto simp: record_page_def split: if_splits)
  have "page_recorded db' i page" using rec record_page_recorded by blast
  moreover have "get_job db' i \<noteq> None" using rec j
    by (auto simp: record_page_def get_job_update split: if_splits)
  ultimately have again: "record_page now' db' i page url' st' n' h' = Inr (False, db')"
    by (simp add: record_page_again)
  have "map_option (\<lambda>r. (j_pages_done r, j_rows r, j_state r)) (get_job db' i)
        = Some (j_pages_done j + 1, j_rows j + n, j_state j)"
    using rec j by (auto simp: record_page_def get_job_update split: if_splits)
  with again show ?thesis using record_page_completed [OF rec] by simp
qed

lemma sample_record:
  "record_page 5 sample_db ''j1'' 2 ''u'' PagePARSED 4 None = Inr (True,
     update_job 5 ''j1'' (\<lambda>j. j\<lparr>j_pages_done := j_pages_done j + 1, j_rows := j_rows j + 4\<rparr>)
       (sample_db\<lparr>job_pages := [\<lparr>p_job_id = ''j1'', p_page = 2, p_url = ''u'', p_state = PagePARSED,
          p_rows = 4, p_content_hash = None, p_attempts = 1, p_fetched_at = Some 5\<rparr>]\<rparr>))"
  by (simp add: record_page_True page_recorded_def) (simp add: sample_db_def empty_db_def)

theorem record_page_once_witness:
  "\<exists>db'. record_page 5 sample_db ''j1'' 2 ''u'' PagePARSED 4 None = Inr (True, db')
    \<and> record_page 6 db' ''j1'' 2 ''v'' PagePARSED 9 None = Inr (False, db')
    \<and> completed_pages db' ''j1'' = {2}"
proof -
  have "completed_pages sample_db ''j1'' = {}" by (simp add: completed_pages_def sample_db_def empty_db_def)
  moreover obtain db' where
    db': "record_page 5 sample_db ''j1'' 2 ''u'' PagePARSED 4 None = Inr (True, db')"
    using sample_record by blast
  note record_page_once [OF db' sample_job, of 6 "''v''" PagePARSED 9 None]
  ultimately show ?thesis using db' by simp
qed

text \<open>
  A page whose failure is recorded twice has one failure row with the new attempt count and
  error but the old type, and adds two to pages_failed.
\<close>

theorem failed_page_counted_again:
  assumes one: "record_failed_page now db i page url n ty e tb = Inr db1"
    and two: "record_failed_page now' db1 i page url' n' ty' e' tb' = Inr db2"
    and j: "get_job db i = Some j" and new: "\<not> failure_recorded db i page"
  shows "map_option j_pages_failed (get_job db2 i) = Some (j_pages_failed j + 2)
    \<and> length (failures_of db2 i) = length (failures_of db i) + 1
    \<and> (\<forall>f \<in> set (failures_of db2 i). f_page f = page \<longrightarrow>
         f_attempts f = n' \<and> f_error f = take 4000 e' \<and> f_error_type f = take 64 ty \<and> f_url f = url)"
proof -
  let ?f = "\<lparr>f_job_id = i, f_page = page, f_url = url, f_attempts = n, f_error_type = take 64 ty,
    f_error = take 4000 e, f_traceback = tb, f_last_attempt_at = now\<rparr>"
  let ?bump = "\<lambda>j. j\<lparr>j_pages_failed := j_pages_failed j + 1\<rparr>"
  let ?g = "\<lambda>f. if f_job_id f = i \<and> f_page f = page
    then f\<lparr>f_attempts := n', f_error := take 4000 e', f_last_attempt_at := now'\<rparr> else f"
  have db1: "db1 = update_job now i ?bump (db\<lparr>failed_pages := failed_pages db @ [?f]\<rparr>)"
    using one new j by (simp add: record_failed_page_def)
  have rec1: "failure_recorded db1 i page" by (simp add: db1 failure_recorded_def frame)
  have j1: "get_job db1 i \<noteq> None" using j by (simp add: db1 get_job_update)
  have db2: "db2 = update_job now' i ?bump (db1\<lparr>failed_pages := map ?g (failed_pages db1)\<rparr>)"
    using two rec1 j1 by (auto simp: record_failed_page_def)
  have rows: "failed_pages db2 = map ?g (failed_pages db @ [?f])" by (simp add: db2 db1 frame)
  have old: "map ?g (failed_pages db) = failed_pages db"
    using new by (intro map_idI) (auto simp: failure_recorded_def)
  have fs: "failures_of db2 i = failures_of db i @ [?g ?f]"
    unfolding failures_of_def rows by (simp add: old del: map_map)
  have "f_page f \<noteq> page" if "f \<in> set (failures_of db i)" for f
    using new that by (auto simp: failures_of_def failure_recorded_def)
  moreover have "map_option j_pages_failed (get_job db2 i) = Some (j_pages_failed j + 2)"
    using j by (simp add: db2 db1 get_job_update)
  ultimately show ?thesis by (auto simp: fs)
qed

theorem failed_page_counted_again_witness:
  "\<exists>db1 db2. record_failed_page 1 sample_db ''j1'' 2 ''u'' 1 ''PermanentFetchError'' ''404'' None = Inr db1
    \<and> record_failed_page 2 db1 ''j1'' 2 ''u'' 2 ''TransientFetchError'' ''503'' None = Inr db2
    \<and> map_option j_pages_failed (get_job db2 ''j1'') = Some 2 \<and> length (failures_of db2 ''j1'') = 1"
proof -
  obtain db1 where 1: "record_failed_page 1 sample_db ''j1'' 2 ''u'' 1 ''PermanentFetchError'' ''404'' None = Inr db1"
    by (simp add: record_failed_page_def Let_def)
  then have "get_job db1 ''j1'' \<noteq> None"
    by (auto simp: record_failed_page_def Let_def get_job_update split: if_splits)
  then obtain db2 where 2: "record_failed_page 2 db1 ''j1'' 2 ''u'' 2 ''TransientFetchError'' ''503'' None = Inr db2"
    by (simp add: record_failed_page_def Let_def)
  have "\<not> failure_recorded sample_db ''j1'' 2" "failures_of sample_db ''j1'' = []"
    "j_pages_failed (new_job 0 ''j1'' sample_fields) = 0"
    by (simp_all add: failure_recorded_def failures_of_def sample_db_def empty_db_def new_job_def)
  with failed_page_counted_again [OF 1 2 sample_job] 1 2 show ?thesis by auto
qed

text \<open>
  An assembly that loaded the job before it was cancelled still writes its final state over
  CANCELLED: the check is made against the loaded row, not the stored one.
\<close>

theorem cancel_overwritten:
  assumes j: "get_job db i = Some j" "j_state j = RUNNING" and ran: "final \<in> {SUCCEEDED, PARTIAL, SUSPECT}"
  shows "\<exists>jc db1 jf db2 r. transition now db j j CANCELLED (Some ''cancelled by caller'') = Inr (jc, db1)
    \<and> transition later db1 j j final err = Inr (jf, db2)
    \<and> get_job db2 i = Some r \<and> j_state r = final"
proof -
  let ?jc = "transition_cols now CANCELLED (Some ''cancelled by caller'') j"
  let ?jf = "transition_cols later final err j"
  have id: "j_id j = i" using get_job_id [OF j(1)] .
  have neq: "transition_cols t s e j \<noteq> j" if "s \<noteq> RUNNING" for t s e
  proof
    assume "transition_cols t s e j = j" then have "j_state (transition_cols t s e j) = j_state j" by simp
    then show False using j(2) that by simp
  qed
  have "can_transition RUNNING CANCELLED" "can_transition RUNNING final" "final \<noteq> RUNNING" using ran by auto
  moreover from this have "\<exists>r. get_job (flush_job later j ?jf (flush_job now j ?jc db)) i = Some r \<and> j_state r = final"
    using j neq [of CANCELLED] neq [of final] by (simp add: get_job_flush id flush_cols_sel flushed_def)
  ultimately show ?thesis using j(2) by (simp add: transition_Inr)
qed

text \<open>The job of \<open>sample_db\<close>, running, with some of its pages stored.\<close>

definition running_job :: job where
  "running_job = (new_job 0 ''j1'' sample_fields)\<lparr>j_state := RUNNING, j_attempts := 1, j_started_at := Some 1\<rparr>"

definition stored_page :: "int \<Rightarrow> job_page" where
  "stored_page page = \<lparr>p_job_id = ''j1'', p_page = page, p_url = ''u'', p_state = PagePARSED, p_rows = 2,
     p_content_hash = None, p_attempts = 1, p_fetched_at = Some 2\<rparr>"

definition running_db :: "int list \<Rightarrow> db" where
  "running_db pages = empty_db\<lparr>jobs := [running_job], job_pages := map stored_page pages\<rparr>"

lemma running_job_sel [simp]:
  "j_id running_job = ''j1''" "j_state running_job = RUNNING" "j_target running_job = ''grants''"
  "j_max_pages running_job = 3" "j_output_format running_job = ''csv''" "j_incremental running_job = False"
  "j_callback_url running_job = None" "j_pages_failed running_job = 0" "j_lost_worker_count running_job = 0"
  "j_api_key_id running_job = ''k1''" "j_celery_task_id running_job = None"
  by (simp_all add: running_job_def new_job_def sample_fields_def)

lemma running_db_sel [simp]:
  "get_job (running_db pages) ''j1'' = Some running_job"
  "job_pages (running_db pages) = map stored_page pages"
  "completed_pages (running_db pages) ''j1'' = set pages"
  by (auto simp: running_db_def get_job_def completed_pages_def stored_page_def)

theorem cancel_overwritten_witness:
  "\<exists>jc db1 jf db2 r. transition 7 (running_db []) running_job running_job CANCELLED (Some ''cancelled by caller'')
      = Inr (jc, db1)
    \<and> transition 8 db1 running_job running_job SUCCEEDED None = Inr (jf, db2)
    \<and> get_job db2 ''j1'' = Some r \<and> j_state r = SUCCEEDED"
  by (rule cancel_overwritten [OF running_db_sel(1)]) simp_all

end
