(* ===== verification/Url.thy ===== *)
theory Url
  imports States Json
begin

text \<open>
  The string operations and the part of \<^verbatim>\<open>urllib.parse\<close> the program uses: splitting a
  URL, its host and port, query strings and their encoding.  The address inside a bracketed
  IPv6 host is not validated, and percent escapes are decoded to the bytes they name (Python
  replaces byte sequences that are not UTF-8).
\<close>

subsection \<open>Characters and substrings\<close>

definition ord :: "char \<Rightarrow> nat" where
  "ord c = of_char c"

definition is_lower :: "char \<Rightarrow> bool" where "is_lower c \<longleftrightarrow> 97 \<le> ord c \<and> ord c \<le> 122"
definition is_upper :: "char \<Rightarrow> bool" where "is_upper c \<longleftrightarrow> 65 \<le> ord c \<and> ord c \<le> 90"
definition is_digit :: "char \<Rightarrow> bool" where "is_digit c \<longleftrightarrow> 48 \<le> ord c \<and> ord c \<le> 57"
definition is_alpha :: "char \<Rightarrow> bool" where "is_alpha c \<longleftrightarrow> is_lower c \<or> is_upper c"
definition is_alnum :: "char \<Rightarrow> bool" where "is_alnum c \<longleftrightarrow> is_alpha c \<or> is_digit c"

definition is_space :: "char \<Rightarrow> bool" where
  "is_space c \<longleftrightarrow> (9 \<le> ord c \<and> ord c \<le> 13) \<or> (28 \<le> ord c \<and> ord c \<le> 32)"

definition lower_char :: "char \<Rightarrow> char" where
  "lower_char c = (if is_upper c then char_of (ord c + 32) else c)"

definition lower :: "string \<Rightarrow> string" where "lower s = map lower_char s"

definition str_isdigit :: "string \<Rightarrow> bool" where
  "str_isdigit s \<longleftrightarrow> s \<noteq> [] \<and> list_all is_digit s"

definition str_isalnum :: "string \<Rightarrow> bool" where
  "str_isalnum s \<longleftrightarrow> s \<noteq> [] \<and> list_all is_alnum s"

definition strip :: "string \<Rightarrow> string" where
  "strip s = rev (dropWhile is_space (rev (dropWhile is_space s)))"

definition before :: "char \<Rightarrow> string \<Rightarrow> string" where
  "before c s = takeWhile (\<lambda>x. x \<noteq> c) s"

definition after :: "char \<Rightarrow> string \<Rightarrow> string" where
  "after c s = tl (dropWhile (\<lambda>x. x \<noteq> c) s)"

text \<open>\<open>s.partition(c)\<close>, with the middle component as a flag, and \<open>s.rpartition(c)\<close>.\<close>

definition partition_at :: "char \<Rightarrow> string \<Rightarrow> string \<times> bool \<times> string" where
  "partition_at c s = (before c s, c \<in> set s, after c s)"

definition rpartition_at :: "char \<Rightarrow> string \<Rightarrow> string \<times> bool \<times> string" where
  "rpartition_at c s =
     (if c \<in> set s then (rev (after c (rev s)), True, rev (before c (rev s)))
      else ([], False, s))"

fun split_on :: "char \<Rightarrow> string \<Rightarrow> string list" where
  "split_on c [] = [[]]"
| "split_on c (x # xs) =
     (if x = c then [] # split_on c xs
      else (case split_on c xs of [] \<Rightarrow> [[x]] | y # ys \<Rightarrow> (x # y) # ys))"

definition starts_with :: "string \<Rightarrow> string \<Rightarrow> bool" where
  "starts_with p s \<longleftrightarrow> take (length p) s = p"

definition ends_with :: "string \<Rightarrow> string \<Rightarrow> bool" where
  "ends_with p s \<longleftrightarrow> length p \<le> length s \<and> drop (length s - length p) s = p"

definition contains :: "string \<Rightarrow> string \<Rightarrow> bool" where
  "contains p s \<longleftrightarrow> sublist p s"

subsection \<open>Splitting a URL\<close>

record parsed_url =
  u_scheme :: string
  u_netloc :: string
  u_path :: string
  u_params :: string
  u_query :: string
  u_fragment :: string

definition is_scheme_char :: "char \<Rightarrow> bool" where
  "is_scheme_char c \<longleftrightarrow> is_alnum c \<or> c \<in> set ''+-.''"

definition clean_url :: "string \<Rightarrow> string" where
  "clean_url url = filter (\<lambda>c. ord c \<notin> {9, 10, 13}) (dropWhile (\<lambda>c. ord c \<le> 32) url)"

definition split_scheme :: "string \<Rightarrow> string \<times> string" where
  "split_scheme url =
     (let s = before (CHR '':'') url in
      if CHR '':'' \<in> set url \<and> s \<noteq> [] \<and> is_alpha (hd s) \<and> list_all is_scheme_char s
      then (lower s, after (CHR '':'') url) else ([], url))"

definition netloc_char :: "char \<Rightarrow> bool" where
  "netloc_char c \<longleftrightarrow> c \<notin> set ''/?#''"

definition split_netloc :: "string \<Rightarrow> string \<times> string" where
  "split_netloc url =
     (if take 2 url = ''//'' then (takeWhile netloc_char (drop 2 url), dropWhile netloc_char (drop 2 url))
      else ([], url))"

definition uses_params :: "string list" where
  "uses_params = ['''', ''ftp'', ''hdl'', ''prospero'', ''http'', ''imap'', ''https'', ''shttp'',
     ''rtsp'', ''rtsps'', ''rtspu'', ''sip'', ''sips'', ''mms'', ''sftp'', ''tel'']"

definition uses_netloc :: "string list" where
  "uses_netloc = ['''', ''ftp'', ''http'', ''gopher'', ''nntp'', ''telnet'', ''imap'', ''wais'',
     ''file'', ''mms'', ''https'', ''shttp'', ''snews'', ''prospero'', ''rtsp'', ''rtsps'',
     ''rtspu'', ''rsync'', ''svn'', ''svn+ssh'', ''sftp'', ''nfs'', ''git'', ''git+ssh'', ''ws'',
     ''wss'']"

definition split_params :: "string \<Rightarrow> string \<times> string" where
  "split_params url =
     (let seg = rev (before (CHR ''/'') (rev url));
          pre = take (length url - length seg) url
      in if CHR '';'' \<in> set seg then (pre @ before (CHR '';'') seg, after (CHR '';'') seg)
         else (url, []))"

definition split_path :: "string \<Rightarrow> string \<Rightarrow> string \<times> string" where
  "split_path scheme path =
     (if scheme \<in> set uses_params \<and> CHR '';'' \<in> set path then split_params path else (path, []))"

definition urlparse :: "string \<Rightarrow> exn + parsed_url" where
  "urlparse url0 =
     (let (scheme, rest) = split_scheme (clean_url url0);
          (netloc, rest2) = split_netloc rest;
          fragment = after (CHR ''#'') rest2;
          rest3 = before (CHR ''#'') rest2;
          query = after (CHR ''?'') rest3;
          path0 = before (CHR ''?'') rest3;
          (path, params) = split_path scheme path0
      in if (CHR ''['' \<in> set netloc) \<noteq> (CHR '']'' \<in> set netloc)
         then Inl (ValueError ''Invalid IPv6 URL'')
         else Inr \<lparr>u_scheme = scheme, u_netloc = netloc, u_path = path, u_params = params,
                   u_query = query, u_fragment = fragment\<rparr>)"

definition with_params :: "string \<Rightarrow> string \<Rightarrow> string" where
  "with_params p m = (if m = [] then p else p @ '';'' @ m)"

definition urlunparse :: "parsed_url \<Rightarrow> string" where
  "urlunparse u =
     (let url0 = with_params (u_path u) (u_params u);
          url1 = (if u_netloc u \<noteq> [] \<or> (u_scheme u \<noteq> [] \<and> u_scheme u \<in> set uses_netloc)
                       \<or> take 2 url0 = ''//''
                  then ''//'' @ u_netloc u
                         @ (if url0 \<noteq> [] \<and> take 1 url0 \<noteq> ''/'' then ''/'' @ url0 else url0)
                  else url0);
          url2 = (if u_scheme u = [] then url1 else u_scheme u @ '':'' @ url1);
          url3 = (if u_query u = [] then url2 else url2 @ ''?'' @ u_query u)
      in if u_fragment u = [] then url3 else url3 @ ''#'' @ u_fragment u)"

definition hostinfo :: "parsed_url \<Rightarrow> string \<times> string" where
  "hostinfo u =
     (let info = snd (snd (rpartition_at (CHR ''@'') (u_netloc u))) in
      if CHR ''['' \<in> set info then
        (let b = after (CHR ''['') info
         in (before (CHR '']'') b, after (CHR '':'') (after (CHR '']'') b)))
      else (before (CHR '':'') info, after (CHR '':'') info))"

text \<open>\<open>hostname\<close> is \<open>None\<close> when empty; a zone after \<open>%\<close> keeps its case.\<close>

definition hostname :: "parsed_url \<Rightarrow> string option" where
  "hostname u =
     (let h = fst (hostinfo u); p = partition_at (CHR ''%'') h in
      if h = [] then None
      else Some (lower (fst p) @ (if fst (snd p) then ''%'' else []) @ snd (snd p)))"

definition port :: "parsed_url \<Rightarrow> exn + int option" where
  "port u =
     (let p = snd (hostinfo u) in
      if p = [] then Inr None
      else if \<not> str_isdigit p
      then Inl (ValueError (''Port could not be cast to integer value as '' @ repr_string p))
      else if 65535 < undec p then Inl (ValueError ''Port out of range 0-65535'')
      else Inr (Some (int (undec p))))"

subsection \<open>Query strings\<close>

definition always_safe :: "char \<Rightarrow> bool" where
  "always_safe c \<longleftrightarrow> is_alnum c \<or> c \<in> set ''_.-~''"

definition hexdigit_up :: "nat \<Rightarrow> char" where
  "hexdigit_up d = (if d < 10 then char_of (48 + d) else char_of (55 + d))"

definition quote_plus_char :: "char \<Rightarrow> string" where
  "quote_plus_char c =
     (if always_safe c then [c]
      else if c = CHR '' '' then ''+''
      else [CHR ''%'', hexdigit_up (ord c div 16), hexdigit_up (ord c mod 16)])"

definition quote_plus :: "string \<Rightarrow> string" where
  "quote_plus s = concat (map quote_plus_char s)"

definition hexval :: "char \<Rightarrow> nat option" where
  "hexval c =
     (if is_digit c then Some (ord c - 48)
      else if 65 \<le> ord c \<and> ord c \<le> 70 then Some (ord c - 55)
      else if 97 \<le> ord c \<and> ord c \<le> 102 then Some (ord c - 87) else None)"

fun unquote :: "string \<Rightarrow> string" where
  "unquote [] = []"
| "unquote (c # s) =
     (if c = CHR ''%'' then
        (case s of
           a # b # t \<Rightarrow>
             (case (hexval a, hexval b) of
                (Some x, Some y) \<Rightarrow> char_of (16 * x + y) # unquote t
              | _ \<Rightarrow> c # unquote s)
         | _ \<Rightarrow> c # unquote s)
      else c # unquote s)"

definition unquote_plus :: "string \<Rightarrow> string" where
  "unquote_plus s = unquote (map (\<lambda>c. if c = CHR ''+'' then CHR '' '' else c) s)"

text \<open>\<open>parse_qsl(qs, keep_blank_values=True)\<close> and \<open>urlencode\<close> of a dictionary of strings.\<close>

definition parse_qsl :: "string \<Rightarrow> (string \<times> string) list" where
  "parse_qsl qs =
     map (\<lambda>nv. (unquote_plus (before (CHR ''='') nv), unquote_plus (after (CHR ''='') nv)))
       (filter (\<lambda>nv. nv \<noteq> []) (split_on (CHR ''&'') qs))"

definition urlencode :: "(string \<times> string) list \<Rightarrow> string" where
  "urlencode q = join ''&'' (map (\<lambda>(k, v). quote_plus k @ ''='' @ quote_plus v) q)"

subsection \<open>Delimiters\<close>

lemma before_append [simp]: "c \<notin> set s \<Longrightarrow> before c (s @ c # t) = s"
  by (induction s) (auto simp: before_def)

lemma after_append [simp]: "c \<notin> set s \<Longrightarrow> after c (s @ c # t) = t"
  by (induction s) (auto simp: after_def)

lemma before_notin [simp]: "c \<notin> set s \<Longrightarrow> before c s = s"
  by (induction s) (auto simp: before_def)

lemma after_notin [simp]: "c \<notin> set s \<Longrightarrow> after c s = []"
  by (induction s) (auto simp: after_def)

lemma before_after: "c \<in> set s \<Longrightarrow> s = before c s @ c # after c s"
  unfolding before_def after_def
  by (induction s) auto

lemma delim_notin_before [simp]: "c \<notin> set (before c s)"
  unfolding before_def using set_takeWhileD by force

lemma set_before: "set (before c s) \<subseteq> set s"
  unfolding before_def using set_takeWhileD by force

lemma set_after: "set (after c s) \<subseteq> set s"
  by (induction s) (auto simp: after_def)

lemma before_skip: "c \<notin> set s \<Longrightarrow> before c (s @ t) = s @ before c t"
  by (induction s) (auto simp: before_def)

lemma after_skip: "c \<notin> set s \<Longrightarrow> after c (s @ t) = after c t"
  by (induction s) (auto simp: after_def)

lemma split_on_notin: "c \<notin> set s \<Longrightarrow> split_on c s = [s]"
  by (induction s) auto

lemma split_on_append: "c \<notin> set s \<Longrightarrow> split_on c (s @ c # t) = s # split_on c t"
  by (induction s) auto

lemma split_on_join:
  assumes "\<forall>x \<in> set xs. c \<notin> set x" and "xs \<noteq> []"
  shows "split_on c (join [c] xs) = xs"
  using assms
proof (induction xs)
  case (Cons x xs)
  then show ?case by (cases xs) (simp_all add: split_on_notin split_on_append)
qed simp

subsection \<open>Encoding and decoding a query\<close>

lemma ord_less: "ord c < 256"
  using nat_of_char_less_256 [of c] by (simp add: ord_def)

lemma char_of_ord [simp]: "char_of (ord c) = c"
  by (simp add: ord_def)

lemma ord_hexdigit_up: "d < 16 \<Longrightarrow> ord (hexdigit_up d) = (if d < 10 then 48 + d else 55 + d)"
  by (simp add: hexdigit_up_def ord_def)

lemma hexval_hexdigit_up: "d < 16 \<Longrightarrow> hexval (hexdigit_up d) = Some d"
  by (simp add: hexval_def ord_hexdigit_up is_digit_def)

lemma hexdigit_up_alnum: "d < 16 \<Longrightarrow> is_alnum (hexdigit_up d)"
  by (simp add: is_alnum_def is_alpha_def is_lower_def is_upper_def is_digit_def ord_hexdigit_up)

lemma special_not_alnum [simp]:
  "\<not> is_alnum (CHR ''%'')" "\<not> is_alnum (CHR ''+'')" "\<not> is_alnum (CHR ''&'')"
  "\<not> is_alnum (CHR ''='')" "\<not> is_alnum (CHR ''#'')" "\<not> is_alnum (CHR ''?'')"
  by (simp_all add: is_alnum_def is_alpha_def is_lower_def is_upper_def is_digit_def ord_def)

lemma always_safe_special: "always_safe c \<Longrightarrow> c \<notin> set ''%+&=#? ''"
  by (auto simp: always_safe_def is_alnum_def is_alpha_def is_lower_def is_upper_def
      is_digit_def ord_def)

lemma quote_plus_chars:
  assumes "c \<in> set (quote_plus s)"
  shows "always_safe c \<or> c = CHR ''+'' \<or> c = CHR ''%''"
proof -
  have h: "always_safe (hexdigit_up (ord x div 16))" "always_safe (hexdigit_up (ord x mod 16))" for x
    using ord_less [of x] hexdigit_up_alnum [of "ord x div 16"] hexdigit_up_alnum [of "ord x mod 16"]
    by (simp_all add: always_safe_def)
  from assms show ?thesis
    by (auto simp: quote_plus_def quote_plus_char_def h split: if_splits)
qed

lemma quote_plus_special: "c \<in> set ''&=#? '' \<Longrightarrow> c \<notin> set (quote_plus s)"
  using quote_plus_chars [of c s] always_safe_special [of c] by auto

lemma hexdigit_up_special: "d < 16 \<Longrightarrow> hexdigit_up d \<noteq> CHR ''+''"
  using hexdigit_up_alnum [of d] by force

lemma nibbles: "ord x div 16 < 16" "ord x mod 16 < 16"
  using ord_less [of x] by simp_all

lemma unquote_quote_char:
  "unquote (map (\<lambda>c. if c = CHR ''+'' then CHR '' '' else c) (quote_plus_char x) @ t) = x # unquote t"
proof (cases "always_safe x")
  case True
  with always_safe_special [OF True] show ?thesis by (simp add: quote_plus_char_def)
next
  case False
  then show ?thesis
    using nibbles [of x]
    by (simp add: quote_plus_char_def hexval_hexdigit_up hexdigit_up_special)
qed

theorem unquote_quote_plus: "unquote_plus (quote_plus s) = s"
proof (induction s)
  case Nil
  then show ?case by (simp add: unquote_plus_def quote_plus_def)
next
  case (Cons x s)
  have "unquote_plus (quote_plus (x # s)) =
      unquote (map (\<lambda>c. if c = CHR ''+'' then CHR '' '' else c) (quote_plus_char x)
        @ map (\<lambda>c. if c = CHR ''+'' then CHR '' '' else c) (quote_plus s))"
    by (simp add: unquote_plus_def quote_plus_def)
  also have "\<dots> = x # unquote_plus (quote_plus s)"
    unfolding unquote_quote_char by (simp add: unquote_plus_def)
  finally show ?case using Cons by simp
qed

lemma urlencode_chars: "c \<in> set ''#?'' \<Longrightarrow> c \<notin> set (urlencode q)"
proof -
  assume c: "c \<in> set ''#?''"
  have "c \<notin> set (join ''&'' xs)" if "\<forall>x \<in> set xs. c \<notin> set x" for xs
    using that c by (auto simp: join_def split: list.splits)
  then show ?thesis
    using c quote_plus_special [of c] by (auto simp: urlencode_def)
qed

lemma parse_qsl_urlencode: "parse_qsl (urlencode q) = q"
proof (cases "q = []")
  case True
  then show ?thesis by (simp add: urlencode_def parse_qsl_def)
next
  case False
  let ?f = "\<lambda>(k, v). quote_plus k @ ''='' @ quote_plus v"
  have "split_on (CHR ''&'') (urlencode q) = map ?f q"
    unfolding urlencode_def
    by (rule split_on_join) (use False quote_plus_special in auto)
  moreover have "filter (\<lambda>nv. nv \<noteq> []) (map ?f q) = map ?f q"
    by (auto simp: filter_id_conv)
  ultimately show ?thesis
    by (auto simp: parse_qsl_def unquote_quote_plus quote_plus_special intro!: map_idI)
qed

lemma urlencode_inj: "urlencode p = urlencode q \<longleftrightarrow> p = q"
  by (metis parse_qsl_urlencode)

lemma urlencode_Nil: "urlencode q = [] \<longleftrightarrow> q = []"
  by (metis parse_qsl_urlencode urlencode_inj urlencode_def join_simps(1) list.map(1))

subsection \<open>Parsing what was printed\<close>

text \<open>A path as \<open>urlparse\<close> sees it: nothing, or rooted; no query, no fragment.\<close>

definition rooted :: "string \<Rightarrow> bool" where
  "rooted p \<longleftrightarrow> p = [] \<or> hd p = CHR ''/''"

lemma last_segment:
  "\<exists>pre. url = pre @ rev (before (CHR ''/'') (rev url)) \<and> (pre = [] \<or> last pre = CHR ''/'')"
proof -
  let ?seg = "takeWhile (\<lambda>x. x \<noteq> CHR ''/'') (rev url)" and ?d = "dropWhile (\<lambda>x. x \<noteq> CHR ''/'') (rev url)"
  have "url = rev ?d @ rev ?seg" by (simp add: rev_append [symmetric] del: rev_append)
  moreover have "rev ?d = [] \<or> last (rev ?d) = CHR ''/''"
    using hd_dropWhile [of "\<lambda>x. x \<noteq> CHR ''/''" "rev url"] by (auto simp: last_rev)
  ultimately show ?thesis unfolding before_def by blast
qed

lemma split_paramsE:
  assumes "split_params url = (p, m)"
  obtains pre seg where "url = pre @ seg" "CHR ''/'' \<notin> set seg" "pre = [] \<or> last pre = CHR ''/''"
    "(p, m) = (if CHR '';'' \<in> set seg then (pre @ before (CHR '';'') seg, after (CHR '';'') seg)
               else (url, []))"
proof -
  let ?seg = "rev (before (CHR ''/'') (rev url))"
  obtain pre where pre: "url = pre @ ?seg" "pre = [] \<or> last pre = CHR ''/''"
    using last_segment by blast
  have "take (length url - length ?seg) url = pre"
    by (subst (2) pre(1), subst pre(1)) simp
  with assms pre that [of pre ?seg] show thesis
    by (simp add: split_params_def Let_def split: if_splits)
qed

lemma split_params_join:
  assumes "CHR ''/'' \<notin> set seg" and "pre = [] \<or> last pre = CHR ''/''"
  shows "split_params (pre @ seg) = (if CHR '';'' \<in> set seg
    then (pre @ before (CHR '';'') seg, after (CHR '';'') seg) else (pre @ seg, []))"
proof -
  have "before (CHR ''/'') (rev (pre @ seg)) = rev seg"
    using assms
    by (cases pre rule: rev_cases) (simp_all add: before_append)
  then show ?thesis by (simp add: split_params_def Let_def)
qed

lemma split_path_again:
  assumes "split_path scheme p0 = (p, m)"
  shows "split_path scheme (with_params p m) = (p, m)"
proof (cases "scheme \<in> set uses_params \<and> CHR '';'' \<in> set p0")
  case False
  with assms show ?thesis by (auto simp: split_path_def with_params_def)
next
  case True
  then have "split_params p0 = (p, m)" using assms by (simp add: split_path_def)
  then obtain pre seg where s: "p0 = pre @ seg" "CHR ''/'' \<notin> set seg"
    "pre = [] \<or> last pre = CHR ''/''"
    and pm: "(p, m) = (if CHR '';'' \<in> set seg
       then (pre @ before (CHR '';'') seg, after (CHR '';'') seg) else (p0, []))"
    by (rule split_paramsE)
  show ?thesis
  proof (cases "m = []")
    case m: True
    have "split_params p = (p, [])"
    proof (cases "CHR '';'' \<in> set seg")
      case True
      have "CHR ''/'' \<notin> set (before (CHR '';'') seg)" using s(2) set_before by fast
      from split_params_join [OF this s(3)] pm True show ?thesis by simp
    next
      case False
      with pm s split_params_join [OF s(2,3)] show ?thesis by simp
    qed
    with m show ?thesis by (simp add: split_path_def with_params_def)
  next
    case m: False
    then have semi: "CHR '';'' \<in> set seg" using pm by (auto split: if_splits)
    have "with_params p m = p0"
      using pm semi m before_after [OF semi] s(1) by (simp add: with_params_def)
    with assms show ?thesis by simp
  qed
qed

lemma split_path_sub:
  assumes "split_path scheme p0 = (p, m)"
  shows "set (with_params p m) \<subseteq> set p0" and "rooted p0 \<Longrightarrow> rooted (with_params p m)"
proof -
  have "\<exists>t. p0 = with_params p m @ t \<and> (with_params p m = [] \<longrightarrow> t = [] \<or> hd t \<noteq> CHR ''/'')"
  proof (cases "scheme \<in> set uses_params \<and> CHR '';'' \<in> set p0")
    case False
    with assms show ?thesis by (auto simp: split_path_def with_params_def)
  next
    case True
    then have "split_params p0 = (p, m)" using assms by (simp add: split_path_def)
    then obtain pre seg where s: "p0 = pre @ seg" "CHR ''/'' \<notin> set seg"
      "pre = [] \<or> last pre = CHR ''/''"
      and pm: "(p, m) = (if CHR '';'' \<in> set seg
         then (pre @ before (CHR '';'') seg, after (CHR '';'') seg) else (p0, []))"
      by (rule split_paramsE)
    show ?thesis
    proof (cases "CHR '';'' \<in> set seg")
      case semi: True
      show ?thesis
        using pm semi before_after [OF semi] s(1)
        by (intro exI [of _ "if m = [] then CHR '';'' # after (CHR '';'') seg else []"])
           (auto simp: with_params_def)
    qed (use pm in \<open>simp add: with_params_def\<close>)
  qed
  then show "set (with_params p m) \<subseteq> set p0" "rooted p0 \<Longrightarrow> rooted (with_params p m)"
    by (auto simp: rooted_def hd_append split: if_splits)
qed

definition clean :: "string \<Rightarrow> bool" where
  "clean s \<longleftrightarrow> list_all (\<lambda>c. ord c \<notin> {9, 10, 13}) s"

lemma clean_simps [simp]:
  "clean []" "clean (c # s) \<longleftrightarrow> ord c \<notin> {9, 10, 13} \<and> clean s" "clean (s @ t) \<longleftrightarrow> clean s \<and> clean t"
  by (simp_all add: clean_def)

lemma clean_sub: "clean t \<Longrightarrow> set s \<subseteq> set t \<Longrightarrow> clean s"
  by (auto simp: clean_def list_all_iff)

lemma clean_concat: "clean (concat ss) \<longleftrightarrow> (\<forall>s \<in> set ss. clean s)"
  by (induction ss) simp_all

lemma clean_url_id: "clean s \<Longrightarrow> s \<noteq> [] \<Longrightarrow> is_alpha (hd s) \<Longrightarrow> clean_url s = s"
  by (cases s) (auto simp: clean_url_def clean_def list_all_iff is_alpha_def is_lower_def is_upper_def
      filter_id_conv)

lemma is_alpha_lower [simp]: "is_alpha (lower_char c) = is_alpha c"
  using ord_less [of c]
  by (auto simp: lower_char_def is_alpha_def is_lower_def is_upper_def ord_def)

lemma lower_char_lower [simp]: "lower_char (lower_char c) = lower_char c"
  using ord_less [of c] by (auto simp: lower_char_def is_upper_def ord_def)

lemma lower_lower [simp]: "lower (lower s) = lower s"
  by (simp add: lower_def)

lemma is_scheme_char_lower: "is_scheme_char c \<Longrightarrow> is_scheme_char (lower_char c)"
  using ord_less [of c]
  by (auto simp: is_scheme_char_def is_alnum_def lower_char_def is_alpha_def is_lower_def
      is_upper_def is_digit_def ord_def)

lemma scheme_char_facts: "is_scheme_char c \<Longrightarrow> ord c \<notin> {9, 10, 13} \<and> c \<noteq> CHR '':''"
  by (auto simp: is_scheme_char_def is_alnum_def is_alpha_def is_lower_def is_upper_def
      is_digit_def ord_def)

lemma scheme_word:
  assumes "list_all is_scheme_char s"
  shows "clean s" "CHR '':'' \<notin> set s"
  using assms scheme_char_facts by (auto simp: clean_def list_all_iff)

text \<open>The parts of a parsed URL that has a scheme and a network location.\<close>

lemma urlparse_parts:
  assumes parse: "urlparse s = Inr u" and scheme: "u_scheme u \<noteq> []" and net: "u_netloc u \<noteq> []"
  obtains p0 where "list_all is_scheme_char (u_scheme u)" "is_alpha (hd (u_scheme u))"
    "lower (u_scheme u) = u_scheme u" "list_all netloc_char (u_netloc u)"
    "(CHR ''['' \<in> set (u_netloc u)) = (CHR '']'' \<in> set (u_netloc u))"
    "split_path (u_scheme u) p0 = (u_path u, u_params u)" "rooted p0"
    "CHR ''#'' \<notin> set p0" "CHR ''?'' \<notin> set p0"
    "clean (u_netloc u)" "clean p0" "clean (u_fragment u)"
proof -
  let ?c = "clean_url s"
  have clean: "clean ?c" by (auto simp: clean_url_def clean_def list_all_iff)
  obtain sch rest where sr: "split_scheme ?c = (sch, rest)" by fastforce
  obtain nl rest2 where nr: "split_netloc rest = (nl, rest2)" by fastforce
  let ?rest3 = "before (CHR ''#'') rest2"
  let ?p0 = "before (CHR ''?'') ?rest3"
  obtain p m where pm: "split_path sch ?p0 = (p, m)" by fastforce
  have brackets: "(CHR ''['' \<in> set nl) = (CHR '']'' \<in> set nl)"
    and u: "u = \<lparr>u_scheme = sch, u_netloc = nl, u_path = p, u_params = m,
      u_query = after (CHR ''?'') ?rest3, u_fragment = after (CHR ''#'') rest2\<rparr>"
    using parse sr nr pm by (auto simp: urlparse_def Let_def split: if_splits)
  let ?s0 = "before (CHR '':'') ?c"
  have sch: "sch = lower ?s0" "?s0 \<noteq> []" "is_alpha (hd ?s0)" "list_all is_scheme_char ?s0"
    and rest: "rest = after (CHR '':'') ?c"
    using sr scheme by (auto simp: u split_scheme_def Let_def split: if_splits)
  have nl: "nl = takeWhile netloc_char (drop 2 rest)" "rest2 = dropWhile netloc_char (drop 2 rest)"
    using nr net by (auto simp: u split_netloc_def split: if_splits)
  have sub: "set rest \<subseteq> set ?c" using rest set_after by simp
  have sub2: "set nl \<subseteq> set ?c" "set rest2 \<subseteq> set ?c"
    using sub unfolding nl by (auto dest!: set_takeWhileD set_dropWhileD in_set_dropD)
  show thesis
  proof (rule that [of ?p0])
    show "list_all is_scheme_char (u_scheme u)" "is_alpha (hd (u_scheme u))"
      "lower (u_scheme u) = u_scheme u"
      using sch is_scheme_char_lower by (auto simp: u lower_def list_all_iff hd_map)
    show "list_all netloc_char (u_netloc u)" by (auto simp: u nl list_all_iff dest: set_takeWhileD)
    show "(CHR ''['' \<in> set (u_netloc u)) = (CHR '']'' \<in> set (u_netloc u))" using brackets by (simp add: u)
    show "split_path (u_scheme u) ?p0 = (u_path u, u_params u)" using pm by (simp add: u)
    have "rest2 = [] \<or> \<not> netloc_char (hd rest2)"
      unfolding nl using hd_dropWhile by blast
    then show "rooted ?p0"
      by (cases rest2) (auto simp: rooted_def netloc_char_def before_def)
    show "CHR ''#'' \<notin> set ?p0" using set_before [of "CHR ''?''" ?rest3] by auto
    show "CHR ''?'' \<notin> set ?p0" by simp
    have "set ?p0 \<subseteq> set rest2" by (rule subset_trans [OF set_before set_before])
    then show "clean ?p0" by (intro clean_sub [OF clean] subset_trans [OF _ sub2(2)])
    show "clean (u_netloc u)" using clean_sub [OF clean] sub2 by (simp add: u)
    have "set (after (CHR ''#'') rest2) \<subseteq> set ?c" by (rule subset_trans [OF set_after sub2(2)])
    then show "clean (u_fragment u)" using clean_sub [OF clean] by (simp add: u)
  qed
qed

lemma split_netloc_join:
  assumes "list_all netloc_char n" and "t = [] \<or> \<not> netloc_char (hd t)"
  shows "split_netloc (''//'' @ n @ t) = (n, t)"
proof -
  have "takeWhile netloc_char (n @ t) = n" "dropWhile netloc_char (n @ t) = t"
    using assms by (induction n; cases t; simp)+
  then show ?thesis by (simp add: split_netloc_def)
qed

text \<open>With another query printed in, the URL parses back to the same parts.\<close>

lemma urlparse_urlunparse:
  assumes parse: "urlparse s = Inr u" and scheme: "u_scheme u \<noteq> []" and net: "u_netloc u \<noteq> []"
    and q: "CHR ''#'' \<notin> set q" "clean q"
  shows "urlparse (urlunparse (u\<lparr>u_query := q\<rparr>)) = Inr (u\<lparr>u_query := q\<rparr>)"
proof -
  obtain p0 where sch: "list_all is_scheme_char (u_scheme u)" "is_alpha (hd (u_scheme u))"
    "lower (u_scheme u) = u_scheme u" and nl: "list_all netloc_char (u_netloc u)"
    "(CHR ''['' \<in> set (u_netloc u)) = (CHR '']'' \<in> set (u_netloc u))"
    and p0: "split_path (u_scheme u) p0 = (u_path u, u_params u)" "rooted p0"
    "CHR ''#'' \<notin> set p0" "CHR ''?'' \<notin> set p0"
    and clean: "clean (u_netloc u)" "clean p0" "clean (u_fragment u)"
    using urlparse_parts [OF parse scheme net] .
  let ?P = "with_params (u_path u) (u_params u)"
  have P: "rooted ?P" "CHR ''#'' \<notin> set ?P" "CHR ''?'' \<notin> set ?P" "clean ?P"
    "split_path (u_scheme u) ?P = (u_path u, u_params u)"
    using split_path_sub [OF p0(1)] p0(2-4) clean(2) split_path_again [OF p0(1)]
    by (auto intro: clean_sub)
  let ?Q = "if q = [] then [] else CHR ''?'' # q"
  let ?F = "if u_fragment u = [] then [] else CHR ''#'' # u_fragment u"
  let ?T = "?P @ ?Q @ ?F"
  let ?X = "u_scheme u @ CHR '':'' # ''//'' @ u_netloc u @ ?T"
  have "(if ?P \<noteq> [] \<and> take 1 ?P \<noteq> ''/'' then ''/'' @ ?P else ?P) = ?P"
    using P(1) by (cases ?P) (auto simp: rooted_def)
  then have print: "urlunparse (u\<lparr>u_query := q\<rparr>) = ?X"
    using net scheme by (simp add: urlunparse_def Let_def)
  have "clean_url ?X = ?X"
    using sch scheme clean q P scheme_word(1) [OF sch(1)]
    by (intro clean_url_id) (auto simp: ord_def)
  moreover have "split_scheme ?X = (u_scheme u, ''//'' @ u_netloc u @ ?T)"
    using scheme_word(2) [OF sch(1)] sch scheme
    by (simp add: split_scheme_def Let_def)
  moreover have "split_netloc (''//'' @ u_netloc u @ ?T) = (u_netloc u, ?T)"
  proof (rule split_netloc_join [OF nl(1)])
    show "?T = [] \<or> \<not> netloc_char (hd ?T)"
      using P(1) by (auto simp: rooted_def netloc_char_def hd_append)
  qed
  moreover have "after (CHR ''#'') ?T = u_fragment u" "before (CHR ''#'') ?T = ?P @ ?Q"
    using P(2) q(1) by (simp_all add: before_skip after_skip after_append [of _ "[]", simplified]
        before_append [of _ "[]", simplified])
  moreover have "after (CHR ''?'') (?P @ ?Q) = q" "before (CHR ''?'') (?P @ ?Q) = ?P"
    using P(3) by simp_all
  ultimately show ?thesis
    unfolding print using P(5) nl(2) by (simp add: urlparse_def Let_def)
qed

end
