(* ===== verification/Settings.thy ===== *)
theory Settings
  imports Url
begin

text \<open>
  \<^verbatim>\<open>core/settings.py\<close>: the values the rest of the program reads, with their defaults, and
  the parsing of the API key list.  Connection strings and credentials of the stores the model
  takes as parameters are left out.
\<close>

datatype scope = Read | Write | Admin

record settings =
  user_agent :: string
  api_keys :: string
  api_rate_limit_per_minute :: int
  webhook_secret :: string
  s3_bucket :: string
  s3_presign_ttl_seconds :: int
  task_time_limit_seconds :: int
  task_soft_time_limit_seconds :: int
  visibility_timeout_seconds :: int
  max_job_retries :: int
  retry_backoff_base_seconds :: int
  retry_backoff_max_seconds :: int
  poison_pill_threshold :: int
  queue_depth_limit :: int
  allowed_target_hosts :: "string list"
  default_domain_rate_per_sec :: rat
  browser_ignore_https_errors :: bool
  circuit_failure_threshold :: int
  circuit_open_seconds :: int
  drift_min_ratio :: rat

text \<open>The bucket name has no default: it comes from the environment.\<close>

definition default_settings :: "string \<Rightarrow> settings" where
  "default_settings bucket =
     \<lparr>user_agent = ''scrape-queue'', api_keys = [], api_rate_limit_per_minute = 60,
      webhook_secret = ''change-me'', s3_bucket = bucket, s3_presign_ttl_seconds = 900,
      task_time_limit_seconds = 1800, task_soft_time_limit_seconds = 1500,
      visibility_timeout_seconds = 3600, max_job_retries = 5, retry_backoff_base_seconds = 30,
      retry_backoff_max_seconds = 1800, poison_pill_threshold = 3, queue_depth_limit = 500,
      allowed_target_hosts =
        [''simpler.grants.gov'', ''api.grants.gov'', ''www.federalregister.gov''],
      default_domain_rate_per_sec = 1, browser_ignore_https_errors = False,
      circuit_failure_threshold = 5, circuit_open_seconds = 300, drift_min_ratio = 1 / 2\<rparr>"

definition scope_of :: "string \<Rightarrow> scope option" where
  "scope_of s =
     (if s = ''read'' then Some Read
      else if s = ''write'' then Some Write
      else if s = ''admin'' then Some Admin else None)"

fun scope_str :: "scope \<Rightarrow> string" where
  "scope_str Read = ''read''"
| "scope_str Write = ''write''"
| "scope_str Admin = ''admin''"

definition last4 :: "string \<Rightarrow> string" where
  "last4 s = drop (length s - 4) s"

fun scopes_loop :: "string list \<Rightarrow> (string, scope) dict \<Rightarrow> exn + (string, scope) dict" where
  "scopes_loop [] out = Inr out"
| "scopes_loop (pair # pairs) out =
     (let key = before (CHR '':'') pair in
      case scope_of (after (CHR '':'') pair) of
        None \<Rightarrow> Inl (ValueError (''API_KEYS: bad scope for key ending '' @ repr_string (last4 key)))
      | Some s \<Rightarrow> scopes_loop pairs (dict_put key s out))"

definition api_key_scopes :: "settings \<Rightarrow> exn + (string, scope) dict" where
  "api_key_scopes cfg =
     scopes_loop (filter (\<lambda>p. p \<noteq> []) (map strip (split_on (CHR '','') (api_keys cfg)))) []"

subsection \<open>Reading back a key list\<close>

definition key_entry :: "string \<times> scope \<Rightarrow> string" where
  "key_entry p = fst p @ '':'' @ scope_str (snd p)"

text \<open>A key an operator can write in the list: no separator in it, no blank at its start.\<close>

definition key_ok :: "string \<Rightarrow> bool" where
  "key_ok k \<longleftrightarrow> k \<noteq> [] \<and> CHR '':'' \<notin> set k \<and> CHR '','' \<notin> set k \<and> \<not> is_space (hd k)"

lemma scope_of_str [simp]: "scope_of (scope_str s) = Some s"
  by (cases s) (simp_all add: scope_of_def)

lemma scope_str_facts: "CHR '','' \<notin> set (scope_str s)" "scope_str s \<noteq> []"
    "\<not> is_space (last (scope_str s))"
  by (cases s; simp add: is_space_def ord_def)+

lemma strip_id:
  assumes "s \<noteq> []" and "\<not> is_space (hd s)" and "\<not> is_space (last s)"
  shows "strip s = s"
proof -
  have "dropWhile is_space s = s" using assms by (cases s) auto
  moreover have "dropWhile is_space (rev s) = rev s"
    using assms by (cases s rule: rev_cases) auto
  ultimately show ?thesis by (simp add: strip_def)
qed

lemma key_entry_facts:
  assumes "key_ok (fst p)"
  shows "strip (key_entry p) = key_entry p" "key_entry p \<noteq> []" "CHR '','' \<notin> set (key_entry p)"
    "before (CHR '':'') (key_entry p) = fst p" "after (CHR '':'') (key_entry p) = scope_str (snd p)"
  using assms scope_str_facts [of "snd p"]
  by (auto simp: key_entry_def key_ok_def hd_append intro!: strip_id)

lemma scopes_loop_entries:
  "\<forall>p \<in> set ps. key_ok (fst p) \<Longrightarrow> scopes_loop (map key_entry ps) out = Inr (dict_merge out ps)"
  by (induction ps arbitrary: out) (simp_all add: key_entry_facts)

lemma api_key_scopes_entries:
  assumes "\<forall>p \<in> set ps. key_ok (fst p)" and "ps \<noteq> []"
  shows "api_key_scopes (cfg\<lparr>api_keys := join '','' (map key_entry ps)\<rparr>) = Inr (dict_of ps)"
proof -
  have "split_on (CHR '','') (join '','' (map key_entry ps)) = map key_entry ps"
    using assms key_entry_facts by (intro split_on_join) auto
  moreover have "map strip (map key_entry ps) = map key_entry ps"
    using assms key_entry_facts by (induction ps) auto
  moreover have "filter (\<lambda>p. p \<noteq> []) (map key_entry ps) = map key_entry ps"
    using assms key_entry_facts by (auto simp: filter_id_conv)
  ultimately show ?thesis
    using assms by (simp add: api_key_scopes_def scopes_loop_entries dict_of_def del: map_map)
qed

lemma scopes_loop_error:
  "scopes_loop ps out = Inl e \<Longrightarrow> \<exists>m. e = ValueError m"
  by (induction ps arbitrary: out) (auto simp: Let_def split: option.splits)

text \<open>A site that answers: one host with a public address, robots allow, every page is two rows.\<close>

definition sample_settings :: settings where
  "sample_settings = (default_settings ''results'')\<lparr>allowed_target_hosts := [''a.gov''],
     api_keys := ''alpha:write,root:admin''\<rparr>"

end
