(* ===== verification/Targets.thy ===== *)
theory Targets
  imports Settings
begin

text \<open>
  Target specs (\<^verbatim>\<open>core/targets.py\<close>) and the request schema (\<^verbatim>\<open>core/models.py\<close>).
  Reading a spec resolves a path below the targets directory; the YAML parser and the schema
  library are a parameter, the function from a file to its validated spec.
\<close>

datatype pagination_kind = QueryParam | NextLink | Offset
datatype fetcher_kind = Http | Browser
datatype http_method = GET | POST

record pagination =
  pg_kind :: pagination_kind
  pg_param :: "string option"
  pg_start :: int
  pg_step :: int
  pg_next_selector :: "string option"

definition default_pagination :: pagination where
  "default_pagination = \<lparr>pg_kind = QueryParam, pg_param = None, pg_start = 1, pg_step = 1,
     pg_next_selector = None\<rparr>"

record extraction =
  ex_row_selector :: string
  ex_fields :: "(string, string) dict"
  ex_attributes :: "(string, string) dict"
  ex_row_key :: "string list"

record target_spec =
  t_name :: string
  t_description :: string
  t_start_url :: string
  t_fetcher :: fetcher_kind
  t_method :: http_method
  t_fetcher_reason :: string
  t_respect_robots :: bool
  t_rate_per_second :: rat
  t_wait_for_selector :: "string option"
  t_pagination :: pagination
  t_extraction :: extraction
  t_api_alternative :: "string option"
  t_params :: "(string, json) dict"

fun kind_str :: "pagination_kind \<Rightarrow> string" where
  "kind_str QueryParam = ''query_param''"
| "kind_str NextLink = ''next_link''"
| "kind_str Offset = ''offset''"

fun fetcher_str :: "fetcher_kind \<Rightarrow> string" where
  "fetcher_str Http = ''http''"
| "fetcher_str Browser = ''browser''"

subsection \<open>Loading a spec\<close>

text \<open>
  A path is the list of its components.  \<open>resolve\<close> is \<^verbatim>\<open>Path.resolve\<close> on a tree without
  symbolic links; an absolute right operand of \<^verbatim>\<open>/\<close> replaces the left one.
\<close>

type_synonym path = "string list"

definition resolve :: "path \<Rightarrow> path" where
  "resolve p = foldl (\<lambda>acc c. if c = [] \<or> c = ''.'' then acc
                           else if c = ''..'' then butlast acc else acc @ [c]) [] p"

definition join_path :: "path \<Rightarrow> string \<Rightarrow> path" where
  "join_path base s = (if take 1 s = ''/'' then split_on (CHR ''/'') s
                       else base @ split_on (CHR ''/'') s)"

definition is_parent :: "path \<Rightarrow> path \<Rightarrow> bool" where
  "is_parent b p \<longleftrightarrow> length b < length p \<and> take (length b) p = b"

definition load_target ::
  "(path \<Rightarrow> (exn + target_spec) option) \<Rightarrow> path \<Rightarrow> string \<Rightarrow> exn + target_spec" where
  "load_target files base name =
     (let path = resolve (join_path base (name @ ''.yml'')) in
      if \<not> is_parent (resolve base) path then Inl (UnknownTarget name)
      else (case files path of None \<Rightarrow> Inl (UnknownTarget name) | Some spec \<Rightarrow> spec))"

text \<open>\<open>dir\<close> lists the file names of the directory.\<close>

definition list_targets :: "string list \<Rightarrow> string list" where
  "list_targets dir =
     sort (map (\<lambda>f. take (length f - 4) f) (filter (ends_with ''.yml'') dir))"

subsection \<open>The request\<close>

datatype output_format = CSV | JSON

fun format_str :: "output_format \<Rightarrow> string" where
  "format_str CSV = ''csv''"
| "format_str JSON = ''json''"

record job_create =
  c_target :: string
  c_fetcher :: "fetcher_kind option"
  c_start_url :: "string option"
  c_max_pages :: int
  c_output_format :: output_format
  c_incremental :: bool
  c_callback_url :: "string option"
  c_params :: "(string, json) dict"

definition safe_target_name :: "string \<Rightarrow> exn + string" where
  "safe_target_name v =
     (if \<not> str_isalnum (filter (\<lambda>c. c \<noteq> CHR ''-'') (filter (\<lambda>c. c \<noteq> CHR ''_'') v))
      then Inl (ValueError ''target must be alphanumeric with - or _'') else Inr v)"

definition validate_job :: "job_create \<Rightarrow> exn + job_create" where
  "validate_job c =
     bindE (safe_target_name (c_target c)) (\<lambda>_.
       if 1 \<le> c_max_pages c \<and> c_max_pages c \<le> 1000 then Inr c
       else Inl (ValueError ''max_pages''))"

subsection \<open>A validated name stays below the directory\<close>

lemma safe_target_iff:
  "safe_target_name v = Inr w \<longleftrightarrow>
     w = v \<and> str_isalnum (filter (\<lambda>c. c \<noteq> CHR ''-'') (filter (\<lambda>c. c \<noteq> CHR ''_'') v))"
  by (auto simp: safe_target_name_def)

lemma safe_target_nonempty: "safe_target_name v = Inr w \<Longrightarrow> v \<noteq> []"
  by (auto simp: safe_target_iff str_isalnum_def)

lemma safe_target_chars:
  assumes "safe_target_name v = Inr w" and "c \<in> set v" and "c \<noteq> CHR ''-''" and "c \<noteq> CHR ''_''"
  shows "is_alnum c"
proof -
  let ?w = "filter (\<lambda>c. c \<noteq> CHR ''-'') (filter (\<lambda>c. c \<noteq> CHR ''_'') v)"
  have "list_all is_alnum ?w"
    using assms(1) by (simp only: safe_target_iff str_isalnum_def simp_thms)
  moreover have "c \<in> set ?w" using assms(2-4) by simp
  ultimately show ?thesis by (simp only: list_all_iff)
qed

lemma resolve_snoc:
  "resolve (p @ [c]) = (if c = [] \<or> c = ''.'' then resolve p
     else if c = ''..'' then butlast (resolve p) else resolve p @ [c])"
  by (simp add: resolve_def)

lemma safe_file_name:
  assumes "safe_target_name v = Inr w"
  shows "split_on (CHR ''/'') (v @ ''.yml'') = [v @ ''.yml'']"
    and "take 1 (v @ ''.yml'') \<noteq> ''/''"
proof -
  have "CHR ''/'' \<notin> set v"
  proof
    assume "CHR ''/'' \<in> set v"
    from safe_target_chars [OF assms this] show False
      by (simp add: is_alnum_def is_alpha_def is_lower_def is_upper_def is_digit_def ord_def)
  qed
  then show "split_on (CHR ''/'') (v @ ''.yml'') = [v @ ''.yml'']"
    by (intro split_on_notin) simp
  from \<open>CHR ''/'' \<notin> set v\<close> show "take 1 (v @ ''.yml'') \<noteq> ''/''"
    using safe_target_nonempty [OF assms] by (cases v) auto
qed

lemma load_safe_target:
  assumes "safe_target_name v = Inr w"
  shows "load_target files base v =
    (case files (resolve base @ [v @ ''.yml'']) of None \<Rightarrow> Inl (UnknownTarget v) | Some s \<Rightarrow> s)"
proof -
  have "v @ ''.yml'' \<noteq> ''.''" "v @ ''.yml'' \<noteq> ''..''" by (cases v; simp)+
  then have "resolve (join_path base (v @ ''.yml'')) = resolve base @ [v @ ''.yml'']"
    using safe_file_name [OF assms] by (simp add: join_path_def resolve_snoc)
  then show ?thesis by (simp add: load_target_def is_parent_def)
qed

lemma load_target_below:
  assumes "load_target files base name = r" and "r \<noteq> Inl (UnknownTarget name)"
  obtains p where "is_parent (resolve base) p" and "files p = Some r"
  using assms by (auto simp: load_target_def Let_def split: if_splits option.splits)

definition sample_spec :: target_spec where
  "sample_spec =
     \<lparr>t_name = ''grants'', t_description = [], t_start_url = ''https://a.gov/s?q=x&p=9#top'',
      t_fetcher = Http, t_method = GET, t_fetcher_reason = [], t_respect_robots = True,
      t_rate_per_second = 1, t_wait_for_selector = None,
      t_pagination = default_pagination\<lparr>pg_param := Some ''p''\<rparr>,
      t_extraction = \<lparr>ex_row_selector = ''items'', ex_fields = [(''id'', ''id''), (''title'', ''t'')],
        ex_attributes = [], ex_row_key = [''id'']\<rparr>,
      t_api_alternative = None, t_params = [(''rows'', JInt 25)]\<rparr>"

text \<open>
  C36. A target is read from a file below the targets directory only, whatever its name, and a
  validated name is the file of that name in the directory itself.
\<close>

theorem target_file_contained:
  assumes "load_target files base name = r" and "r \<noteq> Inl (UnknownTarget name)"
  shows "\<exists>p. is_parent (resolve base) p \<and> files p = Some r
    \<and> (is_Inr (safe_target_name name) \<longrightarrow> p = resolve base @ [name @ ''.yml''])"
proof -
  obtain p where p: "is_parent (resolve base) p" "files p = Some r"
    using load_target_below [OF assms] by blast
  show ?thesis
  proof (cases "is_Inr (safe_target_name name)")
    case True
    then obtain w where "safe_target_name name = Inr w" by (auto simp: is_Inr_def split: sum.splits)
    from load_safe_target [OF this, of files base] assms
    have "files (resolve base @ [name @ ''.yml'']) = Some r" by (auto split: option.splits)
    then show ?thesis by (intro exI [of _ "resolve base @ [name @ ''.yml'']"]) (simp add: is_parent_def)
  qed (use p in blast)
qed

theorem target_file_contained_witness:
  "\<exists>p. is_parent (resolve [''srv'', ''..'', ''targets'']) p
     \<and> (\<lambda>p. if p = [''targets'', ''grants.yml''] then Some (Inr sample_spec) else None) p = Some (Inr sample_spec :: exn + target_spec)"
proof -
  let ?files = "\<lambda>p. if p = [''targets'', ''grants.yml''] then Some (Inr sample_spec) else None"
  have paths: "resolve (join_path [''srv'', ''..'', ''targets''] (''grants'' @ ''.yml'')) = [''targets'', ''grants.yml'']"
    "resolve [''srv'', ''..'', ''targets''] = [''targets'']" by code_simp+
  then have "load_target ?files [''srv'', ''..'', ''targets''] ''grants'' = Inr sample_spec"
    by (simp add: load_target_def is_parent_def)
  from target_file_contained [OF this sum.distinct(2)] show ?thesis
    by (elim exE conjE) (rule exI, rule conjI, assumption+)
qed

end
