(* ===== verification/ObjectStore.thy ===== *)
theory ObjectStore
  imports States
begin

text \<open>
  \<^verbatim>\<open>storage/s3.py\<close> over the object storage service, whose calls are a parameter.  The
  locale \<open>object_store\<close> states what is used of the service: an object written is read back,
  the others stay.
\<close>

record 's s3 =
  o_head_bucket :: "'s \<Rightarrow> bool"
  o_create_bucket :: "'s \<Rightarrow> exn + 's"
  o_put :: "string \<Rightarrow> string \<Rightarrow> string \<Rightarrow> 's \<Rightarrow> exn + 's"
  o_get :: "string \<Rightarrow> 's \<Rightarrow> exn + string"
  o_presign :: "string \<Rightarrow> int \<Rightarrow> string"

definition ensure_bucket :: "'s s3 \<Rightarrow> 's \<Rightarrow> exn + 's" where
  "ensure_bucket S s = (if o_head_bucket S s then Inr s else o_create_bucket S s)"

definition put_bytes :: "'s s3 \<Rightarrow> string \<Rightarrow> string \<Rightarrow> string \<Rightarrow> 's \<Rightarrow> exn + nat \<times> 's" where
  "put_bytes S key data ctype s =
     bindE (ensure_bucket S s) (\<lambda>s1. bindE (o_put S key data ctype s1) (\<lambda>s2.
       Inr (length data, s2)))"

text \<open>\<open>ttl or settings.s3_presign_ttl_seconds\<close>.\<close>

definition presign :: "'s s3 \<Rightarrow> int \<Rightarrow> string \<Rightarrow> int option \<Rightarrow> string" where
  "presign S default_ttl key ttl =
     o_presign S key (case ttl of Some t \<Rightarrow> if t \<noteq> 0 then t else default_ttl | None \<Rightarrow> default_ttl)"

locale object_store =
  fixes S :: "'s s3" and objects :: "'s \<Rightarrow> string \<Rightarrow> string option"
  assumes put_objects: "o_put S k d c s = Inr s' \<Longrightarrow> objects s' = (objects s)(k \<mapsto> d)"
    and create_objects: "o_create_bucket S s = Inr s' \<Longrightarrow> objects s' = objects s"
    and get_object: "objects s k = Some d \<Longrightarrow> o_get S k s = Inr d"
    and get_missing: "objects s k = None \<Longrightarrow> \<exists>e. o_get S k s = Inl e"
begin

lemma put_bytes_objects:
  assumes "put_bytes S k d c s = Inr (n, s')"
  shows "n = length d" and "objects s' = (objects s)(k \<mapsto> d)"
proof -
  obtain s1 where s1: "ensure_bucket S s = Inr s1" "o_put S k d c s1 = Inr s'" "n = length d"
    using assms by (auto simp: put_bytes_def bindE_Inr_iff)
  have "objects s1 = objects s"
    using s1(1) create_objects by (auto simp: ensure_bucket_def split: if_splits)
  with s1 put_objects show "n = length d" "objects s' = (objects s)(k \<mapsto> d)" by auto
qed

lemma put_then_get: "put_bytes S k d c s = Inr (n, s') \<Longrightarrow> o_get S k s' = Inr d"
  using put_bytes_objects get_object by simp

lemma put_get_other:
  "put_bytes S k d c s = Inr (n, s') \<Longrightarrow> k' \<noteq> k \<Longrightarrow> objects s' k' = objects s k'"
  using put_bytes_objects by simp

lemma get_Inr: "o_get S k s = Inr d \<longleftrightarrow> objects s k = Some d"
  using get_object [of s k] get_missing [of s k] by (cases "objects s k") auto

end

subsection \<open>A map of objects\<close>

record mem_s3 =
  ms_bucket :: bool
  ms_objects :: "(string \<times> string) list"

definition mem_store :: "mem_s3 s3" where
  "mem_store =
     \<lparr>o_head_bucket = ms_bucket,
      o_create_bucket = (\<lambda>s. Inr (s\<lparr>ms_bucket := True\<rparr>)),
      o_put = (\<lambda>k d c s. if ms_bucket s then Inr (s\<lparr>ms_objects := (k, d) # ms_objects s\<rparr>)
                          else Inl (OtherError ''ClientError'' ''NoSuchBucket'')),
      o_get = (\<lambda>k s. case map_of (ms_objects s) k of
                        Some d \<Rightarrow> Inr d | None \<Rightarrow> Inl (ObjectMissing k)),
      o_presign = (\<lambda>k t. ''https://s3/'' @ k)\<rparr>"

definition empty_store :: mem_s3 where
  "empty_store = \<lparr>ms_bucket = False, ms_objects = []\<rparr>"

interpretation mem_objects: object_store mem_store "\<lambda>s. map_of (ms_objects s)"
  by unfold_locales (auto simp: mem_store_def split: if_splits)

lemma mem_put_bytes [simp]:
  "put_bytes mem_store k d c s = Inr (length d, \<lparr>ms_bucket = True, ms_objects = (k, d) # ms_objects s\<rparr>)"
  by (simp add: put_bytes_def ensure_bucket_def mem_store_def)

end
