(* ===== verification/Redis.thy ===== *)
theory Redis
  imports Prelude
begin

text \<open>
  The interface to the Redis server.  The server is not part of the repository: the model takes
  its commands as a record of functions on an abstract server state \<open>'r\<close>, and the locale
  \<open>redis_server\<close> states what the documentation of the commands promises, through the
  keys that are live in a state (value and expiry instant) and the server's clock.  The
  interpretation at the end is a key map with expiry instants.
\<close>

datatype rval = RStr string | RInt int | RHash rat rat

type_synonym entry = "rval \<times> rat option"

record 'r redis =
  r_ttl :: "string \<Rightarrow> 'r \<Rightarrow> int"
  r_set_nx_ex :: "string \<Rightarrow> string \<Rightarrow> int \<Rightarrow> 'r \<Rightarrow> bool \<times> 'r"
  r_set_ex :: "string \<Rightarrow> string \<Rightarrow> int \<Rightarrow> 'r \<Rightarrow> 'r"
  r_delete :: "string list \<Rightarrow> 'r \<Rightarrow> 'r"
  r_incr :: "string \<Rightarrow> 'r \<Rightarrow> int \<times> 'r"
  r_expire :: "string \<Rightarrow> int \<Rightarrow> 'r \<Rightarrow> 'r"
  r_hmget :: "string \<Rightarrow> 'r \<Rightarrow> (rat \<times> rat) option"
  r_hset :: "string \<Rightarrow> rat \<Rightarrow> rat \<Rightarrow> 'r \<Rightarrow> 'r"
  r_sleep :: "rat \<Rightarrow> 'r \<Rightarrow> 'r"

text \<open>What is left of a set of entries after the clock reached \<open>t\<close>.\<close>

definition still_live :: "rat \<Rightarrow> entry option \<Rightarrow> entry option" where
  "still_live t e = (case e of Some (v, Some x) \<Rightarrow> if t < x then e else None | _ \<Rightarrow> e)"

text \<open>Time to live as \<open>TTL\<close> reports it: whole seconds, rounded to the nearest.\<close>

definition ttl_of :: "rat \<Rightarrow> entry option \<Rightarrow> int" where
  "ttl_of now e =
     (case e of None \<Rightarrow> -2 | Some (_, None) \<Rightarrow> -1 | Some (_, Some x) \<Rightarrow> \<lfloor>x - now + 1 / 2\<rfloor>)"

definition with_expiry :: "rat \<Rightarrow> int \<Rightarrow> entry option \<Rightarrow> entry option" where
  "with_expiry now s e =
     (case e of None \<Rightarrow> None
      | Some (v, _) \<Rightarrow> if 0 < s then Some (v, Some (now + of_int s)) else None)"

definition incr_entry :: "entry option \<Rightarrow> entry option" where
  "incr_entry e =
     (case e of Some (RInt n, x) \<Rightarrow> Some (RInt (n + 1), x) | None \<Rightarrow> Some (RInt 1, None) | _ \<Rightarrow> e)"

definition entry_int :: "entry option \<Rightarrow> int" where
  "entry_int e = (case e of Some (RInt n, _) \<Rightarrow> n | _ \<Rightarrow> 0)"

definition is_counter :: "entry option \<Rightarrow> bool" where
  "is_counter e = (case e of None \<Rightarrow> True | Some (RInt _, _) \<Rightarrow> True | _ \<Rightarrow> False)"

definition entry_hash :: "entry option \<Rightarrow> (rat \<times> rat) option" where
  "entry_hash e = (case e of Some (RHash a b, _) \<Rightarrow> Some (a, b) | _ \<Rightarrow> None)"

definition entry_expiry :: "entry option \<Rightarrow> rat option" where
  "entry_expiry e = (case e of Some (_, x) \<Rightarrow> x | None \<Rightarrow> None)"

locale redis_clock =
  fixes R :: "'r redis" and live :: "'r \<Rightarrow> string \<Rightarrow> entry option" and clock :: "'r \<Rightarrow> rat"
  assumes live_future: "live r k = Some (v, Some x) \<Longrightarrow> clock r < x"
    and live_sleep: "0 \<le> d \<Longrightarrow> live (r_sleep R d r) k = still_live (clock r + d) (live r k)"
    and clock_sleep: "0 \<le> d \<Longrightarrow> clock (r_sleep R d r) = clock r + d"

locale redis_server = redis_clock +
  assumes ttl: "r_ttl R k r = ttl_of (clock r) (live r k)"
    and set_nx_taken: "live r k \<noteq> None \<Longrightarrow>
      \<not> fst (r_set_nx_ex R k v s r) \<and> live (snd (r_set_nx_ex R k v s r)) = live r"
    and set_nx_free: "live r k = None \<Longrightarrow> 0 < s \<Longrightarrow>
      fst (r_set_nx_ex R k v s r)
      \<and> live (snd (r_set_nx_ex R k v s r)) = (live r)(k := Some (RStr v, Some (clock r + of_int s)))"
    and set_ex: "0 < s \<Longrightarrow>
      live (r_set_ex R k v s r) = (live r)(k := Some (RStr v, Some (clock r + of_int s)))"
    and delete: "live (r_delete R ks r) = (\<lambda>k. if k \<in> set ks then None else live r k)"
    and incr: "is_counter (live r k) \<Longrightarrow>
      fst (r_incr R k r) = entry_int (live r k) + 1
      \<and> live (snd (r_incr R k r)) = (live r)(k := incr_entry (live r k))"
    and expire: "live (r_expire R k s r) = (live r)(k := with_expiry (clock r) s (live r k))"
    and hmget: "r_hmget R k r = entry_hash (live r k)"
    and hset: "live (r_hset R k a b r) = (live r)(k := Some (RHash a b, entry_expiry (live r k)))"
    and clock_cmds: "clock (snd (r_set_nx_ex R k v s r)) = clock r"
      "clock (r_set_ex R k v s r) = clock r" "clock (r_delete R ks r) = clock r"
      "clock (snd (r_incr R k r)) = clock r" "clock (r_expire R k s r) = clock r"
      "clock (r_hset R k a b r) = clock r"

context redis_server
begin

lemma ttl_absent: "live r k = None \<Longrightarrow> r_ttl R k r = -2"
  by (simp add: ttl ttl_of_def)

lemma ttl_present: "live r k = Some (v, Some x) \<Longrightarrow> 0 \<le> r_ttl R k r"
  using live_future [of r k v x] by (simp add: ttl ttl_of_def)

lemma ttl_fresh: "live r k = Some (v, Some (clock r + of_int s)) \<Longrightarrow> r_ttl R k r = s"
  by (simp add: ttl ttl_of_def) linarith

end

subsection \<open>A map of keys with expiry instants\<close>

record mem =
  m_keys :: "string \<Rightarrow> entry option"
  m_clock :: rat

definition mem_live :: "mem \<Rightarrow> string \<Rightarrow> entry option" where
  "mem_live m k = still_live (m_clock m) (m_keys m k)"

definition mem_put :: "string \<Rightarrow> entry option \<Rightarrow> mem \<Rightarrow> mem" where
  "mem_put k e m = m\<lparr>m_keys := (mem_live m)(k := e)\<rparr>"

definition mem_redis :: "mem redis" where
  "mem_redis =
     \<lparr>r_ttl = (\<lambda>k m. ttl_of (m_clock m) (mem_live m k)),
      r_set_nx_ex = (\<lambda>k v s m.
        if mem_live m k = None then (True, mem_put k (Some (RStr v, Some (m_clock m + of_int s))) m)
        else (False, m)),
      r_set_ex = (\<lambda>k v s m. mem_put k (Some (RStr v, Some (m_clock m + of_int s))) m),
      r_delete = (\<lambda>ks m. m\<lparr>m_keys := (\<lambda>k. if k \<in> set ks then None else mem_live m k)\<rparr>),
      r_incr = (\<lambda>k m. (entry_int (mem_live m k) + 1, mem_put k (incr_entry (mem_live m k)) m)),
      r_expire = (\<lambda>k s m. mem_put k (with_expiry (m_clock m) s (mem_live m k)) m),
      r_hmget = (\<lambda>k m. entry_hash (mem_live m k)),
      r_hset = (\<lambda>k a b m. mem_put k (Some (RHash a b, entry_expiry (mem_live m k))) m),
      r_sleep = (\<lambda>d m. m\<lparr>m_clock := m_clock m + d\<rparr>)\<rparr>"

definition mem_empty :: mem where
  "mem_empty = \<lparr>m_keys = (\<lambda>_. None), m_clock = 0\<rparr>"

lemma still_live_later:
  "t \<le> u \<Longrightarrow> still_live u (still_live t e) = still_live u e"
  by (auto simp: still_live_def split: option.splits)

lemma mem_live_put:
  "still_live (m_clock m) e = e \<Longrightarrow> mem_live (mem_put k e m) = (mem_live m)(k := e)"
  by (auto simp: mem_put_def mem_live_def fun_eq_iff still_live_later)

lemma mem_live_incr:
  "still_live (m_clock m) (incr_entry (mem_live m k)) = incr_entry (mem_live m k)"
  by (auto simp: mem_live_def still_live_def incr_entry_def split: option.splits prod.splits
      rval.splits)

lemma mem_live_expiry:
  "still_live (m_clock m) (with_expiry (m_clock m) s (mem_live m k))
     = with_expiry (m_clock m) s (mem_live m k)"
  by (auto simp: still_live_def with_expiry_def split: option.splits)

lemma mem_live_hset:
  "still_live (m_clock m) (Some (v, entry_expiry (mem_live m k)))
     = Some (v, entry_expiry (mem_live m k))"
  by (auto simp: mem_live_def still_live_def entry_expiry_def split: option.splits)

lemma mem_live_fresh:
  "0 < s \<Longrightarrow> still_live t (Some (v, Some (t + of_int s))) = Some (v, Some (t + of_int s))"
  by (simp add: still_live_def)

lemma m_clock_put [simp]: "m_clock (mem_put k e m) = m_clock m"
  by (simp add: mem_put_def)

interpretation mem: redis_server mem_redis mem_live m_clock
proof unfold_locales
  show "mem_live r k = Some (v, Some x) \<Longrightarrow> m_clock r < x" for r k v x
    by (auto simp: mem_live_def still_live_def split: option.splits if_splits)
  show "0 \<le> d \<Longrightarrow> mem_live (r_sleep mem_redis d r) k = still_live (m_clock r + d) (mem_live r k)"
    for d r k by (simp add: mem_redis_def mem_live_def still_live_later)
  show "mem_live (r_delete mem_redis ks r) = (\<lambda>k. if k \<in> set ks then None else mem_live r k)"
    for ks r by (auto simp: mem_redis_def mem_live_def still_live_later fun_eq_iff)
      (simp add: still_live_def)
qed (auto simp: mem_redis_def mem_live_put mem_live_incr mem_live_expiry mem_live_hset
      mem_live_fresh)

end
