(* ===== verification/World.thy ===== *)
theory World
  imports Store Targets ObjectStore Redis
begin

text \<open>
  The state the tasks share: the database, the object store, the Redis server and the messages
  handed to the broker, in the order they were sent.  \<open>deployment\<close> collects what a process is
  configured with: settings, target files, the digest function and the storage service.
\<close>

text \<open>What a page task returns.\<close>

record page_result =
  pr_page :: int
  pr_rows :: int
  pr_key :: "string option"
  pr_failed :: bool
  pr_skipped :: bool
  pr_duplicate :: bool

definition skipped_result :: "int \<Rightarrow> page_result" where
  "skipped_result page = \<lparr>pr_page = page, pr_rows = 0, pr_key = None, pr_failed = False,
     pr_skipped = True, pr_duplicate = False\<rparr>"

definition failed_result :: "int \<Rightarrow> page_result" where
  "failed_result page = \<lparr>pr_page = page, pr_rows = 0, pr_key = None, pr_failed = True,
     pr_skipped = False, pr_duplicate = False\<rparr>"

definition done_result :: "int \<Rightarrow> int \<Rightarrow> string \<Rightarrow> bool \<Rightarrow> page_result" where
  "done_result page n key dup = \<lparr>pr_page = page, pr_rows = n, pr_key = Some key,
     pr_failed = False, pr_skipped = False, pr_duplicate = dup\<rparr>"

text \<open>
  Messages: a crawl task on a queue; a chord, which is page tasks on a queue and an
  assemble task that gets their results; an assemble task; a callback; a request to stop a task.
\<close>

datatype message =
    CrawlMsg uuid string
  | ChordMsg uuid "int list" string string
  | AssembleMsg uuid "page_result list"
  | CallbackMsg uuid string job_state int
  | RevokeMsg string

record ('s, 'r) world =
  w_db :: db
  w_objects :: 's
  w_redis :: 'r
  w_sent :: "message list"

record 's deployment =
  cfg :: settings
  target_files :: "path \<Rightarrow> (exn + target_spec) option"
  targets_dir :: path
  sha256 :: "string \<Rightarrow> string"
  storage :: "'s s3"

definition spec_of :: "'s deployment \<Rightarrow> string \<Rightarrow> exn + target_spec" where
  "spec_of D name = load_target (target_files D) (targets_dir D) name"

definition send :: "message \<Rightarrow> ('s, 'r) world \<Rightarrow> ('s, 'r) world" where
  "send m w = w\<lparr>w_sent := w_sent w @ [m]\<rparr>"

lemma send_sel [simp]:
  "w_db (send m w) = w_db w" "w_objects (send m w) = w_objects w" "w_redis (send m w) = w_redis w"
  "w_sent (send m w) = w_sent w @ [m]"
  by (simp_all add: send_def)

text \<open>A deployment and a world to run the tasks in.\<close>

definition sample_deployment :: "mem_s3 deployment" where
  "sample_deployment =
     \<lparr>cfg = sample_settings,
      target_files = (\<lambda>p. if p = [''targets'', ''grants.yml''] then Some (Inr sample_spec) else None),
      targets_dir = [''targets''], sha256 = (\<lambda>s. ''d'' @ take 15 s), storage = mem_store\<rparr>"

lemma sample_deployment_sel [simp]:
  "cfg sample_deployment = sample_settings" "storage sample_deployment = mem_store"
  "sha256 sample_deployment s = ''d'' @ take 15 s"
  "poison_pill_threshold sample_settings = 3"
  by (simp_all add: sample_deployment_def sample_settings_def default_settings_def)

lemma sample_spec_of [simp]: "spec_of sample_deployment ''grants'' = Inr sample_spec"
  by code_simp

definition sample_world :: "db \<Rightarrow> (mem_s3, mem) world" where
  "sample_world db = \<lparr>w_db = db, w_objects = empty_store, w_redis = mem_empty, w_sent = []\<rparr>"

lemma sample_world_sel [simp]:
  "w_db (sample_world db) = db" "w_objects (sample_world db) = empty_store"
  "w_redis (sample_world db) = mem_empty" "w_sent (sample_world db) = []"
  by (simp_all add: sample_world_def)

lemma sample_running: "get_job (w_db (sample_world (running_db pages))) ''j1'' = Some running_job"
  by simp

lemma running_spec: "spec_of sample_deployment (j_target running_job) = Inr sample_spec"
  by simp

end
