(* ===== verification/JsonParse.thy ===== *)
theory JsonParse
  imports Url
begin

text \<open>
  \<^verbatim>\<open>json.loads\<close> for the page objects the pipeline reads back, and the round trip with
  \<^verbatim>\<open>json.dumps\<close>.  A number with a fraction or an exponent keeps its text, which is the
  shortest one for the texts \<open>dumps\<close> writes.  The parser recurses on nested values with fuel;
  the length of the text is enough.
\<close>

definition json_space :: "char \<Rightarrow> bool" where
  "json_space c \<longleftrightarrow> c \<in> {CHR '' '', CHR 0x09, CHR 0x0A, CHR 0x0D}"

definition skip :: "string \<Rightarrow> string" where
  "skip s = dropWhile json_space s"

text \<open>The UTF-8 bytes of a code point.\<close>

definition utf8 :: "nat \<Rightarrow> string" where
  "utf8 n =
     (if n < 128 then [char_of n]
      else if n < 2048 then [char_of (192 + n div 64), char_of (128 + n mod 64)]
      else if n < 65536 then
        [char_of (224 + n div 4096), char_of (128 + n div 64 mod 64), char_of (128 + n mod 64)]
      else
        [char_of (240 + n div 262144), char_of (128 + n div 4096 mod 64),
         char_of (128 + n div 64 mod 64), char_of (128 + n mod 64)])"

fun hex4_value :: "string \<Rightarrow> (nat \<times> string) option" where
  "hex4_value (a # b # c # d # s) =
     (case (hexval a, hexval b, hexval c, hexval d) of
        (Some w, Some x, Some y, Some z) \<Rightarrow> Some (((w * 16 + x) * 16 + y) * 16 + z, s)
      | _ \<Rightarrow> None)"
| "hex4_value _ = None"

lemma hex4_value_length: "hex4_value s = Some (n, t) \<Longrightarrow> length t < length s"
  by (induction s rule: hex4_value.induct) (auto split: option.splits)

definition simple_escape :: "char \<Rightarrow> char option" where
  "simple_escape c =
     (if c = CHR 0x22 \<or> c = CHR 0x5C \<or> c = CHR ''/'' then Some c
      else if c = CHR ''b'' then Some (CHR 0x08)
      else if c = CHR ''f'' then Some (CHR 0x0C)
      else if c = CHR ''n'' then Some (CHR 0x0A)
      else if c = CHR ''r'' then Some (CHR 0x0D)
      else if c = CHR ''t'' then Some (CHR 0x09) else None)"

text \<open>A \<open>u\<close> escape, a surrogate pair being one code point.\<close>

definition unicode_escape :: "string \<Rightarrow> (nat \<times> string) option" where
  "unicode_escape s =
     (case hex4_value s of
        None \<Rightarrow> None
      | Some (n, t) \<Rightarrow>
          if 55296 \<le> n \<and> n \<le> 56319 \<and> take 2 t = [CHR 0x5C, CHR ''u''] then
            (case hex4_value (drop 2 t) of
               Some (m, t') \<Rightarrow>
                 if 56320 \<le> m \<and> m \<le> 57343
                 then Some (65536 + (n - 55296) * 1024 + (m - 56320), t') else Some (n, t)
             | None \<Rightarrow> None)
          else Some (n, t))"

lemma unicode_escape_length: "unicode_escape s = Some (n, t) \<Longrightarrow> length t < length s"
  by (auto simp: unicode_escape_def split: option.splits if_splits dest!: hex4_value_length)

text \<open>The characters up to the closing quote.\<close>

function parse_chars :: "string \<Rightarrow> (string \<times> string) option" where
  "parse_chars [] = None"
| "parse_chars (c # s) =
     (if c = CHR 0x22 then Some ([], s)
      else if c = CHR 0x5C then
        (case s of
           [] \<Rightarrow> None
         | e # t \<Rightarrow>
             if e = CHR ''u'' then
               (case unicode_escape t of
                  None \<Rightarrow> None
                | Some (n, t') \<Rightarrow>
                    map_option (\<lambda>(x, r). (utf8 n @ x, r)) (parse_chars t'))
             else
               (case simple_escape e of
                  None \<Rightarrow> None
                | Some d \<Rightarrow> map_option (\<lambda>(x, r). (d # x, r)) (parse_chars t)))
      else if ord c < 32 then None
      else map_option (\<lambda>(x, r). (c # x, r)) (parse_chars s))"
  by pat_completeness auto
termination
  by (relation "measure length") (auto dest: unicode_escape_length)

definition number_char :: "char \<Rightarrow> bool" where
  "number_char c \<longleftrightarrow> is_digit c \<or> c \<in> set ''+-.eE''"

definition int_text :: "string \<Rightarrow> bool" where
  "int_text t = (case t of [] \<Rightarrow> False | c # s \<Rightarrow>
     let d = (if c = CHR ''-'' then s else t)
     in str_isdigit d \<and> (hd d = CHR ''0'' \<longrightarrow> length d = 1))"

definition read_int :: "string \<Rightarrow> int" where
  "read_int t = (if hd t = CHR ''-'' then - int (undec (tl t)) else int (undec t))"

text \<open>An integer part, then a fraction, an exponent, or both.\<close>

definition exponent_text :: "string \<Rightarrow> bool" where
  "exponent_text e \<longleftrightarrow> e \<noteq> [] \<and> hd e \<in> set ''eE'' \<and>
     str_isdigit (if tl e \<noteq> [] \<and> hd (tl e) \<in> set ''+-'' then tl (tl e) else tl e)"

definition float_text :: "string \<Rightarrow> bool" where
  "float_text t =
     (let i = takeWhile (\<lambda>c. is_digit c \<or> c = CHR ''-'') t; r = drop (length i) t in
      int_text i \<and>
      (if r \<noteq> [] \<and> hd r = CHR ''.'' then
         (let f = takeWhile is_digit (tl r); e = drop (length f) (tl r)
          in f \<noteq> [] \<and> (e = [] \<or> exponent_text e))
       else exponent_text r))"

definition parse_number :: "string \<Rightarrow> (json \<times> string) option" where
  "parse_number s =
     (let t = takeWhile number_char s; r = dropWhile number_char s in
      if int_text t then Some (JInt (read_int t), r)
      else if float_text t then Some (JFloat t, r) else None)"

definition literal :: "string \<Rightarrow> json \<Rightarrow> string \<Rightarrow> (json \<times> string) option" where
  "literal w v s = (if take (length w) s = w then Some (v, drop (length w) s) else None)"

fun parse_value :: "nat \<Rightarrow> string \<Rightarrow> (json \<times> string) option"
and parse_elems :: "nat \<Rightarrow> string \<Rightarrow> (json list \<times> string) option"
and parse_members :: "nat \<Rightarrow> string \<Rightarrow> ((string \<times> json) list \<times> string) option" where
  "parse_value 0 s = None"
| "parse_value (Suc fuel) s =
     (case s of
        [] \<Rightarrow> None
      | c # t \<Rightarrow>
          if c = CHR 0x22 then map_option (\<lambda>(x, r). (JStr x, r)) (parse_chars t)
          else if c = CHR ''['' then
            (case skip t of
               [] \<Rightarrow> None
             | d # u \<Rightarrow> if d = CHR '']'' then Some (JArr [], u)
                 else map_option (\<lambda>(xs, r). (JArr xs, r)) (parse_elems fuel (d # u)))
          else if c = CHR ''{'' then
            (case skip t of
               [] \<Rightarrow> None
             | d # u \<Rightarrow> if d = CHR ''}'' then Some (JObj [], u)
                 else map_option (\<lambda>(ps, r). (JObj (dict_of ps), r)) (parse_members fuel (d # u)))
          else if c = CHR ''n'' then literal ''null'' JNull s
          else if c = CHR ''t'' then literal ''true'' (JBool True) s
          else if c = CHR ''f'' then literal ''false'' (JBool False) s
          else parse_number s)"
| "parse_elems 0 s = None"
| "parse_elems (Suc fuel) s =
     (case parse_value fuel s of
        None \<Rightarrow> None
      | Some (v, r) \<Rightarrow>
          (case skip r of
             [] \<Rightarrow> None
           | c # t \<Rightarrow>
               if c = CHR '']'' then Some ([v], t)
               else if c = CHR '','' then
                 map_option (\<lambda>(vs, r'). (v # vs, r')) (parse_elems fuel (skip t))
               else None))"
| "parse_members 0 s = None"
| "parse_members (Suc fuel) s =
     (case s of
        [] \<Rightarrow> None
      | q # s1 \<Rightarrow>
          if q \<noteq> CHR 0x22 then None
          else (case parse_chars s1 of
             None \<Rightarrow> None
           | Some (k, r0) \<Rightarrow>
               (case skip r0 of
                  [] \<Rightarrow> None
                | c0 # t0 \<Rightarrow>
                    if c0 \<noteq> CHR '':'' then None
                    else (case parse_value fuel (skip t0) of
                       None \<Rightarrow> None
                     | Some (v, r) \<Rightarrow>
                         (case skip r of
                            [] \<Rightarrow> None
                          | c # t \<Rightarrow>
                              if c = CHR ''}'' then Some ([(k, v)], t)
                              else if c = CHR '','' then
                                map_option (\<lambda>(ps, r'). ((k, v) # ps, r'))
                                  (parse_members fuel (skip t))
                              else None)))))"

definition loads :: "string \<Rightarrow> exn + json" where
  "loads s =
     (case parse_value (Suc (length s)) (skip s) of
        Some (v, r) \<Rightarrow>
          if skip r = [] then Inr v else Inl (OtherError ''JSONDecodeError'' ''Extra data'')
      | None \<Rightarrow> Inl (OtherError ''JSONDecodeError'' ''Expecting value''))"

subsection \<open>Reading back what was written\<close>

text \<open>A value Python can hold: a float in its own text, the keys of an object distinct.\<close>

fun wf_json :: "json \<Rightarrow> bool"
and wf_list :: "json list \<Rightarrow> bool"
and wf_items :: "(string \<times> json) list \<Rightarrow> bool" where
  "wf_json (JFloat t) \<longleftrightarrow> float_text t \<and> \<not> int_text t \<and> list_all number_char t \<and> t \<noteq> []"
| "wf_json (JArr xs) \<longleftrightarrow> wf_list xs"
| "wf_json (JObj ps) \<longleftrightarrow> wf_items ps \<and> distinct (dict_keys ps)"
| "wf_json v \<longleftrightarrow> True"
| "wf_list [] \<longleftrightarrow> True"
| "wf_list (x # xs) \<longleftrightarrow> wf_json x \<and> wf_list xs"
| "wf_items [] \<longleftrightarrow> True"
| "wf_items ((k, v) # ps) \<longleftrightarrow> wf_json v \<and> wf_items ps"

text \<open>The fuel a value needs.\<close>

fun need :: "json \<Rightarrow> nat"
and need_list :: "json list \<Rightarrow> nat"
and need_items :: "(string \<times> json) list \<Rightarrow> nat" where
  "need (JArr xs) = Suc (need_list xs)"
| "need (JObj ps) = Suc (need_items ps)"
| "need v = 1"
| "need_list [] = 0"
| "need_list (x # xs) = Suc (need x + need_list xs)"
| "need_items [] = 0"
| "need_items ((k, v) # ps) = Suc (need v + need_items ps)"

lemmas need_induct = need_need_list_need_items.induct
  [case_names arr obj null bool num flt str elems_Nil elems_Cons items_Nil items_Cons]

lemma hexval_hexdigit: "d < 16 \<Longrightarrow> hexval (hexdigit d) = Some d"
  by (auto simp: hexval_def hexdigit_def is_digit_def ord_def)

lemma nibble_sum: "a < 256 \<Longrightarrow> a div 16 mod 16 * 16 + a mod 16 = a" for a :: nat
proof -
  assume "a < 256"
  then have "a div 16 mod 16 = a div 16" by simp
  then show ?thesis by simp
qed

lemma hex4_value_hex4:
  assumes "n < 65536"
  shows "hex4_value (hex4 n @ t) = Some (n, t)"
proof -
  let ?h = "n div 256" and ?l = "n mod 256"
  have "?h < 256" "?l < 256" using assms by simp_all
  then have parts: "?h div 16 mod 16 * 16 + ?h mod 16 = ?h" "?l div 16 mod 16 * 16 + ?l mod 16 = ?l"
    using nibble_sum by blast+
  have "((?h div 16 mod 16 * 16 + ?h mod 16) * 16 + ?l div 16 mod 16) * 16 + ?l mod 16
      = ?h * 256 + (?l div 16 mod 16 * 16 + ?l mod 16)"
    unfolding parts(1) by simp
  also have "\<dots> = n" unfolding parts(2) by simp
  finally have "((?h div 16 mod 16 * 16 + ?h mod 16) * 16 + ?l div 16 mod 16) * 16 + ?l mod 16 = n" .
  then show ?thesis by (simp only: hex4_def hex2_def append.simps hex4_value.simps) (simp add: hexval_hexdigit)
qed

lemma unicode_escape_low: "n < 55296 \<Longrightarrow> unicode_escape (hex4 n @ t) = Some (n, t)"
  by (simp add: unicode_escape_def hex4_value_hex4)

declare parse_chars.simps [simp del]

lemma ord_inj: "ord c = ord d \<longleftrightarrow> c = d"
  by (metis char_of_ord)

lemma parse_backslash:
  "parse_chars (CHR 0x5C # e # t) =
     (if e = CHR ''u'' then
        (case unicode_escape t of None \<Rightarrow> None
         | Some (n, t') \<Rightarrow> map_option (\<lambda>(x, r). (utf8 n @ x, r)) (parse_chars t'))
      else
        (case simple_escape e of None \<Rightarrow> None
         | Some d \<Rightarrow> map_option (\<lambda>(x, r). (d # x, r)) (parse_chars t)))"
  by (subst parse_chars.simps) simp

lemma parse_simple_escape:
  assumes "parse_chars t = Some (x, r)"
  shows "parse_chars (esc_char (CHR 0x22) @ t) = Some (CHR 0x22 # x, r)"
    "parse_chars (esc_char (CHR 0x5C) @ t) = Some (CHR 0x5C # x, r)"
    "parse_chars (esc_char (CHR 0x0A) @ t) = Some (CHR 0x0A # x, r)"
    "parse_chars (esc_char (CHR 0x0D) @ t) = Some (CHR 0x0D # x, r)"
    "parse_chars (esc_char (CHR 0x09) @ t) = Some (CHR 0x09 # x, r)"
    "parse_chars (esc_char (CHR 0x0C) @ t) = Some (CHR 0x0C # x, r)"
    "parse_chars (esc_char (CHR 0x08) @ t) = Some (CHR 0x08 # x, r)"
  using assms
  by (simp_all add: esc_char_def esc_point_def parse_backslash simple_escape_def)

lemma parse_esc_char:
  assumes "parse_chars t = Some (x, r)"
  shows "parse_chars (esc_char c @ t) = Some (c # x, r)"
proof (cases "ord c < 32 \<or> ord c = 34 \<or> ord c = 92")
  case False
  then have "c \<noteq> CHR 0x22" "c \<noteq> CHR 0x5C" by (auto simp: ord_def)
  then show ?thesis using False assms
    by (simp add: esc_char_def ord_def [symmetric] Let_def parse_chars.simps)
next
  case True
  have c: "c = char_of (ord c)" by simp
  show ?thesis
  proof (cases "ord c \<in> {34, 92, 10, 13, 9, 12, 8}")
    case special: True
    then have "ord c \<in> ord ` {CHR 0x22, CHR 0x5C, CHR 0x0A, CHR 0x0D, CHR 0x09, CHR 0x0C, CHR 0x08}"
      by (simp add: ord_def)
    then have "c \<in> {CHR 0x22, CHR 0x5C, CHR 0x0A, CHR 0x0D, CHR 0x09, CHR 0x0C, CHR 0x08}"
      using ord_inj by (auto simp only: image_iff)
    then show ?thesis using assms parse_simple_escape by auto
  next
    case plain: False
    with True have low: "ord c < 32" by auto
    then have "esc_char c = [CHR 0x5C, CHR ''u''] @ hex4 (ord c)"
      using plain by (simp add: esc_char_def esc_point_def u_escape_def Let_def ord_def [symmetric])
    moreover have "utf8 (ord c) = [c]" using low by (simp add: utf8_def)
    ultimately show ?thesis using assms low
      by (simp add: parse_backslash unicode_escape_low)
  qed
qed

lemma parse_chars_written:
  "parse_chars (concat (map esc_char s) @ CHR 0x22 # r) = Some (s, r)"
proof (induction s)
  case Nil
  have "parse_chars (CHR 0x22 # r) = Some ([], r)" by (subst parse_chars.simps) simp
  then show ?case by simp
next
  case (Cons c s)
  then show ?case by (simp add: parse_esc_char)
qed

lemma take_while_app:
  assumes "list_all P t" and "r = [] \<or> \<not> P (hd r)"
  shows "takeWhile P (t @ r) = t" and "dropWhile P (t @ r) = r"
  using assms by (induction t; cases r; simp)+

text \<open>What may follow a value inside a text.\<close>

definition follows :: "string \<Rightarrow> bool" where
  "follows r \<longleftrightarrow> r = [] \<or> hd r \<in> {CHR '','', CHR '']'', CHR ''}''}"

lemma follows_not_number: "follows r \<Longrightarrow> r = [] \<or> \<not> number_char (hd r)"
  by (auto simp: follows_def number_char_def is_digit_def ord_def)

lemma dec_nat_digits: "list_all is_digit (dec_nat n)"
  using dec_nat_chars by (force simp: list_all_iff is_digit_def ord_def)

lemma dec_nat_isdigit: "str_isdigit (dec_nat n)"
  by (simp add: str_isdigit_def dec_nat_digits)

lemma dec_nat_zero: "hd (dec_nat n) = CHR ''0'' \<Longrightarrow> length (dec_nat n) = 1"
proof (induction n rule: dec_nat.induct)
  case (1 n)
  show ?case
  proof (cases "n < 10")
    case False
    have "dec_nat (n div 10) \<noteq> ''0''"
    proof
      assume "dec_nat (n div 10) = ''0''"
      then have "n div 10 = 0"
        using undec_dec_nat [of "n div 10"] by (simp add: undec_def undigit_def)
      with False show False by simp
    qed
    moreover have "hd (dec_nat (n div 10)) = CHR ''0''"
      using 1(2) False by (simp add: dec_nat.simps [of n] hd_append)
    moreover from this have "length (dec_nat (n div 10)) = 1" using 1(1) False by blast
    ultimately show ?thesis by (cases "dec_nat (n div 10)") auto
  qed (simp add: dec_nat.simps [of n])
qed

lemma dec_nat_hd: "is_digit (hd (dec_nat n))"
  using dec_nat_digits [of n] by (cases "dec_nat n") auto

lemma dec_nat_hd_minus: "hd (dec_nat n) \<noteq> CHR ''-''"
  using dec_nat_hd [of n] by (auto simp: is_digit_def ord_def)

lemma int_text_dec: "int_text (dec_int i)"
proof (cases "i < 0")
  case True
  then show ?thesis
    using dec_nat_zero [of "nat (- i)"] dec_nat_isdigit [of "nat (- i)"]
    by (simp add: int_text_def dec_int_def Let_def)
next
  case False
  then show ?thesis
    using dec_nat_zero [of "nat i"] dec_nat_hd_minus [of "nat i"] dec_nat_isdigit [of "nat i"]
    by (cases "dec_nat (nat i)") (simp_all add: int_text_def dec_int_def Let_def)
qed

lemma read_int_dec: "read_int (dec_int i) = i"
  using dec_nat_hd_minus by (auto simp: read_int_def dec_int_def)

lemma dec_int_number: "list_all number_char (dec_int i)"
  using dec_nat_digits by (auto simp: dec_int_def list_all_iff number_char_def)

lemma parse_number_int: "follows r \<Longrightarrow> parse_number (dec_int i @ r) = Some (JInt i, r)"
  using take_while_app [of number_char "dec_int i" r] follows_not_number dec_int_number
  by (simp add: parse_number_def int_text_dec read_int_dec)

lemma parse_number_float:
  "wf_json (JFloat t) \<Longrightarrow> follows r \<Longrightarrow> parse_number (t @ r) = Some (JFloat t, r)"
  using take_while_app [of number_char t r] follows_not_number by (simp add: parse_number_def)

text \<open>The first character of a printed value selects its parser and is no space.\<close>

lemma number_start:
  assumes "number_char c"
  shows "c \<notin> {CHR 0x22, CHR ''['', CHR ''{'', CHR ''n'', CHR ''t'', CHR ''f'', CHR '']'', CHR ''}''}"
    and "\<not> json_space c"
  using assms by (auto simp: number_char_def is_digit_def ord_def json_space_def)

lemma parse_value_number:
  assumes "list_all number_char t" and "t \<noteq> []"
  shows "parse_value (Suc fuel) (t @ r) = parse_number (t @ r)"
  using assms number_start [of "hd t"] by (cases t) auto

lemma plain_sel [simp]:
  "ascii plain = False" "item_sep plain = '', ''" "key_sep plain = '': ''"
  by (simp_all add: plain_def)

definition value_start :: "string \<Rightarrow> bool" where
  "value_start s \<longleftrightarrow> s \<noteq> [] \<and> \<not> json_space (hd s) \<and> hd s \<noteq> CHR '']'' \<and> hd s \<noteq> CHR ''}''"

lemma number_value_start:
  assumes "list_all number_char t" and "t \<noteq> []"
  shows "value_start t"
proof -
  have "number_char (hd t)" using assms by (cases t) simp_all
  from number_start [OF this] assms(2) show ?thesis by (simp add: value_start_def)
qed

lemma dumps_start:
  assumes "wf_json v"
  shows "value_start (dumps plain v)"
proof (cases v)
  case (JInt i)
  have "dec_int i \<noteq> []" by (simp add: dec_int_def)
  with JInt show ?thesis using number_value_start [OF dec_int_number] by simp
next
  case (JFloat t)
  with assms show ?thesis using number_value_start by simp
next
  case (JBool b)
  then show ?thesis by (cases b) (simp_all add: value_start_def json_space_def)
qed (simp_all add: value_start_def json_space_def json_string_def Let_def)

lemma skip_id: "\<not> json_space c \<Longrightarrow> skip (c # t) = c # t"
  by (simp add: skip_def)

lemma skip_space: "skip (CHR '' '' # t) = skip t"
  by (simp add: skip_def json_space_def)

lemma skip_dumps: "wf_json v \<Longrightarrow> skip (dumps plain v @ r) = dumps plain v @ r"
  using dumps_start [of v] by (cases "dumps plain v") (simp_all add: skip_id value_start_def)

lemma parse_string_plain:
  "parse_value (Suc fuel) (json_string False s @ r) = Some (JStr s, r)"
  using parse_chars_written [of s r] by (simp add: json_string_def Let_def)

lemma join_cons: "join sep (x # xs) = x @ (if xs = [] then [] else sep @ join sep xs)"
  by (cases xs) simp_all

lemma dumps_lists_Nil [simp]:
  "dumps_list st xs = [] \<longleftrightarrow> xs = []" "dumps_items st ps = [] \<longleftrightarrow> ps = []"
  by (cases xs; simp)+ (cases ps; auto)+

lemma skip_elems: "wf_list xs \<Longrightarrow> xs \<noteq> [] \<Longrightarrow>
    skip (join '', '' (dumps_list plain xs) @ r) = join '', '' (dumps_list plain xs) @ r"
  by (cases xs) (simp_all add: join_cons skip_dumps)

lemma skip_items: "ps \<noteq> [] \<Longrightarrow>
    skip (join '', '' (dumps_items plain ps) @ r) = join '', '' (dumps_items plain ps) @ r"
  by (cases ps) (auto simp: join_cons json_string_def Let_def skip_id json_space_def)

lemma parse_dumps:
  "wf_json v \<Longrightarrow> follows r \<Longrightarrow> parse_value (need v + k) (dumps plain v @ r) = Some (v, r)"
  "wf_list xs \<Longrightarrow> xs \<noteq> [] \<Longrightarrow>
     parse_elems (need_list xs + k) (join '', '' (dumps_list plain xs) @ '']'' @ r) = Some (xs, r)"
  "wf_items ps \<Longrightarrow> ps \<noteq> [] \<Longrightarrow>
     parse_members (need_items ps + k) (join '', '' (dumps_items plain ps) @ ''}'' @ r) = Some (ps, r)"
proof (induction v and xs and ps arbitrary: r k and r k and r k
    rule: need_induct)
  case (arr xs)
  show ?case
  proof (cases xs)
    case Nil
    then show ?thesis by (simp add: skip_def json_space_def)
  next
    case (Cons y ys)
    let ?body = "join '', '' (dumps_list plain xs) @ '']'' @ r"
    have "wf_json y" using arr Cons by simp
    then obtain c t where ct: "dumps plain y = c # t" "\<not> json_space c" "c \<noteq> CHR '']''"
      using dumps_start [of y] by (cases "dumps plain y") (auto simp: value_start_def)
    then obtain u where u: "?body = c # u" using Cons by (simp add: join_cons)
    moreover have "parse_elems (need_list xs + k) (c # u) = Some (xs, r)"
      unfolding u [symmetric] using arr Cons by simp
    ultimately show ?thesis using ct by (simp add: skip_id)
  qed
next
  case (obj ps)
  then have items: "parse_members (need_items ps + k)
      (join '', '' (dumps_items plain ps) @ ''}'' @ r) = Some (ps, r)" if "ps \<noteq> []"
    using that by simp
  have dict: "dict_of ps = ps" using obj by (simp add: dict_of_distinct)
  show ?case
  proof (cases ps)
    case Nil
    then show ?thesis by (simp add: skip_def json_space_def)
  next
    case (Cons p qs)
    let ?body = "join '', '' (dumps_items plain ps) @ ''}'' @ r"
    obtain u where u: "?body = CHR 0x22 # u"
      using Cons by (cases p) (simp add: join_cons json_string_def Let_def)
    with items Cons have "parse_members (need_items ps + k) (CHR 0x22 # u) = Some (ps, r)" by simp
    with u dict show ?thesis by (simp add: skip_id json_space_def)
  qed
next
  case (num i)
  have "parse_value (Suc k) (dec_int i @ r) = parse_number (dec_int i @ r)"
    by (rule parse_value_number [OF dec_int_number]) (simp add: dec_int_def)
  with num show ?case by (simp del: parse_value.simps add: parse_number_int)
next
  case (flt t)
  then have "parse_value (Suc k) (t @ r) = parse_number (t @ r)"
    by (intro parse_value_number) simp_all
  with flt show ?case by (simp del: parse_value.simps wf_json.simps add: parse_number_float)
next
  case (str t)
  show ?case using parse_string_plain by (simp del: parse_value.simps)
next
  case (elems_Cons x xs)
  let ?rest = "if xs = [] then CHR '']'' # r
    else CHR '','' # CHR '' '' # join '', '' (dumps_list plain xs) @ CHR '']'' # r"
  have shape: "join '', '' (dumps_list plain (x # xs)) @ '']'' @ r = dumps plain x @ ?rest"
    by (simp add: join_cons)
  have first: "parse_value (need x + need_list xs + k) (dumps plain x @ ?rest) = Some (x, ?rest)"
    using elems_Cons(1) [of ?rest "need_list xs + k"] elems_Cons(3) by (simp add: follows_def add.assoc)
  have "parse_elems (need x + need_list xs + k)
      (join '', '' (dumps_list plain xs) @ CHR '']'' # r) = Some (xs, r)" if "xs \<noteq> []"
    using elems_Cons(2) [of "need x + k" r] elems_Cons(3) that by (simp add: add_ac)
  with first elems_Cons(3) show ?case
    unfolding shape
    by (simp add: skip_id json_space_def skip_space skip_elems)
next
  case (items_Cons key v ps)
  let ?rest = "if ps = [] then CHR ''}'' # r
    else CHR '','' # CHR '' '' # join '', '' (dumps_items plain ps) @ CHR ''}'' # r"
  have shape: "join '', '' (dumps_items plain ((key, v) # ps)) @ ''}'' @ r =
      json_string False key @ CHR '':'' # CHR '' '' # dumps plain v @ ?rest"
    by (simp add: join_cons)
  have first: "parse_value (need v + need_items ps + k) (dumps plain v @ ?rest) = Some (v, ?rest)"
    using items_Cons(1) [of ?rest "need_items ps + k"] items_Cons(3) by (simp add: follows_def add.assoc)
  have "parse_members (need v + need_items ps + k)
      (join '', '' (dumps_items plain ps) @ CHR ''}'' # r) = Some (ps, r)" if "ps \<noteq> []"
    using items_Cons(2) [of "need v + k" r] items_Cons(3) that by (simp add: add_ac)
  with first items_Cons(3) show ?case
    unfolding shape
    by (simp add: json_string_def Let_def parse_chars_written skip_id json_space_def skip_space
        skip_items skip_dumps)
qed (simp_all add: literal_def)

lemma need_length:
  "wf_json v \<Longrightarrow> need v \<le> length (dumps plain v)"
  "wf_list xs \<Longrightarrow> need_list xs \<le> length (join '', '' (dumps_list plain xs)) + 1"
  "wf_items ps \<Longrightarrow> need_items ps \<le> length (join '', '' (dumps_items plain ps)) + 1"
proof (induction v and xs and ps rule: need_induct)
  case (num i)
  show ?case by (simp add: dec_int_def Suc_le_eq)
next
  case (flt t)
  then show ?case by (simp add: Suc_le_eq)
next
  case (elems_Cons x xs)
  then show ?case by (cases xs) (simp_all add: join_cons)
next
  case (items_Cons k v ps)
  then show ?case by (cases ps) (simp_all add: join_cons)
qed (simp_all add: json_string_def Let_def)

lemma loads_dumps: "wf_json v \<Longrightarrow> loads (dumps plain v) = Inr v"
  using parse_dumps(1) [of v "[]" "Suc (length (dumps plain v)) - need v"] need_length(1) [of v]
    skip_dumps [of v "[]"]
  by (simp add: loads_def follows_def skip_def)

end
