(* ===== verification/Extract.thy ===== *)
theory Extract
  imports Targets
begin

text \<open>
  Row extraction (\<^verbatim>\<open>workers/extract.py\<close>).  The HTML parser and the browser page are
  parameters: a document is a set of nodes with CSS selection, text and attributes.
\<close>

definition split_attr :: "string \<Rightarrow> exn + string \<times> string" where
  "split_attr expr =
     (let (selector, _, attr) = rpartition_at (CHR ''@'') expr in
      if selector = []
      then Inl (ValueError (''attribute selector must be 'css@attr', got '' @ repr_string expr))
      else Inr (selector, attr))"

definition columns :: "target_spec \<Rightarrow> string list" where
  "columns spec = dict_keys (ex_fields (t_extraction spec)) @ dict_keys (ex_attributes (t_extraction spec))"

subsection \<open>Documents\<close>

text \<open>The operations of the HTML library, and \<open>urljoin\<close>.\<close>

record 'n html =
  h_select :: "'n \<Rightarrow> string \<Rightarrow> 'n list"
  h_text :: "'n \<Rightarrow> string"
  h_attr :: "'n \<Rightarrow> string \<Rightarrow> string option"

definition first_of :: "'n list \<Rightarrow> 'n option" where
  "first_of ns = (case ns of [] \<Rightarrow> None | n # _ \<Rightarrow> Some n)"

definition json_opt :: "string option \<Rightarrow> json" where
  "json_opt s = (case s of None \<Rightarrow> JNull | Some t \<Rightarrow> JStr t)"

definition field_cell :: "'n html \<Rightarrow> 'n \<Rightarrow> string \<Rightarrow> json" where
  "field_cell H node selector =
     json_opt (map_option (\<lambda>n. strip (h_text H n)) (first_of (h_select H node selector)))"

definition attr_cell ::
  "'n html \<Rightarrow> (string \<Rightarrow> string \<Rightarrow> string) \<Rightarrow> string \<Rightarrow> 'n \<Rightarrow> string \<Rightarrow> exn + json" where
  "attr_cell H urljoin page_url node expr =
     bindE (split_attr expr) (\<lambda>(selector, attr).
       let value = Option.bind (first_of (h_select H node selector)) (\<lambda>n. h_attr H n attr)
       in Inr (json_opt (case value of
            Some v \<Rightarrow> if v \<noteq> [] \<and> attr = ''href'' then Some (urljoin page_url v) else Some v
          | None \<Rightarrow> None)))"

fun put_fields :: "('a \<Rightarrow> json) \<Rightarrow> (string \<times> 'a) list \<Rightarrow> row \<Rightarrow> row" where
  "put_fields f [] row = row"
| "put_fields f ((name, x) # ps) row = put_fields f ps (dict_put name (f x) row)"

fun put_attrs :: "('a \<Rightarrow> exn + json) \<Rightarrow> (string \<times> 'a) list \<Rightarrow> row \<Rightarrow> exn + row" where
  "put_attrs f [] row = Inr row"
| "put_attrs f ((name, x) # ps) row = bindE (f x) (\<lambda>v. put_attrs f ps (dict_put name v row))"

definition rows_from_html ::
  "'n html \<Rightarrow> (string \<Rightarrow> string \<Rightarrow> string) \<Rightarrow> 'n \<Rightarrow> target_spec \<Rightarrow> string \<Rightarrow> exn + row list" where
  "rows_from_html H urljoin tree spec page_url =
     mapE (\<lambda>node.
         put_attrs (attr_cell H urljoin page_url node) (ex_attributes (t_extraction spec))
           (put_fields (field_cell H node) (ex_fields (t_extraction spec)) []))
       (h_select H tree (ex_row_selector (t_extraction spec)))"

text \<open>
  The rows a browser page evaluates to come back with raw attribute values; links are made
  absolute afterwards.
\<close>

fun absolutise :: "(string \<Rightarrow> string \<Rightarrow> string) \<Rightarrow> string \<Rightarrow> (string \<times> string) list \<Rightarrow> row \<Rightarrow> row" where
  "absolutise urljoin url [] row = row"
| "absolutise urljoin url ((name, expr) # ps) row =
     absolutise urljoin url ps
       (if ends_with ''@href'' expr then
          (case map_of row name of
             Some v \<Rightarrow> if truthy v then dict_put name (JStr (urljoin url (py_str v))) row else row
           | None \<Rightarrow> row)
        else row)"

definition rows_from_page ::
  "(string \<Rightarrow> string \<Rightarrow> string) \<Rightarrow> row list \<Rightarrow> target_spec \<Rightarrow> string \<Rightarrow> row list" where
  "rows_from_page urljoin raw spec page_url =
     map (absolutise urljoin page_url (ex_attributes (t_extraction spec))) raw"

subsection \<open>JSON payloads\<close>

fun dotted_step :: "json \<Rightarrow> string \<Rightarrow> json" where
  "dotted_step (JArr xs) part =
     (if \<not> str_isdigit part \<or> length xs \<le> undec part then JNull else xs ! undec part)"
| "dotted_step (JObj ps) part = (case map_of ps part of None \<Rightarrow> JNull | Some v \<Rightarrow> v)"
| "dotted_step _ part = JNull"

definition dotted :: "json \<Rightarrow> string \<Rightarrow> json" where
  "dotted obj path = foldl dotted_step obj (split_on (CHR ''.'') path)"

definition rows_from_json :: "json \<Rightarrow> target_spec \<Rightarrow> row list" where
  "rows_from_json payload spec =
     (case dotted payload (ex_row_selector (t_extraction spec)) of
        JArr items \<Rightarrow>
          map (\<lambda>item. map (\<lambda>(name, path). (name, dotted item path)) (ex_fields (t_extraction spec)))
            items
      | _ \<Rightarrow> [])"

subsection \<open>Row identity\<close>

definition cell_str :: "row \<Rightarrow> string \<Rightarrow> string" where
  "cell_str row k =
     (case map_of row k of Some v \<Rightarrow> if truthy v then py_str v else [] | None \<Rightarrow> [])"

definition identity_keys :: "row \<Rightarrow> target_spec \<Rightarrow> string list" where
  "identity_keys row spec =
     (if ex_row_key (t_extraction spec) \<noteq> [] then ex_row_key (t_extraction spec)
      else sort (dict_keys row))"

definition row_identity :: "row \<Rightarrow> target_spec \<Rightarrow> string" where
  "row_identity row spec = join ''|'' (map (cell_str row) (identity_keys row spec))"

subsection \<open>Lemmas\<close>

lemma dotted_null [simp]: "foldl dotted_step JNull ps = JNull"
  by (induction ps) simp_all

lemma keys_put_fields:
  "set (dict_keys (put_fields f ps row)) = set (dict_keys ps) \<union> set (dict_keys row)"
  by (induction f ps row rule: put_fields.induct) auto

lemma keys_put_attrs:
  "put_attrs f ps row = Inr row' \<Longrightarrow>
     set (dict_keys row') = set (dict_keys ps) \<union> set (dict_keys row)"
proof (induction f ps row rule: put_attrs.induct)
  case (2 f name x ps row)
  then obtain v where v: "f x = Inr v" "put_attrs f ps (dict_put name v row) = Inr row'"
    by (auto simp: bindE_Inr_iff)
  from "2.IH" [OF v(2)] show ?case by simp
qed simp

lemma mapE_Inr_elem: "mapE f xs = Inr ys \<Longrightarrow> y \<in> set ys \<Longrightarrow> \<exists>x \<in> set xs. f x = Inr y"
  by (induction xs arbitrary: ys) (auto simp: bindE_Inr_iff)

lemma split_attr_Inr:
  "split_attr (s @ CHR ''@'' # a) = (if s = []
     then Inl (ValueError (''attribute selector must be 'css@attr', got '' @ repr_string (CHR ''@'' # a)))
     else Inr (s, a))" if "CHR ''@'' \<notin> set a"
  using that by (simp add: split_attr_def rpartition_at_def)

lemma row_identity_keyed:
  "ex_row_key (t_extraction spec) \<noteq> [] \<Longrightarrow>
     row_identity row spec = join ''|'' (map (cell_str row) (ex_row_key (t_extraction spec)))"
  by (simp add: row_identity_def identity_keys_def)

text \<open>Apart from the separator, identity is agreement of the key columns as text.\<close>

lemma row_identity_eq:
  assumes key: "ex_row_key (t_extraction spec) \<noteq> []"
    and sep: "\<And>k. k \<in> set (ex_row_key (t_extraction spec)) \<Longrightarrow>
      CHR ''|'' \<notin> set (cell_str r k) \<and> CHR ''|'' \<notin> set (cell_str s k)"
  shows "row_identity r spec = row_identity s spec \<longleftrightarrow>
    (\<forall>k \<in> set (ex_row_key (t_extraction spec)). cell_str r k = cell_str s k)"
proof -
  let ?ks = "ex_row_key (t_extraction spec)"
  have "split_on (CHR ''|'') (join ''|'' (map (cell_str x) ?ks)) = map (cell_str x) ?ks"
    if "\<And>k. k \<in> set ?ks \<Longrightarrow> CHR ''|'' \<notin> set (cell_str x k)" for x
    using that key by (intro split_on_join) auto
  from this [of r] this [of s] sep
  have "join ''|'' (map (cell_str r) ?ks) = join ''|'' (map (cell_str s) ?ks) \<longleftrightarrow>
      map (cell_str r) ?ks = map (cell_str s) ?ks" by metis
  then show ?thesis by (simp add: row_identity_keyed [OF key])
qed

end
