(* ===== verification/Csv.thy ===== *)
theory Csv
  imports Extract
begin

text \<open>
  The CSV writer of \<^verbatim>\<open>pipeline/export.py\<close>: the standard library's \<^verbatim>\<open>csv.DictWriter\<close>
  in its default dialect (comma, double quote, minimal quoting, CRLF).  \<open>read_csv\<close> is a
  reader of that dialect; writing and reading gives the cells back as text.
\<close>

definition csv_text :: "row \<Rightarrow> string \<Rightarrow> string" where
  "csv_text row col =
     (case map_of row col of None \<Rightarrow> [] | Some JNull \<Rightarrow> [] | Some v \<Rightarrow> py_str v)"

definition csv_special :: "char \<Rightarrow> bool" where
  "csv_special c \<longleftrightarrow> c \<in> {CHR '','', CHR 0x22, CHR 0x0D, CHR 0x0A}"

definition double_quote :: "string \<Rightarrow> string" where
  "double_quote s = concat (map (\<lambda>c. if c = CHR 0x22 then [c, c] else [c]) s)"

text \<open>A row of one empty field is quoted, so that it is not an empty line.\<close>

definition csv_field :: "bool \<Rightarrow> string \<Rightarrow> string" where
  "csv_field only s =
     (if list_ex csv_special s \<or> (only \<and> s = [])
      then [CHR 0x22] @ double_quote s @ [CHR 0x22] else s)"

definition csv_line :: "string list \<Rightarrow> string" where
  "csv_line fs = join '','' (map (csv_field (length fs = 1)) fs) @ [CHR 0x0D, CHR 0x0A]"

definition to_csv :: "row list \<Rightarrow> string list \<Rightarrow> string" where
  "to_csv rows header =
     csv_line header @ concat (map (\<lambda>row. csv_line (map (csv_text row) header)) rows)"

subsection \<open>A reader of the dialect\<close>

text \<open>The state between characters: at the start of a field, inside one, inside quotes, or
  after a quote inside quotes.\<close>

datatype csv_mode = FieldStart | Plain | Quoted | QuoteSeen

fun read_loop :: "csv_mode \<Rightarrow> string \<Rightarrow> string list \<Rightarrow> string \<Rightarrow> string list list" where
  "read_loop m cur fs [] = (if m = FieldStart \<and> fs = [] then [] else [fs @ [cur]])"
| "read_loop Quoted cur fs (c # s) =
     (if c = CHR 0x22 then read_loop QuoteSeen cur fs s else read_loop Quoted (cur @ [c]) fs s)"
| "read_loop QuoteSeen cur fs (c # s) =
     (if c = CHR 0x22 then read_loop Quoted (cur @ [c]) fs s
      else if c = CHR '','' then read_loop FieldStart [] (fs @ [cur]) s
      else if c = CHR 0x0A then (fs @ [cur]) # read_loop FieldStart [] [] s
      else read_loop QuoteSeen cur fs s)"
| "read_loop m cur fs (c # s) =
     (if m = FieldStart \<and> c = CHR 0x22 then read_loop Quoted [] fs s
      else if c = CHR '','' then read_loop FieldStart [] (fs @ [cur]) s
      else if c = CHR 0x0A then (fs @ [cur]) # read_loop FieldStart [] [] s
      else if c = CHR 0x0D then read_loop Plain cur fs s
      else read_loop Plain (cur @ [c]) fs s)"

definition read_csv :: "string \<Rightarrow> string list list" where
  "read_csv s = read_loop FieldStart [] [] s"

subsection \<open>Reading back\<close>

lemma read_quoted:
  "read_loop Quoted cur fs (double_quote s @ CHR 0x22 # t) = read_loop QuoteSeen (cur @ s) fs t"
proof (induction s arbitrary: cur)
  case Nil
  then show ?case by (simp add: double_quote_def)
next
  case (Cons c s)
  then have "read_loop Quoted (cur @ [c]) fs (double_quote s @ CHR 0x22 # t) =
      read_loop QuoteSeen (cur @ c # s) fs t" by simp
  then show ?case by (cases "c = CHR 0x22") (simp_all add: double_quote_def)
qed

lemma read_plain:
  "\<not> list_ex csv_special s \<Longrightarrow> read_loop Plain cur fs (s @ t) = read_loop Plain (cur @ s) fs t"
proof (induction s arbitrary: cur)
  case (Cons c s)
  then have "read_loop Plain (cur @ [c]) fs (s @ t) = read_loop Plain (cur @ c # s) fs t" by simp
  then show ?case using Cons.prems by (simp add: csv_special_def)
qed simp

lemma read_field_comma:
  "read_loop FieldStart [] fs (csv_field only f @ CHR '','' # t) =
     read_loop FieldStart [] (fs @ [f]) t"
proof (cases "list_ex csv_special f \<or> (only \<and> f = [])")
  case True
  then show ?thesis by (simp add: csv_field_def read_quoted)
next
  case False
  then show ?thesis
    by (cases f) (simp_all add: csv_field_def csv_special_def read_plain)
qed

lemma read_field_end:
  "read_loop FieldStart [] fs (csv_field only f @ CHR 0x0D # CHR 0x0A # t) =
     (fs @ [f]) # read_loop FieldStart [] [] t"
proof (cases "list_ex csv_special f \<or> (only \<and> f = [])")
  case True
  then show ?thesis by (simp add: csv_field_def read_quoted)
next
  case False
  then show ?thesis
    by (cases f) (simp_all add: csv_field_def csv_special_def read_plain)
qed

lemma read_fields:
  "cells \<noteq> [] \<Longrightarrow>
     read_loop FieldStart [] fs (join '','' (map (csv_field only) cells) @ CHR 0x0D # CHR 0x0A # t)
       = (fs @ cells) # read_loop FieldStart [] [] t"
proof (induction cells arbitrary: fs)
  case (Cons f cells)
  show ?case
  proof (cases cells)
    case Nil
    then show ?thesis by (simp add: read_field_end)
  next
    case (Cons g gs)
    then show ?thesis using Cons.IH [of "fs @ [f]"] by (simp add: read_field_comma)
  qed
qed simp

lemma read_line:
  "cells \<noteq> [] \<Longrightarrow> read_csv (csv_line cells @ t) = cells # read_csv t"
  using read_fields [of cells "[]" _ t] by (simp add: read_csv_def csv_line_def)

lemma read_lines:
  "\<forall>fs \<in> set lines. fs \<noteq> [] \<Longrightarrow> read_csv (concat (map csv_line lines)) = lines"
proof (induction lines)
  case Nil
  show ?case by (simp add: read_csv_def)
next
  case (Cons l lines)
  then show ?case by (simp add: read_line)
qed

lemma read_to_csv:
  "header \<noteq> [] \<Longrightarrow> read_csv (to_csv rows header) = header # map (\<lambda>row. map (csv_text row) header) rows"
  using read_lines [of "map (\<lambda>row. map (csv_text row) header) rows"]
  by (simp add: to_csv_def read_line comp_def)

text \<open>
  C40. The CSV of the result, read by a CSV reader, is the header and one record per row with
  the text of its cells, quotes, commas and line breaks in them included.
\<close>

theorem csv_round_trip:
  assumes "header \<noteq> []"
  shows "read_csv (to_csv rows header) = header # map (\<lambda>row. map (csv_text row) header) rows"
  using assms by (rule read_to_csv)

theorem csv_round_trip_witness:
  "read_csv (to_csv [[(''id'', JStr ''a,b''), (''title'', JStr [CHR 0x22, CHR 0x0A])], [(''id'', JInt 2)]] [''id'', ''title''])
     = [[''id'', ''title''], [''a,b'', [CHR 0x22, CHR 0x0A]], [''2'', []]]"
proof -
  have "map (\<lambda>row. map (csv_text row) [''id'', ''title''])
      [[(''id'', JStr ''a,b''), (''title'', JStr [CHR 0x22, CHR 0x0A])], [(''id'', JInt 2)]]
    = [[''a,b'', [CHR 0x22, CHR 0x0A]], [''2'', []]]" by code_simp
  with csv_round_trip [of "[''id'', ''title'']"] show ?thesis by simp
qed

end
