(* ===== verification/Dedupe.thy ===== *)
theory Dedupe
  imports Extract Store
begin

text \<open>
  \<^verbatim>\<open>pipeline/dedupe.py\<close> and \<^verbatim>\<open>core/idempotency.py\<close>: deduplication on the declared key,
  the difference against the stored snapshot, and the snapshot's update.  The digest function is
  a parameter.
\<close>

type_synonym digest = "string \<Rightarrow> string"

definition fingerprint :: "digest \<Rightarrow> (string, json) dict \<Rightarrow> string" where
  "fingerprint sha payload = sha (canonical (JObj payload))"

definition row_hash :: "digest \<Rightarrow> row \<Rightarrow> string" where
  "row_hash sha row = sha (canonical (JObj row))"

record dedupe_result =
  kept_rows :: "row list"
  duplicates :: nat

fun dedupe_loop :: "target_spec \<Rightarrow> row list \<Rightarrow> string list \<Rightarrow> row list \<Rightarrow> nat \<Rightarrow> dedupe_result" where
  "dedupe_loop spec [] seen kept dups = \<lparr>kept_rows = kept, duplicates = dups\<rparr>"
| "dedupe_loop spec (row # rows) seen kept dups =
     (let ident = row_identity row spec in
      if ident \<in> set seen then dedupe_loop spec rows seen kept (dups + 1)
      else dedupe_loop spec rows (ident # seen) (kept @ [row]) dups)"

definition dedupe :: "row list \<Rightarrow> target_spec \<Rightarrow> dedupe_result" where
  "dedupe rows spec =
     (if ex_row_key (t_extraction spec) = [] then \<lparr>kept_rows = rows, duplicates = 0\<rparr>
      else dedupe_loop spec rows [] [] 0)"

record diff =
  added :: "row list"
  changed :: "row list"
  removed_keys :: "string list"

definition diff_rows :: "diff \<Rightarrow> row list" where
  "diff_rows d = added d @ changed d"

definition stored_hashes :: "db \<Rightarrow> string \<Rightarrow> (string, string) dict" where
  "stored_hashes db name =
     dict_of (map (\<lambda>s. (s_row_key s, s_content_hash s))
       (filter (\<lambda>s. s_target s = name) (target_snapshots db)))"

fun diff_loop ::
  "digest \<Rightarrow> target_spec \<Rightarrow> (string, string) dict \<Rightarrow> row list \<Rightarrow> string list \<Rightarrow> diff
    \<Rightarrow> string list \<times> diff" where
  "diff_loop sha spec stored [] seen d = (seen, d)"
| "diff_loop sha spec stored (row # rows) seen d =
     (let key = row_identity row spec in
      case map_of stored key of
        None \<Rightarrow> diff_loop sha spec stored rows (key # seen) (d\<lparr>added := added d @ [row]\<rparr>)
      | Some previous \<Rightarrow>
          if previous \<noteq> row_hash sha row
          then diff_loop sha spec stored rows (key # seen) (d\<lparr>changed := changed d @ [row]\<rparr>)
          else diff_loop sha spec stored rows (key # seen) d)"

definition diff_against_snapshot :: "digest \<Rightarrow> db \<Rightarrow> target_spec \<Rightarrow> row list \<Rightarrow> diff" where
  "diff_against_snapshot sha db spec rows =
     (let stored = stored_hashes db (t_name spec);
          (seen, d) = diff_loop sha spec stored rows []
            \<lparr>added = [], changed = [], removed_keys = []\<rparr>
      in d\<lparr>removed_keys := sort (filter (\<lambda>k. k \<notin> set seen) (dict_keys stored))\<rparr>)"

text \<open>
  One statement inserts all rows.  A row that conflicts with a stored one updates it; two
  proposed rows with one key are an error of the statement, as is a value longer than its column
  or a job that does not exist.
\<close>

definition snapshot_row :: "digest \<Rightarrow> datetime \<Rightarrow> target_spec \<Rightarrow> uuid \<Rightarrow> row \<Rightarrow> target_snapshot" where
  "snapshot_row sha now spec i row =
     \<lparr>s_target = t_name spec, s_row_key = row_identity row spec,
      s_content_hash = row_hash sha row, s_job_id = Some i, s_seen_at = now\<rparr>"

definition upsert_snapshot :: "target_snapshot \<Rightarrow> target_snapshot list \<Rightarrow> target_snapshot list" where
  "upsert_snapshot x ss =
     (if \<exists>s \<in> set ss. s_target s = s_target x \<and> s_row_key s = s_row_key x
      then map (\<lambda>s. if s_target s = s_target x \<and> s_row_key s = s_row_key x
             then s\<lparr>s_content_hash := s_content_hash x, s_job_id := s_job_id x\<rparr> else s) ss
      else ss @ [x])"

definition snapshot_too_long :: "target_snapshot \<Rightarrow> bool" where
  "snapshot_too_long s \<longleftrightarrow> 64 < length (s_target s) \<or> 128 < length (s_row_key s)
     \<or> 64 < length (s_content_hash s)"

definition store_snapshot ::
  "digest \<Rightarrow> datetime \<Rightarrow> db \<Rightarrow> target_spec \<Rightarrow> row list \<Rightarrow> uuid \<Rightarrow> exn + db" where
  "store_snapshot sha now db spec rows i =
     (if rows = [] then Inr db
      else
        let values = map (snapshot_row sha now spec i) rows in
        if list_ex snapshot_too_long values
        then Inl (DataError ''value too long for type character varying'')
        else if \<not> distinct (map s_row_key values) then Inl CardinalityViolation
        else if get_job db i = None
        then Inl (IntegrityError ''target_snapshots_job_id_fkey'')
        else Inr (db\<lparr>target_snapshots := fold upsert_snapshot values (target_snapshots db)\<rparr>))"

subsection \<open>Deduplication\<close>

text \<open>The first row of every identity, in order.\<close>

fun firsts :: "('a \<Rightarrow> 'b) \<Rightarrow> 'a list \<Rightarrow> 'b set \<Rightarrow> 'a list" where
  "firsts f [] seen = []"
| "firsts f (x # xs) seen =
     (if f x \<in> seen then firsts f xs seen else x # firsts f xs (insert (f x) seen))"

lemma dedupe_loop_firsts:
  "dedupe_loop spec rows seen kept dups =
     (let fs = firsts (\<lambda>r. row_identity r spec) rows (set seen) in
      \<lparr>kept_rows = kept @ fs, duplicates = dups + (length rows - length fs)\<rparr>)"
proof (induction spec rows seen kept dups rule: dedupe_loop.induct)
  case (2 spec row rows seen kept dups)
  have "length (firsts f xs s) \<le> length xs" for f :: "row \<Rightarrow> string" and xs s
    by (induction f xs s rule: firsts.induct) auto
  with 2 show ?case by (simp add: Let_def Suc_diff_le)
qed simp

lemma firsts_props:
  "distinct (map f (firsts f xs seen))" "f ` set (firsts f xs seen) = f ` set xs - seen"
  "subseq (firsts f xs seen) xs"
proof -
  have "distinct (map f (firsts f xs seen)) \<and> f ` set (firsts f xs seen) = f ` set xs - seen
    \<and> subseq (firsts f xs seen) xs"
    by (induction f xs seen rule: firsts.induct) auto
  then show "distinct (map f (firsts f xs seen))" "f ` set (firsts f xs seen) = f ` set xs - seen"
    "subseq (firsts f xs seen) xs" by auto
qed

lemma firsts_distinct: "distinct (map f xs) \<Longrightarrow> f ` set xs \<inter> seen = {} \<Longrightarrow> firsts f xs seen = xs"
  by (induction f xs seen rule: firsts.induct) auto

lemma dedupe_keyed:
  "ex_row_key (t_extraction spec) \<noteq> [] \<Longrightarrow>
     kept_rows (dedupe rows spec) = firsts (\<lambda>r. row_identity r spec) rows {}"
  "ex_row_key (t_extraction spec) \<noteq> [] \<Longrightarrow>
     duplicates (dedupe rows spec) = length rows - length (kept_rows (dedupe rows spec))"
  by (simp_all add: dedupe_def dedupe_loop_firsts Let_def)

subsection \<open>The difference\<close>

lemma diff_loop_result:
  "diff_loop sha spec stored rows seen d =
     (rev (map (\<lambda>r. row_identity r spec) rows) @ seen,
      d\<lparr>added := added d @ filter (\<lambda>r. map_of stored (row_identity r spec) = None) rows,
        changed := changed d @ filter (\<lambda>r. map_of stored (row_identity r spec) \<notin>
          {None, Some (row_hash sha r)}) rows\<rparr>)"
  by (induction sha spec stored rows seen d rule: diff_loop.induct)
     (auto simp: Let_def split: option.split)

lemma diff_fields:
  assumes "stored = stored_hashes db (t_name spec)"
  shows "added (diff_against_snapshot sha db spec rows) =
      filter (\<lambda>r. map_of stored (row_identity r spec) = None) rows"
    and "changed (diff_against_snapshot sha db spec rows) =
      filter (\<lambda>r. map_of stored (row_identity r spec) \<notin> {None, Some (row_hash sha r)}) rows"
    and "removed_keys (diff_against_snapshot sha db spec rows) =
      sort (filter (\<lambda>k. k \<notin> (\<lambda>r. row_identity r spec) ` set rows) (dict_keys stored))"
  using assms by (simp_all add: diff_against_snapshot_def diff_loop_result Let_def)

subsection \<open>The snapshot\<close>

definition snapshots_ok :: "db \<Rightarrow> bool" where
  "snapshots_ok db \<longleftrightarrow> distinct (map (\<lambda>s. (s_target s, s_row_key s)) (target_snapshots db))"

definition hash_at :: "target_snapshot list \<Rightarrow> string \<Rightarrow> string \<Rightarrow> string option" where
  "hash_at ss t k =
     map_option s_content_hash (List.find (\<lambda>s. s_target s = t \<and> s_row_key s = k) ss)"

lemma hash_at_simps [simp]:
  "hash_at [] t k = None"
  "hash_at (s # ss) t k =
     (if s_target s = t \<and> s_row_key s = k then Some (s_content_hash s) else hash_at ss t k)"
  by (simp_all add: hash_at_def)

lemma snapshot_row_sel [simp]:
  "s_target (snapshot_row sha now spec i r) = t_name spec"
  "s_row_key (snapshot_row sha now spec i r) = row_identity r spec"
  "s_content_hash (snapshot_row sha now spec i r) = row_hash sha r"
  by (simp_all add: snapshot_row_def)

lemma stored_hashes_eq:
  assumes "snapshots_ok db"
  shows "map_of (stored_hashes db t) k = hash_at (target_snapshots db) t k"
proof -
  let ?f = "\<lambda>s. (s_row_key s, s_content_hash s)" and ?ss = "target_snapshots db"
  have keys: "distinct (map s_row_key (filter (\<lambda>s. s_target s = t) ss))"
    if "distinct (map (\<lambda>s. (s_target s, s_row_key s)) ss)" for ss
    using that by (induction ss) (auto simp: image_iff)
  have "stored_hashes db t = map ?f (filter (\<lambda>s. s_target s = t) ?ss)"
    unfolding stored_hashes_def
    using keys [of ?ss] assms by (intro dict_of_distinct) (simp add: snapshots_ok_def comp_def)
  moreover have "map_of (map ?f (filter (\<lambda>s. s_target s = t) ss)) k = hash_at ss t k" for ss
    by (induction ss) auto
  ultimately show ?thesis by simp
qed

lemma upsert_keys:
  "map (\<lambda>s. (s_target s, s_row_key s)) (upsert_snapshot x ss) =
     map (\<lambda>s. (s_target s, s_row_key s)) ss
       @ (if \<exists>s \<in> set ss. s_target s = s_target x \<and> s_row_key s = s_row_key x then []
          else [(s_target x, s_row_key x)])"
  by (auto simp: upsert_snapshot_def)

lemma hash_at_upsert:
  "hash_at (upsert_snapshot x ss) t k =
     (if s_target x = t \<and> s_row_key x = k then Some (s_content_hash x) else hash_at ss t k)"
proof (cases "\<exists>s \<in> set ss. s_target s = s_target x \<and> s_row_key s = s_row_key x")
  case True
  have "hash_at (map (\<lambda>s. if s_target s = s_target x \<and> s_row_key s = s_row_key x
      then s\<lparr>s_content_hash := s_content_hash x, s_job_id := s_job_id x\<rparr> else s) ss) t k =
    (if s_target x = t \<and> s_row_key x = k \<and> (\<exists>s \<in> set ss. s_target s = t \<and> s_row_key s = k)
     then Some (s_content_hash x) else hash_at ss t k)"
    by (induction ss) auto
  with True show ?thesis by (auto simp: upsert_snapshot_def)
next
  case False
  then have "hash_at ss (s_target x) (s_row_key x) = None"
    by (auto simp: hash_at_def find_None_iff')
  with False show ?thesis
    by (auto simp: upsert_snapshot_def hash_at_def find_append split: option.split)
qed

lemma upsert_ok:
  "distinct (map (\<lambda>s. (s_target s, s_row_key s)) ss) \<Longrightarrow>
     distinct (map (\<lambda>s. (s_target s, s_row_key s)) (upsert_snapshot x ss))"
  by (auto simp: upsert_keys)

lemma fold_upsert_ok:
  "distinct (map (\<lambda>s. (s_target s, s_row_key s)) ss) \<Longrightarrow>
     distinct (map (\<lambda>s. (s_target s, s_row_key s)) (fold upsert_snapshot xs ss))"
  by (induction xs arbitrary: ss) (simp_all add: upsert_ok)

lemma hash_at_fold_other:
  "(\<forall>x \<in> set xs. s_target x \<noteq> t \<or> s_row_key x \<noteq> k) \<Longrightarrow>
     hash_at (fold upsert_snapshot xs ss) t k = hash_at ss t k"
  by (induction xs arbitrary: ss) (auto simp: hash_at_upsert)

lemma hash_at_fold_in:
  assumes "x \<in> set xs" and "distinct (map s_row_key xs)"
  shows "hash_at (fold upsert_snapshot xs ss) (s_target x) (s_row_key x) = Some (s_content_hash x)"
  using assms
proof (induction xs arbitrary: ss)
  case (Cons y ys)
  show ?case
  proof (cases "x = y")
    case True
    with Cons.prems(2) have "\<forall>z \<in> set ys. s_row_key z \<noteq> s_row_key x"
      by (metis distinct.simps(2) imageI list.set_map list.simps(9))
    then show ?thesis using True by (simp add: hash_at_fold_other hash_at_upsert)
  qed (use Cons in simp)
qed simp

lemma store_snapshot_Inr:
  assumes "store_snapshot sha now db spec rows i = Inr db'"
  shows "db' = db\<lparr>target_snapshots :=
           fold upsert_snapshot (map (snapshot_row sha now spec i) rows) (target_snapshots db)\<rparr>"
    and "distinct (map (\<lambda>r. row_identity r spec) rows)"
proof -
  have "map s_row_key (map (snapshot_row sha now spec i) rows) = map (\<lambda>r. row_identity r spec) rows"
    by simp
  with assms show "db' = db\<lparr>target_snapshots :=
           fold upsert_snapshot (map (snapshot_row sha now spec i) rows) (target_snapshots db)\<rparr>"
    "distinct (map (\<lambda>r. row_identity r spec) rows)"
    by (auto simp: store_snapshot_def Let_def comp_def split: if_splits)
qed

lemma store_snapshot_hashes:
  assumes store: "store_snapshot sha now db spec rows i = Inr db'" and ok: "snapshots_ok db"
  shows "snapshots_ok db'"
    and "r \<in> set rows \<Longrightarrow>
      map_of (stored_hashes db' (t_name spec)) (row_identity r spec) = Some (row_hash sha r)"
    and "k \<notin> (\<lambda>r. row_identity r spec) ` set rows \<or> t \<noteq> t_name spec \<Longrightarrow>
      map_of (stored_hashes db' t) k = map_of (stored_hashes db t) k"
proof -
  note eff = store_snapshot_Inr [OF store]
  show ok': "snapshots_ok db'" using ok fold_upsert_ok by (simp add: snapshots_ok_def eff(1))
  have dist: "distinct (map s_row_key (map (snapshot_row sha now spec i) rows))"
    using eff(2) by (simp add: comp_def)
  show "map_of (stored_hashes db' (t_name spec)) (row_identity r spec) = Some (row_hash sha r)"
    if "r \<in> set rows"
    using hash_at_fold_in [OF _ dist, of "snapshot_row sha now spec i r"] that
    unfolding stored_hashes_eq [OF ok'] by (simp add: eff(1))
  show "map_of (stored_hashes db' t) k = map_of (stored_hashes db t) k"
    if "k \<notin> (\<lambda>r. row_identity r spec) ` set rows \<or> t \<noteq> t_name spec"
    unfolding stored_hashes_eq [OF ok'] stored_hashes_eq [OF ok]
    using that by (simp add: eff(1)) (subst hash_at_fold_other, auto)
qed

lemma firsts_first:
  "x \<in> set (firsts f xs seen) \<Longrightarrow> f x \<notin> seen \<and> (\<exists>ys zs. xs = ys @ x # zs \<and> f x \<notin> f ` set ys)"
proof (induction f xs seen rule: firsts.induct)
  case (2 f y ys seen)
  show ?case
  proof (cases "f y \<in> seen")
    case True
    with 2 obtain as bs where "f x \<notin> seen" "ys = as @ x # bs" "f x \<notin> f ` set as" by auto
    with True show ?thesis by (intro conjI exI [of _ "y # as"] exI [of _ bs]) auto
  next
    case False
    then consider "x = y" | "x \<in> set (firsts f ys (insert (f y) seen))" using 2(3) by auto
    then show ?thesis
    proof cases
      case 1
      with False show ?thesis by (intro conjI exI [of _ "[]"] exI [of _ ys]) auto
    next
      case later: 2
      with 2(2) [OF False] obtain as bs
        where "f x \<notin> insert (f y) seen" "ys = as @ x # bs" "f x \<notin> f ` set as" by auto
      then show ?thesis by (intro conjI exI [of _ "y # as"] exI [of _ bs]) auto
    qed
  qed
qed simp

text \<open>
  C33. With a row key, deduplication keeps exactly the first row of every identity, in order,
  counts the others, and does nothing the second time.
\<close>

theorem dedupe_keeps_firsts:
  assumes key: "ex_row_key (t_extraction spec) \<noteq> []" and kept: "kept = kept_rows (dedupe rows spec)"
  shows "distinct (map (\<lambda>r. row_identity r spec) kept)
    \<and> (\<lambda>r. row_identity r spec) ` set kept = (\<lambda>r. row_identity r spec) ` set rows
    \<and> subseq kept rows \<and> duplicates (dedupe rows spec) + length kept = length rows
    \<and> (\<forall>r \<in> set kept. \<exists>xs ys. rows = xs @ r # ys
          \<and> row_identity r spec \<notin> (\<lambda>r. row_identity r spec) ` set xs)
    \<and> kept_rows (dedupe kept spec) = kept"
proof -
  let ?id = "\<lambda>r. row_identity r spec"
  have k: "kept = firsts ?id rows {}" using dedupe_keyed(1) [OF key] kept by simp
  note props = firsts_props [of ?id rows "{}", folded k]
  have "length kept \<le> length rows" using props(3) by (rule list_emb_length)
  moreover have "duplicates (dedupe rows spec) = length rows - length kept"
    using dedupe_keyed(2) [OF key, of rows] kept by simp
  moreover have "kept_rows (dedupe kept spec) = kept"
    using props(1) by (simp add: dedupe_keyed(1) [OF key] firsts_distinct)
  moreover have "\<forall>r \<in> set kept. \<exists>xs ys. rows = xs @ r # ys \<and> ?id r \<notin> ?id ` set xs"
    using firsts_first [of _ ?id rows "{}", folded k] by blast
  ultimately show ?thesis using props by simp
qed

text \<open>
  C34. After the snapshot of a run is stored, a diff of the same rows is empty, the rows of a
  later run that were seen are no longer added, and keys that were absent from the run stay
  reported as removed.
\<close>

theorem snapshot_then_diff:
  assumes store: "store_snapshot sha now db spec rows i = Inr db'" and ok: "snapshots_ok db"
  shows "added (diff_against_snapshot sha db' spec rows) = []
    \<and> changed (diff_against_snapshot sha db' spec rows) = []
    \<and> added (diff_against_snapshot sha db' spec later) =
        filter (\<lambda>r. row_identity r spec \<notin> (\<lambda>r. row_identity r spec) ` set rows)
          (added (diff_against_snapshot sha db spec later))
    \<and> (\<forall>k. k \<notin> (\<lambda>r. row_identity r spec) ` set rows \<longrightarrow>
        (k \<in> set (removed_keys (diff_against_snapshot sha db' spec rows)) \<longleftrightarrow>
         k \<in> set (removed_keys (diff_against_snapshot sha db spec rows))))"
proof -
  let ?id = "\<lambda>r. row_identity r spec"
  note eff = store_snapshot_hashes [OF store ok]
  have in_rows: "map_of (stored_hashes db' (t_name spec)) (?id r) = Some (row_hash sha r)"
    if "r \<in> set rows" for r using eff(2) that .
  have other: "map_of (stored_hashes db' (t_name spec)) k = map_of (stored_hashes db (t_name spec)) k"
    if "k \<notin> ?id ` set rows" for k using eff(3) that by blast
  have known: "map_of (stored_hashes db' (t_name spec)) (?id r) \<noteq> None"
    if "?id r \<in> ?id ` set rows" for r
  proof -
    obtain r' where r': "r' \<in> set rows" "?id r = ?id r'" using \<open>?id r \<in> ?id ` set rows\<close> by blast
    show ?thesis unfolding r'(2) in_rows [OF r'(1)] by simp
  qed
  have keys: "k \<in> set (dict_keys d) \<longleftrightarrow> map_of d k \<noteq> None" for k and d :: "(string, string) dict"
    by (simp add: map_of_eq_None_iff)
  have "added (diff_against_snapshot sha db' spec later) =
        filter (\<lambda>r. ?id r \<notin> ?id ` set rows) (added (diff_against_snapshot sha db spec later))"
    unfolding diff_fields [OF refl] filter_filter
  proof (rule filter_cong [OF refl])
    fix r
    show "map_of (stored_hashes db' (t_name spec)) (?id r) = None \<longleftrightarrow>
        map_of (stored_hashes db (t_name spec)) (?id r) = None \<and> ?id r \<notin> ?id ` set rows"
      using known [of r] other [of "?id r"] by argo
  qed
  moreover have "k \<in> set (removed_keys (diff_against_snapshot sha db' spec rows)) \<longleftrightarrow>
         k \<in> set (removed_keys (diff_against_snapshot sha db spec rows))" if "k \<notin> ?id ` set rows" for k
    unfolding diff_fields [OF refl] set_sort set_filter mem_Collect_eq keys other [OF that] ..
  ultimately show ?thesis using in_rows by (simp add: diff_fields [OF refl] filter_empty_conv)
qed

text \<open>
  A target without a row key keeps equal rows, and storing the snapshot of such a run fails:
  the upsert would touch one row twice.
\<close>

theorem keyless_duplicates_fail:
  assumes "ex_row_key (t_extraction spec) = []" and "rows = xs @ r # ys @ r # zs"
    and "\<not> list_ex snapshot_too_long (map (snapshot_row sha now spec i) rows)"
  shows "store_snapshot sha now db spec (kept_rows (dedupe rows spec)) i = Inl CardinalityViolation"
  using assms by (simp add: dedupe_def store_snapshot_def Let_def comp_def)

definition sample_rows :: "row list" where
  "sample_rows = [[(''id'', JStr ''1''), (''title'', JStr ''a'')], [(''id'', JInt 2)],
     [(''id'', JStr ''1''), (''title'', JStr ''b'')]]"

theorem dedupe_keeps_firsts_witness:
  "kept_rows (dedupe sample_rows sample_spec) = [sample_rows ! 0, sample_rows ! 1]
     \<and> duplicates (dedupe sample_rows sample_spec) + 2 = length sample_rows"
proof -
  have key: "ex_row_key (t_extraction sample_spec) \<noteq> []" by (simp add: sample_spec_def)
  have kept: "[sample_rows ! 0, sample_rows ! 1] = kept_rows (dedupe sample_rows sample_spec)"
    by code_simp
  from dedupe_keeps_firsts [OF key kept] kept show ?thesis by simp
qed

theorem snapshot_then_diff_witness:
  "\<exists>db'. store_snapshot (\<lambda>s. take 4 s) 1 sample_db sample_spec (take 2 sample_rows) ''j1'' = Inr db'
     \<and> added (diff_against_snapshot (\<lambda>s. take 4 s) db' sample_spec (take 2 sample_rows)) = []"
proof -
  have ids: "map (\<lambda>r. row_identity r sample_spec) (take 2 sample_rows) = [''1'', ''2'']"
    "\<not> list_ex snapshot_too_long (map (snapshot_row (\<lambda>s. take 4 s) 1 sample_spec ''j1'') (take 2 sample_rows))"
    by code_simp+
  then have "\<exists>db'. store_snapshot (\<lambda>s. take 4 s) 1 sample_db sample_spec (take 2 sample_rows) ''j1'' = Inr db'"
    by (simp add: store_snapshot_def Let_def comp_def)
  then obtain db' where store:
    "store_snapshot (\<lambda>s. take 4 s) 1 sample_db sample_spec (take 2 sample_rows) ''j1'' = Inr db'" ..
  have "snapshots_ok sample_db" by (simp add: snapshots_ok_def sample_db_def empty_db_def)
  from snapshot_then_diff [OF store this] store show ?thesis by blast
qed

theorem keyless_duplicates_fail_witness:
  "store_snapshot (\<lambda>s. take 4 s) 1 sample_db
     (sample_spec\<lparr>t_extraction := (t_extraction sample_spec)\<lparr>ex_row_key := []\<rparr>\<rparr>)
     (kept_rows (dedupe [sample_rows ! 1, sample_rows ! 1]
       (sample_spec\<lparr>t_extraction := (t_extraction sample_spec)\<lparr>ex_row_key := []\<rparr>\<rparr>))) ''j1''
   = Inl CardinalityViolation"
  by (rule keyless_duplicates_fail [where xs = "[]" and ys = "[]" and zs = "[]"]) (simp, simp, code_simp)

end
