(* ===== verification/Double.thy ===== *)
theory Double
  imports Prelude
begin

text \<open>
  Python's floating point numbers, as the rationals they are: \<open>fl x\<close> is the double nearest
  to \<open>x\<close>, ties to even, for magnitudes where neither overflow nor underflow arises.  An
  arithmetic operation is the exact one followed by \<open>fl\<close>.
\<close>

fun bitlen_nat :: "nat \<Rightarrow> nat" where
  "bitlen_nat n = (if n = 0 then 0 else Suc (bitlen_nat (n div 2)))"

declare bitlen_nat.simps [simp del]

definition pow2 :: "int \<Rightarrow> rat" where
  "pow2 e = (if 0 \<le> e then 2 ^ nat e else 1 / 2 ^ nat (- e))"

definition expo :: "rat \<Rightarrow> int" where
  "expo x =
     (let (n, d) = quotient_of x; k = int (bitlen_nat (nat n)) - int (bitlen_nat (nat d))
      in if pow2 k \<le> x then k else k - 1)"

definition round_even :: "rat \<Rightarrow> int" where
  "round_even y =
     (let f = \<lfloor>y\<rfloor>; r = y - of_int f in
      if r < 1 / 2 then f else if 1 / 2 < r then f + 1 else if even f then f else f + 1)"

definition fl :: "rat \<Rightarrow> rat" where
  "fl x =
     (if x = 0 then 0
      else let u = pow2 (expo (abs x) - 52) in of_int (round_even (x / u)) * u)"

text \<open>\<open>int(x)\<close> and \<open>f"{x:.1f}"\<close> for \<open>x \<ge> 0\<close>.\<close>

definition trunc :: "rat \<Rightarrow> int" where
  "trunc x = (if x < 0 then - \<lfloor>- x\<rfloor> else \<lfloor>x\<rfloor>)"

definition fixed1 :: "rat \<Rightarrow> string" where
  "fixed1 x = (let n = round_even (x * 10) in dec_int (n div 10) @ ''.'' @ dec_int (n mod 10))"

subsection \<open>Powers of two\<close>

lemma pow2_pos [simp]: "0 < pow2 e"
  by (simp add: pow2_def)

lemma pow2_nonneg [simp]: "0 \<le> pow2 e"
  using pow2_pos [of e] by linarith

lemma pow2_nonzero [simp]: "pow2 e \<noteq> 0"
  using pow2_pos [of e] by linarith

lemma pow2_nat [simp]: "pow2 (int n) = 2 ^ n"
  by (simp add: pow2_def)

lemma pow2_Suc: "pow2 (e + 1) = 2 * pow2 e"
proof (cases "0 \<le> e")
  case True
  then have "nat (e + 1) = Suc (nat e)" by linarith
  with True show ?thesis by (simp add: pow2_def)
next
  case False
  then have "nat (- e) = Suc (nat (- (e + 1)))" by linarith
  with False show ?thesis by (cases "e = -1") (simp_all add: pow2_def)
qed

lemma pow2_add_nat: "pow2 (e + int n) = pow2 e * 2 ^ n"
proof (induction n)
  case (Suc n)
  have "pow2 (e + int (Suc n)) = 2 * pow2 (e + int n)"
    using pow2_Suc [of "e + int n"] by (simp add: algebra_simps)
  with Suc show ?case by simp
qed simp

lemma pow2_diff_nat: "pow2 (e - int n) = pow2 e / 2 ^ n"
  using pow2_add_nat [of "e - int n" n] by (simp add: field_simps)

lemma pow2_minus_nat: "pow2 (int m - int n) = 2 ^ m / 2 ^ n"
  by (simp add: pow2_diff_nat)

lemma pow2_mono: "e \<le> f \<Longrightarrow> pow2 e \<le> pow2 f"
  using pow2_add_nat [of e "nat (f - e)"] mult_left_mono [of 1 "2 ^ nat (f - e)" "pow2 e"] by simp

lemma pow2_strict: "e < f \<Longrightarrow> pow2 e < pow2 f"
proof -
  assume "e < f"
  then have "pow2 (e + 1) \<le> pow2 f" by (intro pow2_mono) simp
  then show ?thesis using pow2_pos [of e] unfolding pow2_Suc by linarith
qed

lemma pow2_less_iff: "pow2 e < pow2 f \<longleftrightarrow> e < f"
  using pow2_strict [of e f] pow2_mono [of f e] by (meson leD not_le)

lemma bitlen_bounds: "0 < n \<Longrightarrow> n < 2 ^ bitlen_nat n \<and> 2 ^ bitlen_nat n \<le> 2 * n"
proof (induction n rule: bitlen_nat.induct)
  case (1 n)
  show ?case
  proof (cases "n = 1")
    case True
    then show ?thesis by (simp add: bitlen_nat.simps)
  next
    case False
    with 1 have "n div 2 < 2 ^ bitlen_nat (n div 2)" "2 ^ bitlen_nat (n div 2) \<le> 2 * (n div 2)"
      by simp_all
    then show ?thesis using 1(2) by (subst (1 2) bitlen_nat.simps) auto
  qed
qed

lemma bitlen_int:
  assumes "0 < n"
  shows "of_int n < (2 ^ bitlen_nat (nat n) :: rat)"
    and "(2 ^ bitlen_nat (nat n) :: rat) \<le> 2 * of_int n"
proof -
  obtain m where m: "n = int m" "0 < m" using assms by (metis zero_less_imp_eq_int)
  from bitlen_bounds [OF m(2)] have "of_nat m < (of_nat (2 ^ bitlen_nat m) :: rat)"
    "(of_nat (2 ^ bitlen_nat m) :: rat) \<le> of_nat (2 * m)"
    unfolding of_nat_less_iff of_nat_le_iff by simp_all
  then show "of_int n < (2 ^ bitlen_nat (nat n) :: rat)"
    "(2 ^ bitlen_nat (nat n) :: rat) \<le> 2 * of_int n" using m by simp_all
qed

lemma expo_bounds:
  assumes "0 < x"
  shows "pow2 (expo x) \<le> x" and "x < pow2 (expo x + 1)"
proof -
  obtain n d where nd: "quotient_of x = (n, d)" by fastforce
  then have d: "0 < d" and x: "x = of_int n / of_int d"
    using quotient_of_denom_pos quotient_of_div by blast+
  then have n: "0 < n" using assms by (simp add: zero_less_divide_iff)
  let ?bn = "bitlen_nat (nat n)" and ?bd = "bitlen_nat (nat d)"
  let ?k = "int ?bn - int ?bd"
  note N = bitlen_int [OF n] and D = bitlen_int [OF d]
  have dp: "(0::rat) < of_int d" and np: "(0::rat) \<le> of_int n" using d n by simp_all
  have "(2::rat) ^ ?bn / 2 ^ ?bd \<le> (2 * of_int n) / of_int d"
    using N D dp np by (intro frac_le) simp_all
  then have low: "pow2 (?k - 1) \<le> x"
    using pow2_Suc [of "?k - 1"] by (simp add: pow2_minus_nat x)
  have "of_int n / of_int d < (2::rat) ^ ?bn / (2 ^ ?bd / 2)"
    using N D dp np by (intro frac_less) simp_all
  then have high: "x < pow2 (?k + 1)" by (simp add: pow2_Suc pow2_minus_nat x mult.commute)
  have "expo x = (if pow2 ?k \<le> x then ?k else ?k - 1)" by (simp add: expo_def nd Let_def)
  with low high show "pow2 (expo x) \<le> x" "x < pow2 (expo x + 1)" by auto
qed

subsection \<open>Rounding\<close>

lemma round_even_error: "abs (of_int (round_even y) - y) \<le> 1 / 2"
proof -
  have "of_int \<lfloor>y\<rfloor> \<le> y" "y < of_int \<lfloor>y\<rfloor> + 1" by linarith+
  then show ?thesis by (simp add: round_even_def Let_def)
qed

lemma round_even_of_int [simp]: "round_even (of_int n) = n"
  by (simp add: round_even_def)

lemma fl_0 [simp]: "fl 0 = 0"
  by (simp add: fl_def)

lemma fl_pos:
  "0 < x \<Longrightarrow> fl x = of_int (round_even (x / pow2 (expo x - 52))) * pow2 (expo x - 52)"
  by (simp add: fl_def Let_def)

lemma fl_error:
  assumes "0 < x"
  shows "abs (fl x - x) \<le> x / 2 ^ 53"
proof -
  let ?u = "pow2 (expo x - 52)"
  have u: "?u = pow2 (expo x) / 2 ^ 52" using pow2_diff_nat [of "expo x" 52] by simp
  have "fl x - x = (of_int (round_even (x / ?u)) - x / ?u) * ?u"
    using assms by (simp add: fl_def Let_def left_diff_distrib)
  then have "abs (fl x - x) \<le> 1 / 2 * ?u"
    using round_even_error [of "x / ?u"] by (simp add: abs_mult mult_right_mono)
  also have "\<dots> = pow2 (expo x) / 2 ^ 53" using u by simp
  also have "\<dots> \<le> x / 2 ^ 53" using expo_bounds(1) [OF assms] by (simp add: divide_right_mono)
  finally show ?thesis .
qed

lemma fl_bounds:
  assumes "0 \<le> x"
  shows "x - x / 2 ^ 53 \<le> fl x" and "fl x \<le> x + x / 2 ^ 53" and "0 \<le> fl x"
proof -
  have "x - x / 2 ^ 53 \<le> fl x \<and> fl x \<le> x + x / 2 ^ 53"
    using fl_error [of x] assms by (cases "x = 0") (simp, linarith)
  moreover have "0 \<le> x - x / 2 ^ 53" using assms by simp
  ultimately show "x - x / 2 ^ 53 \<le> fl x" "fl x \<le> x + x / 2 ^ 53" "0 \<le> fl x" by linarith+
qed

text \<open>An integer below \<open>2 ^ 53\<close>, divided by a power of two, is a double.\<close>

lemma fl_exact:
  assumes "0 \<le> m" and "m < 2 ^ 53"
  shows "fl (of_int m / 2 ^ j) = of_int m / 2 ^ j"
proof (cases "m = 0")
  case False
  let ?x = "of_int m / 2 ^ j :: rat"
  have pos: "0 < ?x" using assms False by simp
  have "?x < pow2 (53 - int j)"
  proof -
    have "(of_int m :: rat) < 2 ^ 53" using assms(2) by (metis of_int_less_iff of_int_numeral of_int_power)
    then show ?thesis using pow2_diff_nat [of 53 j] pow2_nat [of 53]
      by (simp add: divide_strict_right_mono)
  qed
  with expo_bounds(1) [OF pos] have "expo ?x < 53 - int j"
    using pow2_less_iff by (meson le_less_trans)
  then have "expo ?x = 52 - int j - int (nat (52 - int j - expo ?x))" by linarith
  then obtain n where n: "expo ?x = 52 - int j - int n" by blast
  have "pow2 (expo ?x - 52) = pow2 (0 - int (j + n))" by (simp add: n)
  also have "\<dots> = 1 / (2 ^ j * 2 ^ n)"
    using pow2_diff_nat [of 0 "j + n"] pow2_nat [of 0] by (simp add: power_add)
  finally have u: "pow2 (expo ?x - 52) = 1 / (2 ^ j * 2 ^ n)" .
  have "?x / pow2 (expo ?x - 52) = of_int (m * 2 ^ n)" by (simp add: u)
  then have "round_even (?x / pow2 (expo ?x - 52)) = m * 2 ^ n" by (metis round_even_of_int)
  then have "fl ?x = of_int (m * 2 ^ n) * (1 / (2 ^ j * 2 ^ n))"
    unfolding fl_pos [OF pos] by (simp only: u)
  then show ?thesis by simp
qed simp

lemma fl_int: "0 \<le> m \<Longrightarrow> m < 2 ^ 53 \<Longrightarrow> fl (of_int m) = of_int m"
  using fl_exact [of m 0] by simp

lemma expo_eq:
  assumes "pow2 e \<le> x" and "x < pow2 (e + 1)"
  shows "expo x = e"
proof -
  have "0 < x" using assms(1) by (rule less_le_trans [OF pow2_pos])
  note b = expo_bounds [OF this]
  have "pow2 e < pow2 (expo x + 1)" "pow2 (expo x) < pow2 (e + 1)"
    using b assms by linarith+
  then show ?thesis by (simp add: pow2_less_iff)
qed

lemma round_even_near:
  assumes "abs (y - of_int n) < 1 / 2 \<or> abs (y - of_int n) = 1 / 2 \<and> even n"
  shows "round_even y = n"
proof (cases "of_int n \<le> y")
  case True
  then have "\<lfloor>y\<rfloor> = n" using assms by (intro floor_unique) auto
  then show ?thesis using assms True by (auto simp: round_even_def)
next
  case False
  then have "\<lfloor>y\<rfloor> = n - 1" using assms by (intro floor_unique) auto
  then show ?thesis using assms False by (auto simp: round_even_def)
qed

lemma fl_near:
  assumes "pow2 e \<le> x" and "x < pow2 (e + 1)"
    and "abs (x / pow2 (e - 52) - of_int n) < 1 / 2 \<or> abs (x / pow2 (e - 52) - of_int n) = 1 / 2 \<and> even n"
  shows "fl x = of_int n * pow2 (e - 52)"
  using assms(1,2) less_le_trans [OF pow2_pos assms(1)] round_even_near [OF assms(3)]
  by (simp add: fl_pos expo_eq)

end
