(* ===== verification/Drift.thy ===== *)
theory Drift
  imports Double Store Settings
begin

text \<open>
  The drift detector of \<^verbatim>\<open>pipeline/drift.py\<close>, in double precision as Python computes it.
\<close>

record drift_verdict =
  suspect :: bool
  observed :: rat
  baseline :: "int option"
  reason :: string

definition get_baseline :: "db \<Rightarrow> string \<Rightarrow> drift_baseline option" where
  "get_baseline db target = List.find (\<lambda>b. b_target b = target) (drift_baselines db)"

definition drift_check :: "settings \<Rightarrow> db \<Rightarrow> string \<Rightarrow> int \<Rightarrow> int \<Rightarrow> drift_verdict" where
  "drift_check cfg db target rows pages =
     (if pages \<le> 0
      then \<lparr>suspect = True, observed = 0, baseline = None, reason = ''no pages fetched''\<rparr>
      else
        let obs = fl (of_int rows / of_int pages) in
        case get_baseline db target of
          None \<Rightarrow> \<lparr>suspect = False, observed = obs, baseline = None, reason = ''no baseline yet''\<rparr>
        | Some b \<Rightarrow>
            let floor = fl (of_int (b_rows_per_page b) * drift_min_ratio cfg) in
            if obs < floor
            then \<lparr>suspect = True, observed = obs, baseline = Some (b_rows_per_page b),
                  reason = fixed1 obs @ '' rows/page against a baseline of ''
                    @ dec_int (b_rows_per_page b)\<rparr>
            else \<lparr>suspect = False, observed = obs, baseline = Some (b_rows_per_page b),
                  reason = []\<rparr>)"

definition blend :: "int \<Rightarrow> rat \<Rightarrow> int" where
  "blend rpp obs = trunc (fl (fl (fl (7 / 10) * of_int rpp) + fl (fl (3 / 10) * obs)))"

definition update_baseline :: "datetime \<Rightarrow> db \<Rightarrow> string \<Rightarrow> int \<Rightarrow> int \<Rightarrow> db" where
  "update_baseline now db target rows pages =
     (if pages \<le> 0 then db
      else
        let obs = fl (of_int rows / of_int pages) in
        case get_baseline db target of
          None \<Rightarrow> db\<lparr>drift_baselines := drift_baselines db @
            [\<lparr>b_target = target, b_rows_per_page = trunc obs, b_samples = 1, b_updated_at = now\<rparr>]\<rparr>
        | Some b \<Rightarrow> db\<lparr>drift_baselines := map (\<lambda>b. if b_target b = target
            then b\<lparr>b_rows_per_page := blend (b_rows_per_page b) obs,
                   b_samples := b_samples b + 1, b_updated_at := now\<rparr>
            else b) (drift_baselines db)\<rparr>)"

subsection \<open>The check in integers\<close>

lemma ratio_gap:
  assumes "0 < p" and "2 * r \<noteq> b * p"
  shows "1 / (2 * of_int p) \<le> abs (of_int r / of_int p - of_int b / (2::rat))"
proof -
  have "(1::rat) \<le> abs (of_int (2 * r - b * p))"
    using assms(2) by (simp only: of_int_abs [symmetric] of_int_1_le_iff [where 'a = rat])
  moreover have "of_int r / of_int p - of_int b / (2::rat) = of_int (2 * r - b * p) / (2 * of_int p)"
    using assms(1) by (simp add: field_simps)
  ultimately show ?thesis using assms(1) by (simp add: divide_right_mono abs_divide)
qed

lemma fl_ratio_less_half:
  assumes p: "0 < p" and r: "0 \<le> r" "r < 2 ^ 52" and b: "0 \<le> b" "b < 2 ^ 53"
  shows "fl (of_int r / of_int p) < of_int b / 2 \<longleftrightarrow> 2 * r < b * p"
proof -
  let ?x = "of_int r / of_int p :: rat" and ?h = "of_int b / 2 :: rat"
  have x0: "0 \<le> ?x" using p r by simp
  have "(of_int r :: rat) < 2 ^ 52" using r(2) by (metis of_int_less_iff of_int_numeral of_int_power)
  then have "of_int r / 2 ^ 53 < (1 / 2 :: rat)" by simp
  then have small: "?x / 2 ^ 53 < 1 / (2 * of_int p)"
    using p by (simp add: field_simps)
  have cmp: "?x < ?h \<longleftrightarrow> 2 * r < b * p"
  proof -
    have "?x < ?h \<longleftrightarrow> (of_int (2 * r) :: rat) < of_int (b * p)" using p by (simp add: field_simps)
    then show ?thesis by (simp only: of_int_less_iff)
  qed
  show ?thesis
  proof (cases "2 * r = b * p")
    case True
    then have "of_int (2 * r) = (of_int (b * p) :: rat)" by simp
    then have "?x = ?h" using p by (simp add: field_simps)
    have "fl ?h = ?h" using fl_exact [OF b, of 1] by simp
    then have "fl ?x = ?h" unfolding \<open>?x = ?h\<close> .
    then show ?thesis using True by (simp only: less_irrefl)
  next
    case False
    note gap = ratio_gap [OF p False]
    show ?thesis
    proof (cases "?x < ?h")
      case True
      then have "fl ?x < ?h" using gap small fl_bounds(2) [OF x0] by linarith
      with True cmp show ?thesis by simp
    next
      case False
      then have "?h \<le> fl ?x" using gap small fl_bounds(1) [OF x0] by linarith
      with False cmp show ?thesis by simp
    qed
  qed
qed

lemma half_floor:
  "0 \<le> b \<Longrightarrow> b < 2 ^ 53 \<Longrightarrow> fl (of_int b * (1 / 2)) = of_int b / 2"
  using fl_exact [of b 1] by simp

subsection \<open>The moving average\<close>

lemma blend_rounding:
  assumes "0 \<le> m" and "0 \<le> x"
  defines "y \<equiv> fl (fl (fl (7 / 10) * m) + fl (fl (3 / 10) * x))"
  shows "(7 / 10 * m + 3 / 10 * x) * (1 - 1 / 2 ^ 50) \<le> y"
    and "y \<le> (7 / 10 * m + 3 / 10 * x) * (1 + 1 / 2 ^ 50)"
proof -
  let ?e = "1 / 2 ^ 53 :: rat"
  have up: "fl z \<le> z * (1 + ?e)" and lo: "z * (1 - ?e) \<le> fl z" and pos: "0 \<le> fl z" if "0 \<le> z" for z
    using fl_bounds [OF that] by (simp_all add: algebra_simps)
  have e: "0 \<le> 1 - ?e" "0 \<le> 1 + ?e" by simp_all
  let ?a = "fl (fl (7 / 10) * m)" and ?b = "fl (fl (3 / 10) * x)"
  have prod_up: "fl (fl c * z) \<le> c * z * (1 + ?e) ^ 2" and prod_lo: "c * z * (1 - ?e) ^ 2 \<le> fl (fl c * z)"
    and prod_pos: "0 \<le> fl (fl c * z)" if "0 \<le> c" "0 \<le> z" for c z
  proof -
    have p: "0 \<le> fl c * z" using pos that by simp
    have "fl c * z * (1 + ?e) \<le> c * (1 + ?e) * z * (1 + ?e)"
      using up [OF that(1)] that(2) e by (intro mult_right_mono)
    then show "fl (fl c * z) \<le> c * z * (1 + ?e) ^ 2"
      using up [OF p] by (simp add: power2_eq_square algebra_simps)
    have "c * (1 - ?e) * z * (1 - ?e) \<le> fl c * z * (1 - ?e)"
      using lo [OF that(1)] that(2) e by (intro mult_right_mono)
    then show "c * z * (1 - ?e) ^ 2 \<le> fl (fl c * z)"
      using lo [OF p] by (simp add: power2_eq_square algebra_simps)
    show "0 \<le> fl (fl c * z)" using pos [OF p] .
  qed
  let ?E = "7 / 10 * m + 3 / 10 * x"
  have E0: "0 \<le> ?E" using assms by simp
  have s0: "0 \<le> ?a + ?b" using prod_pos assms by simp
  have "y \<le> (?a + ?b) * (1 + ?e)" unfolding y_def by (rule up [OF s0])
  also have "\<dots> \<le> (?E * (1 + ?e) ^ 2) * (1 + ?e)"
    using prod_up [of "7 / 10" m] prod_up [of "3 / 10" x] assms e
    by (intro mult_right_mono) (simp_all add: distrib_right)
  also have "\<dots> = ?E * (1 + ?e) ^ 3" by (simp add: power3_eq_cube power2_eq_square)
  also have "\<dots> \<le> ?E * (1 + 1 / 2 ^ 50)"
    by (rule mult_left_mono [OF _ E0]) (simp add: power3_eq_cube)
  finally show "y \<le> ?E * (1 + 1 / 2 ^ 50)" .
  have "?E * (1 - 1 / 2 ^ 50) \<le> ?E * (1 - ?e) ^ 3"
    by (rule mult_left_mono [OF _ E0]) (simp add: power3_eq_cube)
  also have "\<dots> = (?E * (1 - ?e) ^ 2) * (1 - ?e)" by (simp add: power3_eq_cube power2_eq_square)
  also have "\<dots> \<le> (?a + ?b) * (1 - ?e)"
    using prod_lo [of "7 / 10" m] prod_lo [of "3 / 10" x] assms e
    by (intro mult_right_mono) (simp_all add: distrib_right)
  also have "\<dots> \<le> y" unfolding y_def by (rule lo [OF s0])
  finally show "?E * (1 - 1 / 2 ^ 50) \<le> y" .
qed

lemma fl_ratio_bounds:
  assumes p: "0 < p" and r: "0 \<le> r" "r < 2 ^ 52"
  shows "of_int (r div p) \<le> fl (of_int r / of_int p)"
    and "fl (of_int r / of_int p) \<le> of_int (- ((- r) div p))"
proof -
  have q: "0 \<le> r div p" "r div p \<le> r" using p r div_by_1 zdiv_mono2 [of r 1 p] by (auto simp: pos_imp_zdiv_nonneg_iff)
  have below: "a div p * p \<le> a" for a
    using pos_mod_sign [OF p, of a] by (simp add: minus_mod_eq_div_mult [symmetric])
  then have "r div p * p \<le> r" .
  then have "\<not> 2 * r < 2 * (r div p) * p" by simp
  then have "\<not> fl (of_int r / of_int p) < of_int (2 * (r div p)) / 2"
    using fl_ratio_less_half [OF p r, of "2 * (r div p)"] q r by simp
  then show "of_int (r div p) \<le> fl (of_int r / of_int p)" by simp
  have "- r * p \<le> - r" using p r mult_left_mono [of 1 p r] by simp
  then have "(- r * p) div p \<le> (- r) div p" using p by (rule zdiv_mono1)
  then have neg: "- r \<le> (- r) div p"
    using nonzero_mult_div_cancel_right [of p "- r"] p by linarith
  obtain c where cdef: "c = - ((- r) div p)" by simp
  have c: "r \<le> c * p" "0 \<le> c" "c \<le> r"
    unfolding cdef using below [of "- r"] p r zdiv_mono1 [of "- r" 0 p] neg by simp_all
  have "fl (of_int r / of_int p) \<le> of_int c"
  proof (cases "r = c * p")
    case True
    then have "of_int r = (of_int c * of_int p :: rat)" by simp
    then have "of_int r / of_int p = (of_int c :: rat)" using p by simp
    moreover have "fl (of_int c) = (of_int c :: rat)" using fl_int [of c] c r by simp
    ultimately show ?thesis by (simp only: order_refl)
  next
    case False
    then have "2 * r < 2 * c * p" using c by simp
    then have "fl (of_int r / of_int p) < of_int (2 * c) / 2"
      using fl_ratio_less_half [OF p r, of "2 * c"] c r by simp
    then show ?thesis by simp
  qed
  then show "fl (of_int r / of_int p) \<le> of_int (- ((- r) div p))" by (simp only: cdef)
qed

lemma blend_between:
  assumes m: "0 \<le> m" "m \<le> 2 ^ 40" and x: "0 \<le> x" "x \<le> 2 ^ 40"
    and lo: "lo \<le> m" "of_int lo \<le> x" and hi: "m \<le> hi" "x \<le> of_int hi"
  shows "lo - 1 \<le> blend m x" and "blend m x \<le> hi"
proof -
  let ?E = "7 / 10 * of_int m + 3 / 10 * x" and ?y = "fl (fl (fl (7 / 10) * of_int m) + fl (fl (3 / 10) * x))"
  have m': "(0::rat) \<le> of_int m" "of_int m \<le> (2 ^ 40 :: rat)"
    using m by (simp, metis of_int_le_iff of_int_numeral of_int_power)
  have E: "0 \<le> ?E" "?E \<le> 2 ^ 40" using m' x by simp_all
  have gap: "?E / 2 ^ 50 \<le> 1 / 2" using E by simp
  note round = blend_rounding [OF m'(1) x(1)]
  have low: "?E - 1 / 2 \<le> ?y" using round(1) gap by (simp add: algebra_simps)
  have high: "?y \<le> ?E + 1 / 2" using round(2) gap by (simp add: algebra_simps)
  have "of_int lo \<le> (of_int m :: rat)" "of_int m \<le> (of_int hi :: rat)"
    using lo(1) hi(1) by simp_all
  then have between: "of_int lo \<le> ?E" "?E \<le> of_int hi" using lo(2) hi(2) by linarith+
  have pos: "0 \<le> ?y"
    using m' x(1) by (intro fl_bounds(3) add_nonneg_nonneg mult_nonneg_nonneg) simp_all
  then have t: "blend m x = \<lfloor>?y\<rfloor>" by (simp add: blend_def trunc_def)
  show "lo - 1 \<le> blend m x" unfolding t using between(1) low by (simp add: le_floor_iff)
  show "blend m x \<le> hi" unfolding t using between(2) high by (simp add: floor_le_iff)
qed

lemma drift_suspect_iff:
  assumes "drift_min_ratio c = 1 / 2" and pages: "0 < pages" and rows: "0 \<le> rows" "rows < 2 ^ 52"
    and b: "get_baseline db target = Some b" "0 \<le> b_rows_per_page b" "b_rows_per_page b < 2 ^ 53"
  shows "suspect (drift_check c db target rows pages) \<longleftrightarrow> 2 * rows < b_rows_per_page b * pages"
proof -
  have "fl (of_int (b_rows_per_page b) * drift_min_ratio c) = of_int (b_rows_per_page b) / 2"
    unfolding assms(1) by (rule half_floor [OF b(2,3)])
  with fl_ratio_less_half [OF pages rows b(2,3)] pages b(1) show ?thesis
    by (simp only: drift_check_def Let_def option.case if_distrib [of suspect] drift_verdict.select_convs)
       simp
qed

text \<open>
  C35. With the default ratio, the floating-point comparison of the drift check decides
  exactly: a run is suspect if and only if twice its rows are below the baseline times its
  pages.
\<close>

theorem drift_verdict_exact:
  assumes "drift_min_ratio c = 1 / 2" and pages: "0 < pages" and rows: "0 \<le> rows" "rows < 2 ^ 52"
    and b: "get_baseline db target = Some b" "0 \<le> b_rows_per_page b" "b_rows_per_page b < 2 ^ 53"
  shows "suspect (drift_check c db target rows pages) \<longleftrightarrow> 2 * rows < b_rows_per_page b * pages"
  using assms by (rule drift_suspect_iff)

lemma ceiling_ratio_le:
  fixes k p r :: int
  assumes "0 < p" and "r \<le> k * p"
  shows "- ((- r) div p) \<le> k"
proof -
  have "(- k) * p div p \<le> (- r) div p" using assms by (intro zdiv_mono1) simp_all
  moreover have "(- k) * p div p = - k" using assms by (intro nonzero_mult_div_cancel_right) simp
  ultimately show ?thesis by linarith
qed

definition baseline_of :: "db \<Rightarrow> string \<Rightarrow> int option" where
  "baseline_of db target = map_option b_rows_per_page (get_baseline db target)"

lemma baseline_update:
  assumes "get_baseline db target = Some b" and "0 < pages"
  shows "baseline_of (update_baseline now db target rows pages) target =
    Some (blend (b_rows_per_page b) (fl (of_int rows / of_int pages)))"
proof -
  let ?g = "\<lambda>b. if b_target b = target then b\<lparr>b_rows_per_page :=
      blend (b_rows_per_page b) (fl (of_int rows / of_int pages)), b_samples := b_samples b + 1,
      b_updated_at := now\<rparr> else b"
  have "b_target b = target" using assms(1) find_Some_in by (fastforce simp: get_baseline_def)
  moreover have "get_baseline (update_baseline now db target rows pages) target =
      map_option ?g (get_baseline db target)"
    using assms find_map_same [of "\<lambda>b. b_target b = target" ?g "drift_baselines db"]
    by (simp add: update_baseline_def Let_def get_baseline_def)
  ultimately show ?thesis using assms(1) by (simp add: baseline_of_def)
qed

text \<open>
  The moving average stays between the old baseline and the observed rate, up to one row lost
  to truncation.
\<close>

theorem baseline_tracks_rate:
  assumes b: "get_baseline db target = Some b" "0 \<le> b_rows_per_page b" "b_rows_per_page b \<le> 2 ^ 40"
    and pages: "0 < pages" and rows: "0 \<le> rows" "rows \<le> 2 ^ 40"
  shows "\<exists>m. baseline_of (update_baseline now db target rows pages) target = Some m
    \<and> min (b_rows_per_page b) (rows div pages) - 1 \<le> m
    \<and> m \<le> max (b_rows_per_page b) (- ((- rows) div pages))"
proof -
  let ?m = "b_rows_per_page b" and ?x = "fl (of_int rows / of_int pages)"
  have small: "rows < 2 ^ 52" using rows by simp
  note x = fl_ratio_bounds [OF pages rows(1) small]
  have "0 \<le> rows div pages" using pages rows by (simp add: pos_imp_zdiv_nonneg_iff)
  then have x0: "0 \<le> ?x" using x(1) order_trans [of 0 "of_int (rows div pages)" ?x] by simp
  have "rows \<le> 2 ^ 40 * pages"
    using pages rows(2) mult_left_mono [of 1 pages "2 ^ 40"] by simp
  then have "(of_int (- ((- rows) div pages)) :: rat) \<le> of_int (2 ^ 40)"
    by (subst of_int_le_iff) (rule ceiling_ratio_le [OF pages])
  then have x40: "?x \<le> 2 ^ 40" using x(2) by simp
  have "?m \<le> max ?m c" "c \<le> max ?m c" "min ?m c \<le> ?m" "min ?m c \<le> c" for c :: int by simp_all
  then have "min ?m (rows div pages) - 1 \<le> blend ?m ?x \<and> blend ?m ?x \<le> max ?m (- ((- rows) div pages))"
    using x blend_between [OF b(2,3) x0 x40, of "min ?m (rows div pages)" "max ?m (- ((- rows) div pages))"]
    by (meson of_int_le_iff order_trans)
  then show ?thesis using baseline_update [OF b(1) pages] by blast
qed

text \<open>
  A target whose baseline has reached zero is never suspect again and keeps the baseline zero
  as long as its pages have at most three rows each.
\<close>

theorem zero_baseline_blind:
  assumes b: "get_baseline db target = Some b" "b_rows_per_page b = 0" and "drift_min_ratio c = 1 / 2"
    and pages: "0 < pages" and rows: "0 \<le> rows" "rows \<le> 3 * pages" "rows < 2 ^ 52"
  shows "\<not> suspect (drift_check c db target rows pages)
    \<and> baseline_of (update_baseline now db target rows pages) target = Some 0"
proof -
  let ?x = "fl (of_int rows / of_int pages)"
  note x = fl_ratio_bounds [OF pages rows(1,3)]
  have "0 \<le> rows div pages" using pages rows by (simp add: pos_imp_zdiv_nonneg_iff)
  then have x0: "0 \<le> ?x" using x(1) order_trans [of 0 "of_int (rows div pages)" ?x] by simp
  have "(of_int (- ((- rows) div pages)) :: rat) \<le> of_int 3"
    by (subst of_int_le_iff) (rule ceiling_ratio_le [OF pages rows(2)])
  then have x3: "?x \<le> 3" using x(2) by simp
  let ?y = "fl (fl (fl (7 / 10) * of_int 0) + fl (fl (3 / 10) * ?x))"
  have r: "3 / 10 * ?x * (1 - 1 / 2 ^ 50) \<le> ?y" "?y \<le> 3 / 10 * ?x * (1 + 1 / 2 ^ 50)"
    using blend_rounding [of 0 ?x] x0 by simp_all
  have "3 / 10 * ?x * (1 + 1 / 2 ^ 50) \<le> 9 / 10 * (1 + 1 / 2 ^ 50)"
    using x3 by (intro mult_right_mono) simp_all
  then have "?y < 1" using r(2) by (auto elim: order.strict_trans1 order_trans)
  moreover have "0 \<le> ?y" using r(1) x0 by (auto elim: order_trans [rotated])
  ultimately have "blend 0 ?x = 0" by (simp add: blend_def trunc_def floor_eq_iff)
  with baseline_update [OF b(1) pages] b drift_suspect_iff [OF assms(3) pages rows(1,3) b(1)] rows
  show ?thesis by simp
qed

lemma blend_3_3: "blend 3 3 = 2"
proof -
  have c7: "fl (7 / 10) = 6305039478318694 / 2 ^ 53"
    using fl_near [of "-1" "7 / 10" 6305039478318694] by (simp add: pow2_def)
  have c3: "fl (3 / 10) = 5404319552844595 / 2 ^ 54"
    using fl_near [of "-2" "3 / 10" 5404319552844595] by (simp add: pow2_def)
  have p7: "fl (6305039478318694 / 2 ^ 53 * 3) = 4728779608739020 / 2 ^ 51"
    using fl_near [of 1 "6305039478318694 / 2 ^ 53 * 3" 4728779608739020] by (simp add: pow2_def)
  have p3: "fl (5404319552844595 / 2 ^ 54 * 3) = 8106479329266892 / 2 ^ 53"
    using fl_near [of "-1" "5404319552844595 / 2 ^ 54 * 3" 8106479329266892] by (simp add: pow2_def)
  have total: "fl (4728779608739020 / 2 ^ 51 + 8106479329266892 / 2 ^ 53) = 6755399441055743 / 2 ^ 51"
    using fl_near [of 1 "4728779608739020 / 2 ^ 51 + 8106479329266892 / 2 ^ 53" 6755399441055743]
    by (simp add: pow2_def)
  show ?thesis unfolding blend_def of_int_numeral c7 c3 p7 p3 total
    by (simp add: trunc_def floor_eq_iff)
qed

theorem steady_site_baseline_decays:
  assumes "get_baseline db target = Some b" and "b_rows_per_page b = 3" and "0 < pages" and "pages < 2 ^ 50"
  shows "baseline_of (update_baseline now db target (3 * pages) pages) target = Some 2"
proof -
  have "fl (of_int (3 * pages) / of_int pages) = 3"
    using assms(3) fl_int [of 3] by simp
  then show ?thesis using baseline_update [OF assms(1,3)] by (simp add: assms(2) blend_3_3)
qed

definition baseline_db :: "int \<Rightarrow> db" where
  "baseline_db n = empty_db\<lparr>drift_baselines :=
     [\<lparr>b_target = ''grants'', b_rows_per_page = n, b_samples = 4, b_updated_at = 0\<rparr>]\<rparr>"

lemma get_baseline_db [simp]:
  "get_baseline (baseline_db n) ''grants'' =
     Some \<lparr>b_target = ''grants'', b_rows_per_page = n, b_samples = 4, b_updated_at = 0\<rparr>"
  by (simp add: baseline_db_def get_baseline_def)

theorem drift_verdict_exact_witness:
  "suspect (drift_check (default_settings []) (baseline_db 25) ''grants'' 37 3)
    \<and> \<not> suspect (drift_check (default_settings []) (baseline_db 25) ''grants'' 38 3)"
  using drift_verdict_exact [of "default_settings []" 3 37 "baseline_db 25" "''grants''"]
    drift_verdict_exact [of "default_settings []" 3 38 "baseline_db 25" "''grants''"]
  by (simp add: default_settings_def)

theorem baseline_tracks_rate_witness:
  "\<exists>m. baseline_of (update_baseline 1 (baseline_db 20) ''grants'' 75 3) ''grants'' = Some m \<and> 19 \<le> m \<and> m \<le> 25"
  using baseline_tracks_rate [of "baseline_db 20" "''grants''" _ 3 75 1] by simp

theorem zero_baseline_blind_witness:
  "\<not> suspect (drift_check (default_settings []) (baseline_db 0) ''grants'' 6 2)
     \<and> baseline_of (update_baseline 1 (baseline_db 0) ''grants'' 6 2) ''grants'' = Some 0"
  using zero_baseline_blind [of "baseline_db 0" "''grants''" _ "default_settings []" 2 6 1]
  by (simp add: default_settings_def)

theorem steady_site_baseline_decays_witness:
  "baseline_of (update_baseline 1 (baseline_db 3) ''grants'' (3 * 4) 4) ''grants'' = Some 2"
  using steady_site_baseline_decays [OF get_baseline_db [of 3], of 4 1] by simp

end
