(* ===== verification/Export.thy ===== *)
theory Export
  imports World JsonParse Csv Dedupe Drift
begin

text \<open>
  \<^verbatim>\<open>pipeline/export.py\<close>: assembling the result of a job.  \<open>finalise_job\<close> runs in
  phases, each of its three database sessions a transaction of its own; between two phases
  \<open>env\<close> is what the rest of the system does.  An exception leaves what earlier phases
  committed.
\<close>

definition page_key :: "uuid \<Rightarrow> int \<Rightarrow> string" where
  "page_key i page = ''jobs/'' @ i @ ''/pages/'' @ dec5 (nat page) @ ''.json''"

definition result_key_of :: "uuid \<Rightarrow> string \<Rightarrow> string" where
  "result_key_of i fmt = ''jobs/'' @ i @ ''/result.'' @ fmt"

text \<open>\<open>rows.extend(json.loads(body))\<close> for the list of objects a page holds.\<close>

definition rows_of_json :: "json \<Rightarrow> exn + row list" where
  "rows_of_json v =
     (case v of
        JArr xs \<Rightarrow> mapE (\<lambda>x. case x of JObj ps \<Rightarrow> Inr ps
                              | _ \<Rightarrow> Inl (OtherError ''AttributeError'' ''not a row'')) xs
      | _ \<Rightarrow> Inl (TypeError ''not a list of rows''))"

definition page_rows :: "'s deployment \<Rightarrow> 's \<Rightarrow> page_result \<Rightarrow> exn + row list" where
  "page_rows D s r =
     (case pr_key r of
        None \<Rightarrow> Inr []
      | Some key \<Rightarrow>
          if key = [] then Inr []
          else bindE (o_get (storage D) key s) (\<lambda>body. bindE (loads body) rows_of_json))"

definition load_rows :: "'s deployment \<Rightarrow> 's \<Rightarrow> page_result list \<Rightarrow> exn + row list" where
  "load_rows D s results =
     bindE (mapE (page_rows D s) (sort_key pr_page results)) (\<lambda>rss. Inr (concat rss))"

definition to_json :: "row list \<Rightarrow> string" where
  "to_json rows = dumps_indent 0 (JArr (map JObj rows))"

text \<open>What the first session reads.\<close>

record plan =
  pl_spec :: target_spec
  pl_format :: string
  pl_incremental :: bool
  pl_callback :: "string option"
  pl_failed :: int

datatype final =
    FinalMissing
  | FinalStatus job_state
  | FinalDone job_state int string

definition finalise_plan :: "'s deployment \<Rightarrow> db \<Rightarrow> uuid \<Rightarrow> exn + (final + plan)" where
  "finalise_plan D db i =
     (case get_job db i of
        None \<Rightarrow> Inr (Inl FinalMissing)
      | Some j \<Rightarrow>
          if j_state j \<in> {CANCELLED, DEAD_LETTER} then Inr (Inl (FinalStatus (j_state j)))
          else bindE (spec_of D (j_target j)) (\<lambda>spec.
            Inr (Inr \<lparr>pl_spec = spec, pl_format = j_output_format j,
                      pl_incremental = j_incremental j, pl_callback = j_callback_url j,
                      pl_failed = j_pages_failed j\<rparr>)))"

definition pages_fetched :: "page_result list \<Rightarrow> int" where
  "pages_fetched results = int (length (filter (\<lambda>r. \<not> pr_failed r) results))"

text \<open>The second session: difference, snapshot, verdict, baseline.\<close>

definition finalise_merge ::
  "'s deployment \<Rightarrow> datetime \<Rightarrow> db \<Rightarrow> uuid \<Rightarrow> plan \<Rightarrow> page_result list \<Rightarrow> row list
    \<Rightarrow> exn + row list \<times> drift_verdict \<times> db" where
  "finalise_merge D now db i p results deduped =
     (let spec = pl_spec p;
          emitted = (if pl_incremental p
                     then diff_rows (diff_against_snapshot (sha256 D) db spec deduped)
                     else deduped)
      in bindE (store_snapshot (sha256 D) now db spec deduped i) (\<lambda>db1.
           let n = int (length deduped);
               verdict = drift_check (cfg D) db1 (t_name spec) n (max (pages_fetched results) 0)
           in Inr (emitted, verdict,
                if suspect verdict then db1
                else update_baseline now db1 (t_name spec) n (pages_fetched results))))"

definition final_state :: "drift_verdict \<Rightarrow> int \<Rightarrow> job_state \<times> string option" where
  "final_state verdict pages_failed =
     (if suspect verdict
      then (SUSPECT, Some (''possible selector drift: '' @ reason verdict))
      else if pages_failed \<noteq> 0
      then (PARTIAL, Some (dec_int pages_failed @ '' page(s) failed permanently''))
      else (SUCCEEDED, None))"

text \<open>The third session: the result of the job and its final state.\<close>

definition finalise_write ::
  "datetime \<Rightarrow> db \<Rightarrow> uuid \<Rightarrow> string \<Rightarrow> nat \<Rightarrow> int \<Rightarrow> job_state \<times> string option
    \<Rightarrow> exn + db option" where
  "finalise_write now db i key bytes n st =
     (case get_job db i of
        None \<Rightarrow> Inr None
      | Some j \<Rightarrow>
          bindE (transition now db j
              (j\<lparr>j_result_key := Some key, j_result_bytes := Some (int bytes), j_rows := n\<rparr>)
              (fst st) (snd st))
            (\<lambda>(_, db'). Inr (Some db')))"

definition payload_of :: "plan \<Rightarrow> row list \<Rightarrow> string" where
  "payload_of p emitted =
     (if pl_format p = ''csv'' then to_csv emitted (columns (pl_spec p)) else to_json emitted)"

definition notify :: "plan \<Rightarrow> uuid \<Rightarrow> job_state \<Rightarrow> int \<Rightarrow> ('s, 'r) world \<Rightarrow> ('s, 'r) world" where
  "notify p i st n w =
     (case pl_callback p of
        None \<Rightarrow> w
      | Some url \<Rightarrow> if url = [] then w else send (CallbackMsg i url st n) w)"

definition finalise_job ::
  "'s deployment \<Rightarrow> (nat \<Rightarrow> ('s, 'r) world \<Rightarrow> ('s, 'r) world) \<Rightarrow> datetime \<Rightarrow> uuid
    \<Rightarrow> page_result list \<Rightarrow> ('s, 'r) world \<Rightarrow> (exn + final) \<times> ('s, 'r) world" where
  "finalise_job D env now i results w0 =
     (case finalise_plan D (w_db w0) i of
        Inl e \<Rightarrow> (Inl e, w0)
      | Inr (Inl stop) \<Rightarrow> (Inr stop, w0)
      | Inr (Inr p) \<Rightarrow>
          let w1 = env 0 w0 in
          case load_rows D (w_objects w1) results of
            Inl e \<Rightarrow> (Inl e, w1)
          | Inr rows \<Rightarrow>
              let deduped = kept_rows (dedupe rows (pl_spec p)) in
              case finalise_merge D now (w_db w1) i p results deduped of
                Inl e \<Rightarrow> (Inl e, w1)
              | Inr (emitted, verdict, db2) \<Rightarrow>
                  let w2 = env 1 (w1\<lparr>w_db := db2\<rparr>);
                      key = result_key_of i (pl_format p) in
                  case put_bytes (storage D) key (payload_of p emitted)
                      (if pl_format p = ''csv'' then ''text/csv'' else ''application/json'')
                      (w_objects w2) of
                    Inl e \<Rightarrow> (Inl e, w2)
                  | Inr (bytes, s') \<Rightarrow>
                      let w3 = env 2 (w2\<lparr>w_objects := s'\<rparr>);
                          n = int (length emitted);
                          st = final_state verdict (pl_failed p) in
                      case finalise_write now (w_db w3) i key bytes n st of
                        Inl e \<Rightarrow> (Inl e, w3)
                      | Inr None \<Rightarrow> (Inr FinalMissing, w3)
                      | Inr (Some db4) \<Rightarrow>
                          (Inr (FinalDone (fst st) n key),
                           notify p i (fst st) n (w3\<lparr>w_db := db4\<rparr>)))"

subsection \<open>Loading what pages stored\<close>

definition page_body_text :: "row list \<Rightarrow> string" where
  "page_body_text rows = dumps plain (JArr (map JObj rows))"

definition row_ok :: "row \<Rightarrow> bool" where
  "row_ok r \<longleftrightarrow> wf_json (JObj r)"

lemma wf_list_all: "wf_list xs \<longleftrightarrow> (\<forall>x \<in> set xs. wf_json x)"
  by (induction xs) simp_all

lemma rows_of_stored:
  assumes "\<forall>r \<in> set rows. row_ok r"
  shows "bindE (loads (page_body_text rows)) rows_of_json = Inr rows"
proof -
  have "wf_json (JArr (map JObj rows))"
    using assms by (auto simp: wf_list_all row_ok_def simp del: wf_json.simps(3))
  then have "loads (page_body_text rows) = Inr (JArr (map JObj rows))"
    unfolding page_body_text_def by (rule loads_dumps)
  moreover have "mapE (\<lambda>x. case x of JObj ps \<Rightarrow> Inr ps
      | _ \<Rightarrow> Inl (OtherError ''AttributeError'' ''not a row'')) (map JObj rs) = Inr rs"
    for rs :: "row list" by (induction rs) simp_all
  ultimately show ?thesis by (simp add: rows_of_json_def)
qed

lemma page_key_inj: "0 \<le> p \<Longrightarrow> 0 \<le> q \<Longrightarrow> page_key i p = page_key i q \<longleftrightarrow> p = q"
  by (auto simp: page_key_def)

subsection \<open>The phases\<close>

lemma finalise_plan_go:
  "finalise_plan D db i = Inr (Inr p) \<longleftrightarrow>
     (\<exists>j spec. get_job db i = Some j \<and> j_state j \<notin> {CANCELLED, DEAD_LETTER}
        \<and> spec_of D (j_target j) = Inr spec
        \<and> p = \<lparr>pl_spec = spec, pl_format = j_output_format j, pl_incremental = j_incremental j,
               pl_callback = j_callback_url j, pl_failed = j_pages_failed j\<rparr>)"
  by (auto simp: finalise_plan_def bindE_Inr_iff split: option.splits)

lemma final_state_cases:
  "fst (final_state v n) = SUSPECT \<longleftrightarrow> suspect v"
  "fst (final_state v n) = PARTIAL \<longleftrightarrow> \<not> suspect v \<and> n \<noteq> 0"
  "fst (final_state v n) = SUCCEEDED \<longleftrightarrow> \<not> suspect v \<and> n = 0"
  by (auto simp: final_state_def)

lemma final_state_terminal: "terminal (fst (final_state v n))"
  by (simp add: final_state_def)

lemma final_state_reachable: "can_transition RUNNING (fst (final_state v n))"
  by (auto simp: final_state_def)

lemma finalise_merge_frame:
  assumes "finalise_merge D now db i p results rows = Inr (emitted, v, db')"
  shows "jobs db' = jobs db" "job_pages db' = job_pages db" "failed_pages db' = failed_pages db"
    "dead_letters db' = dead_letters db"
  using assms
  by (auto simp: finalise_merge_def bindE_Inr_iff Let_def store_snapshot_def update_baseline_def
      split: if_splits option.splits)

lemma finalise_merge_emitted:
  assumes "finalise_merge D now db i p results rows = Inr (emitted, v, db')"
  shows "emitted = (if pl_incremental p
      then diff_rows (diff_against_snapshot (sha256 D) db (pl_spec p) rows) else rows)"
  using assms by (auto simp: finalise_merge_def bindE_Inr_iff Let_def)

lemma drift_check_snapshots:
  "drift_baselines db' = drift_baselines db \<Longrightarrow> drift_check c db' t n p = drift_check c db t n p"
  by (simp add: drift_check_def get_baseline_def)

lemma finalise_merge_verdict:
  assumes "finalise_merge D now db i p results rows = Inr (emitted, v, db')"
  shows "v = drift_check (cfg D) db (t_name (pl_spec p)) (int (length rows)) (pages_fetched results)"
proof -
  obtain db1 where db1: "store_snapshot (sha256 D) now db (pl_spec p) rows i = Inr db1"
    and v: "v = drift_check (cfg D) db1 (t_name (pl_spec p)) (int (length rows))
        (max (pages_fetched results) 0)"
    using assms by (auto simp: finalise_merge_def bindE_Inr_iff Let_def)
  have "drift_baselines db1 = drift_baselines db"
    using db1 by (auto simp: store_snapshot_def Let_def split: if_splits)
  from drift_check_snapshots [OF this] show ?thesis unfolding v by (simp add: pages_fetched_def)
qed

lemma finalise_write_done:
  assumes "get_job db i = Some j" and "finalise_write now db i key bytes n st = Inr (Some db')"
  obtains r where "get_job db' i = Some r" "j_state r = fst st" "j_result_key r = Some key"
    "j_rows r = n" "j_finished_at r = (if terminal (fst st) then Some now else j_finished_at j)"
proof -
  let ?j = "j\<lparr>j_result_key := Some key, j_result_bytes := Some (int bytes), j_rows := n\<rparr>"
  let ?j' = "transition_cols now (fst st) (snd st) ?j"
  have db': "db' = flush_job now j ?j' db"
    using assms by (auto simp: finalise_write_def bindE_Inr_iff transition_Inr split: option.splits)
  have id: "j_id ?j' = i" using get_job_id [OF assms(1)] by simp
  from flush_own_state [OF assms(1) id, of now] show thesis
    by (rule exE) (rule that, auto simp: db' transition_cols_def)
qed

lemma finalise_write_illegal:
  assumes "get_job db i = Some j" and "\<not> can_transition (j_state j) (fst st)"
  shows "finalise_write now db i key bytes n st = Inl (IllegalTransition (j_state j) (fst st))"
  using assms by (simp add: finalise_write_def transition_def assert_transition_def)

lemma store_ok_frame_snapshots:
  assumes "store_ok db" and "jobs db' = jobs db" "job_pages db' = job_pages db"
    "failed_pages db' = failed_pages db" "dead_letters db' = dead_letters db"
  shows "store_ok db'"
  using assms
  by (simp add: store_ok_def keys_ok_def idempotency_ok_def refs_ok_def jobs_ok_def counts_ok_def
      pages_of_def failures_of_def)

lemma store_ok_merge:
  "finalise_merge D now db i p results rows = Inr (emitted, v, db') \<Longrightarrow> store_ok db \<Longrightarrow> store_ok db'"
  by (rule store_ok_frame_snapshots) (assumption | rule finalise_merge_frame)+

lemma store_ok_write:
  assumes "finalise_write now db i key bytes n st = Inr (Some db')" and "store_ok db"
  shows "store_ok db'"
proof -
  obtain j where j: "get_job db i = Some j"
    and db': "db' = flush_job now j (transition_cols now (fst st) (snd st)
       (j\<lparr>j_result_key := Some key, j_result_bytes := Some (int bytes), j_rows := n\<rparr>)) db"
    using assms(1) by (auto simp: finalise_write_def bindE_Inr_iff transition_Inr split: option.splits)
  show ?thesis unfolding db' by (rule store_ok_flush_own [OF assms(2) j]) simp
qed

text \<open>
  C16. The rows assembled from the results of the pages do not depend on the order the page
  tasks finished in: they are the rows of the pages in page order.
\<close>

theorem rows_any_order:
  assumes "mset results = mset results'" and "distinct (map pr_page results)"
    and key: "\<And>r. r \<in> set results \<Longrightarrow> pr_key r = Some (page_key i (pr_page r))"
    and body: "\<And>r. r \<in> set results \<Longrightarrow>
      o_get (storage D) (page_key i (pr_page r)) s = Inr (page_body_text (rows (pr_page r)))"
    and ok: "\<And>r x. r \<in> set results \<Longrightarrow> x \<in> set (rows (pr_page r)) \<Longrightarrow> row_ok x"
  shows "load_rows D s results' = Inr (concat (map rows (sort (map pr_page results))))"
proof -
  have "sort_key pr_page results' = sort_key pr_page results"
    using assms(1,2) by (intro sort_key_unique) simp_all
  moreover have "mapE (page_rows D s) rs = Inr (map rows (map pr_page rs))"
    if "set rs \<subseteq> set results" for rs
    using that
  proof (induction rs)
    case (Cons r rs)
    then have r: "r \<in> set results" by simp
    have "page_key i (pr_page r) \<noteq> []" by (simp add: page_key_def)
    then have "page_rows D s r = Inr (rows (pr_page r))"
      using rows_of_stored [of "rows (pr_page r)"] ok [OF r] key [OF r] body [OF r]
      by (simp add: page_rows_def)
    with Cons show ?case by simp
  qed simp
  moreover have "map pr_page (sort_key pr_page results) = sort (map pr_page results)"
    by (rule properties_for_sort [symmetric]) simp_all
  ultimately show ?thesis by (simp add: load_rows_def flip: map_map)
qed

abbreviation undisturbed :: "nat \<Rightarrow> ('s, 'r) world \<Rightarrow> ('s, 'r) world" where
  "undisturbed \<equiv> \<lambda>_ w. w"

lemma finalise_done:
  assumes "finalise_job D undisturbed now i results w = (Inr (FinalDone st n key), w')"
  obtains p rows emitted v db2 bytes s' db4 where
    "finalise_plan D (w_db w) i = Inr (Inr p)"
    "load_rows D (w_objects w) results = Inr rows"
    "finalise_merge D now (w_db w) i p results (kept_rows (dedupe rows (pl_spec p))) = Inr (emitted, v, db2)"
    "put_bytes (storage D) (result_key_of i (pl_format p)) (payload_of p emitted)
       (if pl_format p = ''csv'' then ''text/csv'' else ''application/json'') (w_objects w) = Inr (bytes, s')"
    "finalise_write now db2 i (result_key_of i (pl_format p)) bytes (int (length emitted))
       (final_state v (pl_failed p)) = Inr (Some db4)"
    "st = fst (final_state v (pl_failed p))" "n = int (length emitted)"
    "key = result_key_of i (pl_format p)" "w_db w' = db4" "w_objects w' = s'"
proof -
  obtain p where p: "finalise_plan D (w_db w) i = Inr (Inr p)"
    using assms by (auto simp: finalise_job_def finalise_plan_def bindE_Inr_iff split: sum.splits option.splits if_splits)
  note run = assms [unfolded finalise_job_def p sum.case Let_def]
  let ?ct = "if pl_format p = ''csv'' then ''text/csv'' else ''application/json''"
  obtain rows where rows: "load_rows D (w_objects w) results = Inr rows"
    using run by (cases "load_rows D (w_objects w) results") simp_all
  obtain emitted v db2 where merge:
    "finalise_merge D now (w_db w) i p results (kept_rows (dedupe rows (pl_spec p))) = Inr (emitted, v, db2)"
    using run rows by (cases "finalise_merge D now (w_db w) i p results (kept_rows (dedupe rows (pl_spec p)))") auto
  note run2 = run [unfolded rows sum.case Let_def merge prod.case]
  obtain bytes s' where put: "put_bytes (storage D) (result_key_of i (pl_format p)) (payload_of p emitted) ?ct
      (w_objects w) = Inr (bytes, s')"
    using run2
    by (cases "put_bytes (storage D) (result_key_of i (pl_format p)) (payload_of p emitted) ?ct (w_objects w)") auto
  let ?wr = "finalise_write now db2 i (result_key_of i (pl_format p)) bytes (int (length emitted))
    (final_state v (pl_failed p))"
  have run3: "(case ?wr of
        Inl e \<Rightarrow> (Inl e, w\<lparr>w_db := db2, w_objects := s'\<rparr>)
      | Inr None \<Rightarrow> (Inr FinalMissing, w\<lparr>w_db := db2, w_objects := s'\<rparr>)
      | Inr (Some db4) \<Rightarrow>
          (Inr (FinalDone (fst (final_state v (pl_failed p))) (int (length emitted)) (result_key_of i (pl_format p))),
           notify p i (fst (final_state v (pl_failed p))) (int (length emitted))
             (w\<lparr>w_objects := s', w_db := db4\<rparr>))) = (Inr (FinalDone st n key), w')"
    using run2 put by (auto split: sum.splits option.splits)
  obtain db4 where "?wr = Inr (Some db4)"
    using run3 by (auto split: sum.splits option.splits)
  with that [OF p rows merge put] run3 show thesis
    by (auto simp: notify_def split: option.splits if_splits)
qed

lemma finalise_outcome:
  assumes "object_store (storage D) objects" and j: "get_job (w_db w) i = Some j"
    and ran: "finalise_job D undisturbed now i results w = (Inr (FinalDone st n key), w')"
  shows "\<exists>spec rows r. spec_of D (j_target j) = Inr spec
    \<and> load_rows D (w_objects w) results = Inr rows
    \<and> (let deduped = kept_rows (dedupe rows spec);
           emitted = (if j_incremental j
             then diff_rows (diff_against_snapshot (sha256 D) (w_db w) spec deduped) else deduped);
           verdict = drift_check (cfg D) (w_db w) (t_name spec) (int (length deduped))
             (int (length (filter (\<lambda>r. \<not> pr_failed r) results)))
       in st = (if suspect verdict then SUSPECT else if j_pages_failed j \<noteq> 0 then PARTIAL else SUCCEEDED)
        \<and> n = int (length emitted)
        \<and> objects (w_objects w') key = Some (if j_output_format j = ''csv''
              then to_csv emitted (columns spec) else to_json emitted))
    \<and> get_job (w_db w') i = Some r \<and> j_state r = st \<and> j_result_key r = Some key \<and> j_rows r = n
    \<and> j_finished_at r = Some now"
proof -
  obtain p rows emitted v db2 bytes s' db4 where p: "finalise_plan D (w_db w) i = Inr (Inr p)"
    and rows: "load_rows D (w_objects w) results = Inr rows"
    and merge: "finalise_merge D now (w_db w) i p results (kept_rows (dedupe rows (pl_spec p)))
      = Inr (emitted, v, db2)"
    and put: "put_bytes (storage D) (result_key_of i (pl_format p)) (payload_of p emitted)
       (if pl_format p = ''csv'' then ''text/csv'' else ''application/json'') (w_objects w) = Inr (bytes, s')"
    and wr: "finalise_write now db2 i (result_key_of i (pl_format p)) bytes (int (length emitted))
       (final_state v (pl_failed p)) = Inr (Some db4)"
    and out: "st = fst (final_state v (pl_failed p))" "n = int (length emitted)"
      "key = result_key_of i (pl_format p)" "w_db w' = db4" "w_objects w' = s'"
    using finalise_done [OF ran] by blast
  from p j obtain spec where spec: "spec_of D (j_target j) = Inr spec"
    and pl: "p = \<lparr>pl_spec = spec, pl_format = j_output_format j, pl_incremental = j_incremental j,
               pl_callback = j_callback_url j, pl_failed = j_pages_failed j\<rparr>"
    by (auto simp: finalise_plan_go)
  have "get_job db2 i = Some j" using finalise_merge_frame(1) [OF merge] j by (simp add: get_job_def)
  from finalise_write_done [OF this wr] obtain r where r: "get_job db4 i = Some r"
    "j_state r = st" "j_result_key r = Some key" "j_rows r = n"
    "j_finished_at r = (if terminal st then Some now else j_finished_at j)"
    unfolding out by blast
  have "terminal st" unfolding out by (rule final_state_terminal)
  moreover have "objects s' key = Some (payload_of p emitted)"
    using object_store.put_bytes_objects(2) [OF assms(1) put] out(3) by simp
  moreover have "st = (if suspect v then SUSPECT else if j_pages_failed j \<noteq> 0 then PARTIAL else SUCCEEDED)"
    by (simp add: out(1) final_state_def pl)
  ultimately show ?thesis
    using spec rows r out finalise_merge_verdict [OF merge] finalise_merge_emitted [OF merge]
    by (intro exI [of _ spec] exI [of _ rows] exI [of _ r])
       (simp add: pl Let_def payload_of_def pages_fetched_def)
qed

text \<open>
  C17. An undisturbed assembly that ends with a final state has uploaded the deduplicated rows
  (or the changed ones of an incremental job) in the format of the job, and the job is SUSPECT,
  PARTIAL or SUCCEEDED according to the drift verdict and the failed pages, with the key, the
  row count and the finish time of that upload.
\<close>

theorem finalised_job:
  assumes "object_store (storage D) objects" and j: "get_job (w_db w) i = Some j"
    and ran: "finalise_job D undisturbed now i results w = (Inr (FinalDone st n key), w')"
  shows "\<exists>spec rows r. spec_of D (j_target j) = Inr spec
    \<and> load_rows D (w_objects w) results = Inr rows
    \<and> (let deduped = kept_rows (dedupe rows spec);
           emitted = (if j_incremental j
             then diff_rows (diff_against_snapshot (sha256 D) (w_db w) spec deduped) else deduped);
           verdict = drift_check (cfg D) (w_db w) (t_name spec) (int (length deduped))
             (int (length (filter (\<lambda>r. \<not> pr_failed r) results)))
       in st = (if suspect verdict then SUSPECT else if j_pages_failed j \<noteq> 0 then PARTIAL else SUCCEEDED)
        \<and> n = int (length emitted)
        \<and> objects (w_objects w') key = Some (if j_output_format j = ''csv''
              then to_csv emitted (columns spec) else to_json emitted))
    \<and> get_job (w_db w') i = Some r \<and> j_state r = st \<and> j_result_key r = Some key \<and> j_rows r = n
    \<and> j_finished_at r = Some now"
  by (rule finalise_outcome) fact+


text \<open>
  C18. A redelivered assembly of a job that has already finished rewrites the result object and
  commits a second snapshot and baseline update before it fails with IllegalTransition; of an
  incremental job whose rows have not changed the rewritten result is empty.
\<close>

theorem redelivered_assemble_overwrites:
  assumes store: "object_store (storage D) objects" and j: "get_job (w_db w) i = Some j"
    and final: "j_state j \<in> {SUCCEEDED, PARTIAL, SUSPECT}" and spec: "spec_of D (j_target j) = Inr spec"
    and rows: "load_rows D (w_objects w) results = Inr rows"
    and merge: "finalise_merge D now (w_db w) i p results (kept_rows (dedupe rows spec)) = Inr (emitted, v, db2)"
    and p: "p = \<lparr>pl_spec = spec, pl_format = j_output_format j, pl_incremental = j_incremental j,
               pl_callback = j_callback_url j, pl_failed = j_pages_failed j\<rparr>"
    and put: "put_bytes (storage D) (result_key_of i (j_output_format j)) (payload_of p emitted)
       (if j_output_format j = ''csv'' then ''text/csv'' else ''application/json'') (w_objects w) = Inr (bytes, s')"
  shows "finalise_job D undisturbed now i results w =
      (Inl (IllegalTransition (j_state j) (fst (final_state v (j_pages_failed j)))),
       w\<lparr>w_db := db2, w_objects := s'\<rparr>)
    \<and> get_job db2 i = Some j
    \<and> objects s' (result_key_of i (j_output_format j)) = Some (payload_of p emitted)
    \<and> (j_incremental j \<longrightarrow>
        (\<forall>r \<in> set (kept_rows (dedupe rows spec)).
           map_of (stored_hashes (w_db w) (t_name spec)) (row_identity r spec) = Some (row_hash (sha256 D) r))
        \<longrightarrow> emitted = [])"
proof -
  have go: "finalise_plan D (w_db w) i = Inr (Inr p)" using j final spec by (auto simp: finalise_plan_go p)
  have j2: "get_job db2 i = Some j" using finalise_merge_frame(1) [OF merge] j by (simp add: get_job_def)
  have "\<not> can_transition (j_state j) t" for t using final terminal_no_transition by auto
  from finalise_write_illegal [OF j2 this, of now "result_key_of i (j_output_format j)" bytes
      "int (length emitted)" "final_state v (j_pages_failed j)"]
  have "finalise_job D undisturbed now i results w =
      (Inl (IllegalTransition (j_state j) (fst (final_state v (j_pages_failed j)))),
       w\<lparr>w_db := db2, w_objects := s'\<rparr>)"
    using go rows merge put by (simp add: finalise_job_def p)
  moreover have "objects s' (result_key_of i (j_output_format j)) = Some (payload_of p emitted)"
    using object_store.put_bytes_objects(2) [OF store put] by simp
  moreover have "emitted = []" if "j_incremental j"
    "\<forall>r \<in> set (kept_rows (dedupe rows spec)).
       map_of (stored_hashes (w_db w) (t_name spec)) (row_identity r spec) = Some (row_hash (sha256 D) r)"
    using finalise_merge_emitted [OF merge] that
    by (simp add: p diff_rows_def diff_fields [OF refl] filter_empty_conv)
  ultimately show ?thesis using j2 by blast
qed

definition page_store :: mem_s3 where
  "page_store = \<lparr>ms_bucket = True, ms_objects =
     [(page_key ''j1'' 1, page_body_text (take 1 sample_rows)),
      (page_key ''j1'' 2, page_body_text (drop 1 sample_rows))]\<rparr>"

definition page_results :: "page_result list" where
  "page_results = [done_result 2 2 (page_key ''j1'' 2) False, done_result 1 1 (page_key ''j1'' 1) False]"

lemma sample_rows_ok: "x \<in> set sample_rows \<Longrightarrow> row_ok x"
  unfolding row_ok_def sample_rows_def by auto

lemma page_store_get:
  "o_get mem_store (page_key ''j1'' 1) page_store = Inr (page_body_text (take 1 sample_rows))"
  "o_get mem_store (page_key ''j1'' 2) page_store = Inr (page_body_text (drop 1 sample_rows))"
  by (simp_all add: mem_store_def page_store_def page_key_inj)

theorem rows_any_order_witness:
  "load_rows sample_deployment page_store (rev page_results)
     = Inr (concat (map (\<lambda>p::int. if p = 1 then take 1 sample_rows else drop 1 sample_rows) (sort [2, 1])))"
proof -
  have 1: "mset page_results = mset (rev page_results)" by simp
  have 2: "distinct (map pr_page page_results)" by (simp add: page_results_def done_result_def)
  have 3: "pr_key r = Some (page_key ''j1'' (pr_page r))" if "r \<in> set page_results" for r
    using that by (auto simp: page_results_def done_result_def)
  have 4: "o_get (storage sample_deployment) (page_key ''j1'' (pr_page r)) page_store
      = Inr (page_body_text (if pr_page r = 1 then take 1 sample_rows else drop 1 sample_rows))"
    if "r \<in> set page_results" for r
    using that by (auto simp: page_results_def done_result_def page_store_get)
  have 5: "row_ok x" if "r \<in> set page_results"
    "x \<in> set (if pr_page r = 1 then take 1 sample_rows else drop 1 sample_rows)" for r x
    using that sample_rows_ok by (auto split: if_splits dest: in_set_takeD in_set_dropD)
  have "load_rows sample_deployment page_store (rev page_results) = Inr (concat (map
      (\<lambda>p::int. if p = 1 then take 1 sample_rows else drop 1 sample_rows) (sort (map pr_page page_results))))"
    by (rule rows_any_order [OF 1 2]; (rule 3 4 5; assumption))
  then show ?thesis by (simp add: page_results_def done_result_def)
qed

text \<open>A job whose two pages are in the store: the rows, what is kept of them, and the verdict.\<close>

lemma page_results_rows: "load_rows sample_deployment page_store page_results = Inr sample_rows"
proof -
  have rows: "bindE (loads (page_body_text rs)) rows_of_json = Inr rs" if "set rs \<subseteq> set sample_rows" for rs
    using rows_of_stored [of rs] that sample_rows_ok by blast
  have keys: "page_key ''j1'' n \<noteq> []" for n by (simp add: page_key_def)
  have sorted: "sort_key pr_page page_results = rev page_results"
    by (simp add: page_results_def done_result_def)
  have "page_rows sample_deployment page_store (done_result 1 1 (page_key ''j1'' 1) False) = Inr (take 1 sample_rows)"
    "page_rows sample_deployment page_store (done_result 2 2 (page_key ''j1'' 2) False) = Inr (drop 1 sample_rows)"
    using rows [of "take 1 sample_rows"] rows [of "drop 1 sample_rows"] keys
    by (simp_all add: page_rows_def done_result_def page_store_get set_take_subset set_drop_subset)
  then show ?thesis unfolding load_rows_def sorted by (simp add: page_results_def)
qed

definition ready_world :: "job_state \<Rightarrow> (mem_s3, mem) world" where
  "ready_world st = (sample_world (empty_db\<lparr>jobs := [running_job\<lparr>j_state := st\<rparr>]\<rparr>))\<lparr>w_objects := page_store\<rparr>"

lemma ready_world_sel [simp]:
  "get_job (w_db (ready_world st)) ''j1'' = Some (running_job\<lparr>j_state := st\<rparr>)"
  "w_objects (ready_world st) = page_store"
  by (simp_all add: ready_world_def get_job_def)

definition ready_plan :: plan where
  "ready_plan = \<lparr>pl_spec = sample_spec, pl_format = ''csv'', pl_incremental = False, pl_callback = None,
     pl_failed = 0\<rparr>"

lemma ready_merge:
  "\<exists>db2. finalise_merge sample_deployment 9 (w_db (ready_world st)) ''j1'' ready_plan page_results
     (kept_rows (dedupe sample_rows sample_spec))
   = Inr (take 2 sample_rows, \<lparr>suspect = False, observed = 1, baseline = None, reason = ''no baseline yet''\<rparr>, db2)"
proof -
  have kept: "kept_rows (dedupe sample_rows sample_spec) = take 2 sample_rows"
    and ne: "take 2 sample_rows \<noteq> []" by code_simp+
  have ids: "distinct (map (\<lambda>r. row_identity r sample_spec) (take 2 sample_rows))"
    "\<not> list_ex snapshot_too_long (map (snapshot_row (sha256 sample_deployment) 9 sample_spec ''j1'') (take 2 sample_rows))"
    by code_simp+
  then obtain db1 where store: "store_snapshot (sha256 sample_deployment) 9 (w_db (ready_world st)) sample_spec
      (take 2 sample_rows) ''j1'' = Inr db1"
    using ne by (simp add: store_snapshot_def Let_def comp_def del: take_eq_Nil)
  have "get_baseline db1 ''grants'' = None"
    using store by (auto simp: store_snapshot_def Let_def get_baseline_def ready_world_def empty_db_def split: if_splits)
  moreover have "t_name sample_spec = ''grants''" "pages_fetched page_results = 2"
    by (simp_all add: sample_spec_def pages_fetched_def page_results_def done_result_def)
  ultimately show ?thesis unfolding kept
    using store fl_int [of 1] by (simp add: finalise_merge_def ready_plan_def drift_check_def sample_rows_def)
qed

theorem finalised_job_witness:
  "\<exists>w' r. finalise_job sample_deployment undisturbed 9 ''j1'' page_results (ready_world RUNNING)
      = (Inr (FinalDone SUCCEEDED 2 (result_key_of ''j1'' ''csv'')), w')
    \<and> get_job (w_db w') ''j1'' = Some r \<and> j_state r = SUCCEEDED \<and> j_rows r = 2"
proof -
  have store: "object_store (storage sample_deployment) (\<lambda>s. map_of (ms_objects s))"
    using mem_objects.object_store_axioms by simp
  have j: "get_job (w_db (ready_world RUNNING)) ''j1'' = Some (running_job\<lparr>j_state := RUNNING\<rparr>)" by simp
  obtain db2 where m: "finalise_merge sample_deployment 9 (w_db (ready_world RUNNING)) ''j1'' ready_plan page_results
     (kept_rows (dedupe sample_rows sample_spec))
   = Inr (take 2 sample_rows, \<lparr>suspect = False, observed = 1, baseline = None, reason = ''no baseline yet''\<rparr>, db2)"
    using ready_merge by blast
  have j2: "get_job db2 ''j1'' = Some (running_job\<lparr>j_state := RUNNING\<rparr>)"
    using finalise_merge_frame(1) [OF m] j by (simp add: get_job_def)
  have plan: "finalise_plan sample_deployment (w_db (ready_world RUNNING)) ''j1'' = Inr (Inr ready_plan)"
    by (simp add: finalise_plan_def ready_plan_def)
  have "length (take 2 sample_rows) = 2" by (simp add: sample_rows_def)
  moreover have "pl_spec ready_plan = sample_spec" "pl_format ready_plan = ''csv''" "pl_failed ready_plan = 0"
    by (simp_all add: ready_plan_def)
  ultimately obtain w' where run: "finalise_job sample_deployment undisturbed 9 ''j1'' page_results (ready_world RUNNING)
      = (Inr (FinalDone SUCCEEDED 2 (result_key_of ''j1'' ''csv'')), w')"
    using m j2 page_results_rows plan
    by (simp add: finalise_job_def Let_def final_state_def finalise_write_def transition_def
        assert_transition_def)
  from finalised_job [OF store j run] run show ?thesis by blast
qed

theorem redelivered_assemble_overwrites_witness:
  "\<exists>db2 s'. finalise_job sample_deployment undisturbed 9 ''j1'' page_results (ready_world PARTIAL)
      = (Inl (IllegalTransition PARTIAL SUCCEEDED), (ready_world PARTIAL)\<lparr>w_db := db2, w_objects := s'\<rparr>)
    \<and> map_of (ms_objects s') (result_key_of ''j1'' ''csv'') = Some (payload_of ready_plan (take 2 sample_rows))"
proof -
  have store: "object_store (storage sample_deployment) (\<lambda>s. map_of (ms_objects s))"
    using mem_objects.object_store_axioms by simp
  let ?j = "running_job\<lparr>j_state := PARTIAL\<rparr>"
  have j: "get_job (w_db (ready_world PARTIAL)) ''j1'' = Some ?j" by simp
  have f: "j_state ?j \<in> {SUCCEEDED, PARTIAL, SUSPECT}" and spec: "spec_of sample_deployment (j_target ?j) = Inr sample_spec"
    by simp_all
  have rows: "load_rows sample_deployment (w_objects (ready_world PARTIAL)) page_results = Inr sample_rows"
    using page_results_rows by simp
  obtain db2 where m: "finalise_merge sample_deployment 9 (w_db (ready_world PARTIAL)) ''j1'' ready_plan page_results
     (kept_rows (dedupe sample_rows sample_spec))
   = Inr (take 2 sample_rows, \<lparr>suspect = False, observed = 1, baseline = None, reason = ''no baseline yet''\<rparr>, db2)"
    using ready_merge by blast
  have p: "ready_plan = \<lparr>pl_spec = sample_spec, pl_format = j_output_format ?j, pl_incremental = j_incremental ?j,
     pl_callback = j_callback_url ?j, pl_failed = j_pages_failed ?j\<rparr>" by (simp add: ready_plan_def)
  obtain bytes s' where "put_bytes (storage sample_deployment) (result_key_of ''j1'' (j_output_format ?j))
      (payload_of ready_plan (take 2 sample_rows))
      (if j_output_format ?j = ''csv'' then ''text/csv'' else ''application/json'') (w_objects (ready_world PARTIAL))
      = Inr (bytes, s')" by simp
  from redelivered_assemble_overwrites [OF store j f spec rows m p this]
  show ?thesis by (intro exI [of _ db2] exI [of _ s']) (simp add: final_state_def)
qed

end
