(* ===== verification/RateLimit.thy ===== *)
theory RateLimit
  imports Redis States Double
begin

text \<open>
  The Redis token bucket of \<^verbatim>\<open>queue/ratelimit.py\<close>.  The Lua script is split into its
  arithmetic (\<open>bucket_step\<close>) and its commands (\<open>bucket_script\<close>); \<open>consume\<close> and
  \<open>wait_for_slot\<close> are the methods of \<^verbatim>\<open>TokenBucket\<close>.  Lua's and Python's floating
  point numbers are modelled by exact rationals.

  The locale \<open>limiter\<close> is the contract callers rely on: a level between zero and a capacity that
  refills at a rate.  Its client lemma is the budget: whatever the callers do, no more is granted
  than the level at the start plus the refill.  \<open>redis_bucket\<close> shows that the script provides
  the contract on any Redis server, key expiry included.
\<close>

record decision =
  allowed :: bool
  retry_after :: rat

text \<open>From the stored tokens and timestamp to the answer and what is stored back.\<close>

definition bucket_step ::
  "rat \<Rightarrow> rat \<Rightarrow> rat \<Rightarrow> rat \<Rightarrow> (rat \<times> rat) option \<Rightarrow> decision \<times> rat \<times> rat" where
  "bucket_step rate capacity now requested bucket =
     (let (tokens0, ts) = (case bucket of None \<Rightarrow> (capacity, now) | Some b \<Rightarrow> b);
          elapsed = max 0 (now - ts);
          tokens = min capacity (tokens0 + elapsed * rate)
      in if requested \<le> tokens
         then (\<lparr>allowed = True, retry_after = 0\<rparr>, tokens - requested, now)
         else (\<lparr>allowed = False, retry_after = (requested - tokens) / rate\<rparr>, tokens, now))"

definition bucket_script ::
  "'r redis \<Rightarrow> string \<Rightarrow> rat \<Rightarrow> rat \<Rightarrow> rat \<Rightarrow> rat \<Rightarrow> 'r \<Rightarrow> decision \<times> 'r" where
  "bucket_script R key rate capacity now requested r =
     (let (d, tokens, ts) = bucket_step rate capacity now requested (r_hmget R key r);
          r1 = r_hset R key tokens ts r;
          r2 = r_expire R key (\<lceil>capacity / rate\<rceil> + 60) r1
      in (d, r2))"

definition bucket_key :: "string \<Rightarrow> string \<Rightarrow> string" where
  "bucket_key pfx name = pfx @ '':'' @ name"

definition bucket_capacity :: "rat \<Rightarrow> rat option \<Rightarrow> rat" where
  "bucket_capacity rate capacity = (case capacity of Some c \<Rightarrow> c | None \<Rightarrow> max rate 1)"

definition consume ::
  "'r redis \<Rightarrow> string \<Rightarrow> string \<Rightarrow> rat \<Rightarrow> rat option \<Rightarrow> rat \<Rightarrow> rat \<Rightarrow> 'r \<Rightarrow> decision \<times> 'r" where
  "consume R pfx name rate capacity tokens now r =
     bucket_script R (bucket_key pfx name) rate (bucket_capacity rate capacity) now tokens r"

text \<open>The message prints the timeout, which the callers give with at most one decimal.\<close>

definition wait_exceeded :: "rat \<Rightarrow> string \<Rightarrow> exn" where
  "wait_exceeded timeout name =
     TimeoutError (''rate limit wait exceeded '' @ fixed1 timeout @ ''s for '' @ name)"

text \<open>
  The polling loop.  \<open>now\<close> is the caller's clock, which a sleep moves forward together with
  the server's; \<open>env n\<close> is what other clients do to the server during the \<open>n\<close>-th sleep.
  \<open>None\<close> is running out of fuel.
\<close>

fun wait_for_slot ::
  "nat \<Rightarrow> 'r redis \<Rightarrow> (nat \<Rightarrow> 'r \<Rightarrow> 'r) \<Rightarrow> string \<Rightarrow> string \<Rightarrow> rat \<Rightarrow> rat \<Rightarrow> rat
    \<Rightarrow> nat \<Rightarrow> rat \<Rightarrow> rat \<Rightarrow> 'r \<Rightarrow> ((exn + rat) \<times> 'r) option" where
  "wait_for_slot 0 R env pfx name rate timeout tokens n now waited r = None"
| "wait_for_slot (Suc fuel) R env pfx name rate timeout tokens n now waited r =
     (let (d, r1) = consume R pfx name rate None tokens now r in
      if allowed d then Some (Inr waited, r1)
      else
        let delay = min (retry_after d) (timeout - waited) in
        if delay \<le> 0
        then Some (Inl (wait_exceeded timeout name), r1)
        else wait_for_slot fuel R env pfx name rate timeout tokens (Suc n)
               (now + delay) (waited + delay) (env n (r_sleep R delay r1)))"

subsection \<open>The contract of a limiter\<close>

datatype 'o limiter_event = Take rat | Pass rat | Other 'o

locale limiter =
  fixes inv :: "'s \<Rightarrow> bool" and level :: "'s \<Rightarrow> rat"
    and taken :: "rat \<Rightarrow> 's \<Rightarrow> bool \<times> 's" and pass :: "rat \<Rightarrow> 's \<Rightarrow> 's" and other :: "'o \<Rightarrow> 's \<Rightarrow> 's"
    and rate :: rat and cap :: rat
  assumes rate_pos: "0 < rate"
    and level_bounds: "inv s \<Longrightarrow> 0 \<le> level s \<and> level s \<le> cap"
    and taken_inv: "inv s \<Longrightarrow> 0 \<le> n \<Longrightarrow> inv (snd (taken n s))"
    and taken_iff: "inv s \<Longrightarrow> 0 \<le> n \<Longrightarrow> fst (taken n s) \<longleftrightarrow> n \<le> level s"
    and taken_level: "inv s \<Longrightarrow> 0 \<le> n \<Longrightarrow>
      level (snd (taken n s)) = (if n \<le> level s then level s - n else level s)"
    and pass_inv: "inv s \<Longrightarrow> 0 \<le> d \<Longrightarrow> inv (pass d s)"
    and pass_level: "inv s \<Longrightarrow> 0 \<le> d \<Longrightarrow> level (pass d s) = min cap (level s + rate * d)"
    and other_inv: "inv s \<Longrightarrow> inv (other e s)"
    and other_level: "inv s \<Longrightarrow> level (other e s) = level s"

text \<open>What a sequence of events is granted, how long it lasts, and which sequences make sense.\<close>

fun granted ::
  "(rat \<Rightarrow> 's \<Rightarrow> bool \<times> 's) \<Rightarrow> (rat \<Rightarrow> 's \<Rightarrow> 's) \<Rightarrow> ('o \<Rightarrow> 's \<Rightarrow> 's)
    \<Rightarrow> 'o limiter_event list \<Rightarrow> 's \<Rightarrow> rat" where
  "granted tk ps ot [] s = 0"
| "granted tk ps ot (Take n # es) s =
     (if fst (tk n s) then n else 0) + granted tk ps ot es (snd (tk n s))"
| "granted tk ps ot (Pass d # es) s = granted tk ps ot es (ps d s)"
| "granted tk ps ot (Other e # es) s = granted tk ps ot es (ot e s)"

fun duration :: "'o limiter_event list \<Rightarrow> rat" where
  "duration [] = 0"
| "duration (Pass d # es) = d + duration es"
| "duration (_ # es) = duration es"

fun event_ok :: "'o limiter_event \<Rightarrow> bool" where
  "event_ok (Take n) = (0 \<le> n)"
| "event_ok (Pass d) = (0 \<le> d)"
| "event_ok (Other e) = True"

context limiter
begin

lemma budget_level:
  "inv s \<Longrightarrow> list_all event_ok es \<Longrightarrow>
     granted taken pass other es s \<le> level s + rate * duration es"
proof (induction es arbitrary: s)
  case Nil
  then show ?case using level_bounds by simp
next
  case (Cons e es)
  show ?case
  proof (cases e)
    case (Take n)
    with Cons.prems have n: "0 \<le> n" by simp
    have "granted taken pass other es (snd (taken n s))
        \<le> level (snd (taken n s)) + rate * duration es"
      using Cons n by (simp add: taken_inv)
    with Take n Cons.prems(1) show ?thesis
      by (simp add: taken_iff taken_level split: if_splits)
  next
    case (Pass d)
    with Cons.prems have d: "0 \<le> d" by simp
    have "granted taken pass other es (pass d s) \<le> level (pass d s) + rate * duration es"
      using Cons d by (simp add: pass_inv)
    with Pass d Cons.prems(1) show ?thesis
      by (simp add: pass_level distrib_left)
  next
    case (Other x)
    with Cons show ?thesis using other_inv other_level by fastforce
  qed
qed

lemma budget:
  "inv s \<Longrightarrow> list_all event_ok es \<Longrightarrow>
     granted taken pass other es s \<le> cap + rate * duration es"
  using budget_level [of s es] level_bounds [of s] by linarith

text \<open>A caller that is refused and sleeps for the shortfall is served.\<close>

lemma served_after_shortfall:
  assumes "inv s" and "0 \<le> n" and "n \<le> cap" and "\<not> fst (taken n s)"
  shows "fst (taken n (pass ((n - level s) / rate) (snd (taken n s))))"
proof -
  let ?s1 = "snd (taken n s)" and ?d = "(n - level s) / rate"
  have lt: "level s < n" using assms by (simp add: taken_iff)
  then have d: "0 \<le> ?d" using rate_pos by simp
  have "level (pass ?d ?s1) = min cap (level s + rate * ?d)"
    using assms lt d by (simp add: pass_level taken_inv taken_level)
  also have "\<dots> = n" using rate_pos assms(3) by simp
  finally show ?thesis using assms d by (simp add: taken_iff pass_inv taken_inv)
qed

end

subsection \<open>The script provides the contract\<close>

text \<open>
  \<open>tokens_at\<close> is what a stored bucket is worth at time \<open>t\<close>; an absent bucket is full.
\<close>

definition tokens_at :: "rat \<Rightarrow> rat \<Rightarrow> rat \<Rightarrow> (rat \<times> rat) option \<Rightarrow> rat" where
  "tokens_at rate cap t b =
     (case b of None \<Rightarrow> cap | Some (tok, ts) \<Rightarrow> min cap (tok + max 0 (t - ts) * rate))"

lemma bucket_step_eq:
  "bucket_step rate cap now n b =
     (let a = tokens_at rate cap now b in
      (\<lparr>allowed = (n \<le> a), retry_after = (if n \<le> a then 0 else (n - a) / rate)\<rparr>,
       if n \<le> a then a - n else a, now))"
  if "0 \<le> cap" for now
  using that by (auto simp: bucket_step_def tokens_at_def Let_def split: option.splits)

text \<open>
  A worker's clock is the server's plus \<open>skew\<close>.  \<open>bucket_take\<close> is one call of
  \<open>consume\<close> at the present instant, \<open>other_take\<close> one on a bucket of another name.
\<close>

definition bucket_take ::
  "'r redis \<Rightarrow> ('r \<Rightarrow> rat) \<Rightarrow> rat \<Rightarrow> string \<Rightarrow> string \<Rightarrow> rat \<Rightarrow> rat \<Rightarrow> rat \<Rightarrow> 'r \<Rightarrow> bool \<times> 'r" where
  "bucket_take R clock skew pfx name rate cap n r =
     (let (d, r') = consume R pfx name rate (Some cap) n (clock r + skew) r in (allowed d, r'))"

definition other_take ::
  "'r redis \<Rightarrow> string \<Rightarrow> string \<Rightarrow> string \<times> rat \<times> rat option \<times> rat \<times> rat \<Rightarrow> 'r \<Rightarrow> 'r" where
  "other_take R pfx name e r =
     (case e of (name', rate', cap', n', now') \<Rightarrow>
        if name' = name then r else snd (consume R pfx name' rate' cap' n' now' r))"

definition bucket_level ::
  "('r \<Rightarrow> string \<Rightarrow> entry option) \<Rightarrow> ('r \<Rightarrow> rat) \<Rightarrow> rat \<Rightarrow> string \<Rightarrow> string \<Rightarrow> rat \<Rightarrow> rat \<Rightarrow> 'r \<Rightarrow> rat" where
  "bucket_level live clock skew pfx name rate cap r =
     tokens_at rate cap (clock r + skew) (entry_hash (live r (bucket_key pfx name)))"

text \<open>
  Either there is no bucket, or it holds between zero and \<open>cap\<close> tokens, was written at or before
  now, and its key lives until it would be full again.
\<close>

definition entry_inv :: "rat \<Rightarrow> rat \<Rightarrow> rat \<Rightarrow> rat \<Rightarrow> entry option \<Rightarrow> bool" where
  "entry_inv rate cap skew now e \<longleftrightarrow>
     (case e of None \<Rightarrow> True
      | Some (RHash tok ts, Some x) \<Rightarrow>
          0 \<le> tok \<and> tok \<le> cap \<and> ts \<le> now + skew \<and> ts + cap / rate \<le> x + skew
      | _ \<Rightarrow> False)"

definition bucket_inv ::
  "('r \<Rightarrow> string \<Rightarrow> entry option) \<Rightarrow> ('r \<Rightarrow> rat) \<Rightarrow> rat \<Rightarrow> string \<Rightarrow> string \<Rightarrow> rat \<Rightarrow> rat \<Rightarrow> 'r \<Rightarrow> bool" where
  "bucket_inv live clock skew pfx name rate cap r =
     entry_inv rate cap skew (clock r) (live r (bucket_key pfx name))"

lemma entry_invE:
  assumes "entry_inv rate cap skew now e"
  obtains "e = None"
  | tok ts x where "e = Some (RHash tok ts, Some x)" "0 \<le> tok" "tok \<le> cap" "ts \<le> now + skew"
      "ts + cap / rate \<le> x + skew"
  using assms
  by (cases e; cases "fst (the e)"; cases "snd (the e)") (auto simp: entry_inv_def)

lemma bucket_key_inj: "bucket_key pfx m = bucket_key pfx n \<longleftrightarrow> m = n"
  by (simp add: bucket_key_def)

lemma tokens_pass:
  assumes "entry_inv rate cap skew now e" and rate: "0 < rate" and d: "0 \<le> d"
  shows "tokens_at rate cap (now + d + skew) (entry_hash (still_live (now + d) e))
     = min cap (tokens_at rate cap (now + skew) (entry_hash e) + rate * d)"
  using assms(1)
proof (cases rule: entry_invE)
  case 1
  then show ?thesis using rate d by (simp add: still_live_def entry_hash_def tokens_at_def)
next
  case (2 tok ts x)
  let ?a = "tok + (now + skew - ts) * rate"
  have before: "tokens_at rate cap (now + skew) (entry_hash e) = min cap ?a"
    using 2 by (simp add: entry_hash_def tokens_at_def)
  have rd: "0 \<le> rate * d" using rate d by simp
  have later: "tok + (now + d + skew - ts) * rate = ?a + rate * d" by (simp add: algebra_simps)
  show ?thesis
  proof (cases "now + d < x")
    case True
    then show ?thesis
      using 2 before later d rd
      by (auto simp: still_live_def entry_hash_def tokens_at_def min_def)
  next
    case False
    then have "cap / rate \<le> now + d + skew - ts" using 2(5) by simp
    then have "cap \<le> (now + d + skew - ts) * rate" using rate by (simp add: pos_divide_le_eq)
    then have "cap \<le> ?a + rate * d" using later 2(2) by simp
    then show ?thesis
      using 2 before False d rate
      by (simp add: still_live_def entry_hash_def tokens_at_def min_def)
  qed
qed

lemma entry_inv_pass:
  "entry_inv rate cap skew now e \<Longrightarrow> 0 \<le> d \<Longrightarrow>
     entry_inv rate cap skew (now + d) (still_live (now + d) e)"
  by (erule entry_invE) (auto simp: entry_inv_def still_live_def)

lemma tokens_at_bounds:
  assumes "entry_inv rate cap skew now e" and "0 < rate" and "0 < cap"
  shows "0 \<le> tokens_at rate cap (now + skew) (entry_hash e)
       \<and> tokens_at rate cap (now + skew) (entry_hash e) \<le> cap"
  using assms(1)
  by (cases rule: entry_invE) (use assms(2,3) in \<open>simp_all add: entry_hash_def tokens_at_def\<close>)

locale redis_bucket = redis_server R live clock
  for R :: "'r redis" and live :: "'r \<Rightarrow> string \<Rightarrow> entry option" and clock :: "'r \<Rightarrow> rat" +
  fixes rate cap :: rat
  assumes rate_positive: "0 < rate" and cap_positive: "0 < cap"
begin

lemma consume_effect:
  assumes "a = bucket_level live clock skew pfx name rate cap r"
  shows "fst (bucket_take R clock skew pfx name rate cap n r) \<longleftrightarrow> n \<le> a"
    and "live (snd (bucket_take R clock skew pfx name rate cap n r)) = (live r)(bucket_key pfx name :=
      Some (RHash (if n \<le> a then a - n else a) (clock r + skew),
            Some (clock r + of_int (\<lceil>cap / rate\<rceil> + 60))))"
    and "clock (snd (bucket_take R clock skew pfx name rate cap n r)) = clock r"
proof -
  have "0 < \<lceil>cap / rate\<rceil>" using rate_positive cap_positive by simp
  then have "0 < \<lceil>cap / rate\<rceil> + 60" by linarith
  then show "fst (bucket_take R clock skew pfx name rate cap n r) \<longleftrightarrow> n \<le> a"
    "live (snd (bucket_take R clock skew pfx name rate cap n r)) = (live r)(bucket_key pfx name :=
      Some (RHash (if n \<le> a then a - n else a) (clock r + skew),
            Some (clock r + of_int (\<lceil>cap / rate\<rceil> + 60))))"
    "clock (snd (bucket_take R clock skew pfx name rate cap n r)) = clock r"
    using cap_positive assms
    by (simp_all add: bucket_take_def consume_def bucket_script_def bucket_step_eq Let_def
        bucket_capacity_def hmget hset expire clock_cmds bucket_level_def with_expiry_def
        case_prod_beta)
qed

lemma consume_other_key:
  "k \<noteq> bucket_key pfx name \<Longrightarrow>
     live (snd (consume R pfx name rt c n now r)) k = live r k
     \<and> clock (snd (consume R pfx name rt c n now r)) = clock r"
  by (simp add: consume_def bucket_script_def Let_def case_prod_beta hset expire clock_cmds)

end

sublocale redis_bucket \<subseteq> bucket: limiter "bucket_inv live clock skew pfx name rate cap"
  "bucket_level live clock skew pfx name rate cap" "bucket_take R clock skew pfx name rate cap"
  "r_sleep R" "other_take R pfx name" rate cap
  for skew pfx name
proof unfold_locales
  fix s n
  assume inv: "bucket_inv live clock skew pfx name rate cap s" and n: "(0::rat) \<le> n"
  let ?a = "bucket_level live clock skew pfx name rate cap s"
  let ?s = "snd (bucket_take R clock skew pfx name rate cap n s)"
  have a: "0 \<le> ?a" "?a \<le> cap"
    using tokens_at_bounds [OF inv [unfolded bucket_inv_def] rate_positive cap_positive]
    by (simp_all add: bucket_level_def)
  note eff = consume_effect [OF refl, of skew pfx name n s]
  have ceil: "cap / rate \<le> of_int (\<lceil>cap / rate\<rceil> + 60)"
    using le_of_int_ceiling [of "cap / rate"] by (simp del: le_of_int_ceiling)
  show "fst (bucket_take R clock skew pfx name rate cap n s) \<longleftrightarrow> n \<le> ?a" by (rule eff)
  show "bucket_inv live clock skew pfx name rate cap ?s"
    using a n ceil by (simp add: bucket_inv_def eff entry_inv_def)
  show "bucket_level live clock skew pfx name rate cap ?s = (if n \<le> ?a then ?a - n else ?a)"
    using a n by (simp add: bucket_level_def [of _ _ _ _ _ _ _ ?s] eff entry_hash_def tokens_at_def)
next
  fix s and d :: rat
  assume inv: "bucket_inv live clock skew pfx name rate cap s" and d: "0 \<le> d"
  show "bucket_inv live clock skew pfx name rate cap (r_sleep R d s)"
    using inv d by (simp add: bucket_inv_def clock_sleep live_sleep entry_inv_pass)
  show "bucket_level live clock skew pfx name rate cap (r_sleep R d s) =
      min cap (bucket_level live clock skew pfx name rate cap s + rate * d)"
    using inv d tokens_pass [OF _ rate_positive d]
    by (simp add: bucket_level_def bucket_inv_def clock_sleep live_sleep)
next
  fix s e
  assume inv: "bucket_inv live clock skew pfx name rate cap s"
  show "bucket_inv live clock skew pfx name rate cap (other_take R pfx name e s)"
    and "bucket_level live clock skew pfx name rate cap (other_take R pfx name e s) =
      bucket_level live clock skew pfx name rate cap s"
    using inv consume_other_key [of "bucket_key pfx name"]
    by (auto simp: bucket_inv_def bucket_level_def other_take_def bucket_key_inj split: prod.splits)
qed (use rate_positive tokens_at_bounds [OF _ rate_positive cap_positive] in
    \<open>auto simp: bucket_inv_def bucket_level_def\<close>)

subsection \<open>Waiting for a slot\<close>

context redis_bucket
begin

lemma refusal_wait:
  assumes "a = bucket_level live clock skew pfx name rate cap r"
  shows "retry_after (fst (consume R pfx name rate (Some cap) n (clock r + skew) r)) =
     (if n \<le> a then 0 else (n - a) / rate)"
  using assms cap_positive
  by (simp add: consume_def bucket_script_def bucket_step_eq Let_def bucket_capacity_def
      hmget bucket_level_def case_prod_beta)

text \<open>Two polls settle an uncontended wait: served after the shortfall, or timed out.\<close>

lemma wait_uncontended:
  assumes cap: "cap = max rate 1" and inv: "bucket_inv live clock skew pfx name rate cap r"
    and n: "0 \<le> n" "n \<le> cap" and timeout: "0 \<le> timeout"
    and w: "w = max 0 ((n - bucket_level live clock skew pfx name rate cap r) / rate)"
  shows "map_option fst (wait_for_slot (Suc (Suc fuel)) R (\<lambda>_ r. r) pfx name rate timeout n m
           (clock r + skew) 0 r) =
     Some (if w \<le> timeout then Inr w
           else Inl (wait_exceeded timeout name))"
proof -
  let ?L = "bucket_level live clock skew pfx name rate cap"
  let ?r1 = "snd (bucket_take R clock skew pfx name rate cap n r)"
  have same: "consume R pfx name rate None n t s = consume R pfx name rate (Some cap) n t s" for t s
    by (simp add: consume_def bucket_capacity_def cap)
  have allowed1: "allowed (fst (consume R pfx name rate (Some cap) n (clock s + skew) s)) \<longleftrightarrow> n \<le> ?L s"
    for s using consume_effect(1) [OF refl, of skew pfx name n s]
    by (simp add: bucket_take_def case_prod_beta)
  have r1: "snd (consume R pfx name rate (Some cap) n (clock r + skew) r) = ?r1"
    by (simp add: bucket_take_def case_prod_beta)
  have clock1: "clock ?r1 = clock r" by (rule consume_effect [OF refl])
  have later: "?L (r_sleep R d ?r1) = min cap (?L r + rate * d)"
    "clock (r_sleep R d ?r1) + skew = clock r + skew + d" if "0 \<le> d" "\<not> n \<le> ?L r" for d
    using that n inv
    by (simp_all add: bucket.pass_level bucket.taken_inv bucket.taken_level clock_sleep clock1)
  show ?thesis
  proof (cases "n \<le> ?L r")
    case True
    then have "(n - ?L r) / rate \<le> 0" using rate_positive by (simp add: divide_nonpos_pos)
    then have "w = 0" using w by simp
    with True timeout show ?thesis by (simp add: same allowed1 Let_def case_prod_beta)
  next
    case False
    then have wpos: "0 < w" and weq: "w = (n - ?L r) / rate" using w rate_positive by auto
    let ?d = "min w timeout"
    note second = later [of ?d]
    have d0: "0 \<le> ?d" using wpos timeout by simp
    have served: "n \<le> ?L (r_sleep R ?d ?r1) \<longleftrightarrow> w \<le> timeout"
    proof (cases "w \<le> timeout")
      case True
      then show ?thesis using second(1) [OF d0 False] n weq rate_positive by simp
    next
      case late: False
      then have "rate * timeout < n - ?L r" using weq rate_positive by (simp add: field_simps)
      then show ?thesis using second(1) [OF d0 False] n late by auto
    qed
    have "timeout = 0 \<or> 0 < ?d" using wpos timeout by auto
    then show ?thesis
      using False wpos timeout served
      by (auto simp: same allowed1 r1 Let_def case_prod_beta refusal_wait [OF refl] weq [symmetric]
          second(2) [OF d0 False, symmetric])
  qed
qed

end

text \<open>Whatever other clients do, a wait that is granted is within the timeout.\<close>

lemma wait_bounded:
  "wait_for_slot fuel R env pfx name rate timeout tokens n now waited r = Some (res, r') \<Longrightarrow>
     waited \<le> timeout \<Longrightarrow>
     (case res of Inr w \<Rightarrow> waited \<le> w \<and> w \<le> timeout
      | Inl e \<Rightarrow> e = wait_exceeded timeout name)"
proof (induction fuel arbitrary: n now waited r)
  case 0
  then show ?case by simp
next
  case (Suc fuel)
  obtain d r1 where c: "consume R pfx name rate None tokens now r = (d, r1)" by fastforce
  let ?delay = "min (retry_after d) (timeout - waited)"
  show ?case
  proof (cases "allowed d \<or> ?delay \<le> 0")
    case True
    with Suc.prems c show ?thesis by (auto simp: Let_def split: if_splits)
  next
    case False
    with Suc.prems(1) c have "wait_for_slot fuel R env pfx name rate timeout tokens (Suc n)
        (now + ?delay) (waited + ?delay) (env n (r_sleep R ?delay r1)) = Some (res, r')"
      by (simp add: Let_def)
    moreover have "0 < ?delay" "waited + ?delay \<le> timeout" using False by linarith+
    ultimately show ?thesis using Suc.IH by (fastforce split: sum.splits)
  qed
qed

subsection \<open>Clocks that disagree\<close>

text \<open>
  The timestamp stored is the caller's clock, and a caller behind it moves it back.  A run of
  calls for one token each, at the given clock readings.
\<close>

fun bucket_run :: "rat \<Rightarrow> rat \<Rightarrow> (rat \<times> rat) option \<Rightarrow> rat list \<Rightarrow> bool list" where
  "bucket_run rate cap b [] = []"
| "bucket_run rate cap b (t # ts) =
     (let (d, b') = bucket_step rate cap t 1 b in allowed d # bucket_run rate cap (Some b') ts)"

lemma bucket_run_skew:
  assumes "0 < rate" and "1 \<le> cap"
  shows "bucket_run rate cap (Some (0, t)) (concat (replicate n [t + 1 / rate, t]))
    = concat (replicate n [True, False])"
proof (induction n)
  case (Suc n)
  have "bucket_step rate cap (t + 1 / rate) 1 (Some (0, t)) =
      (\<lparr>allowed = True, retry_after = 0\<rparr>, 0, t + 1 / rate)"
    using assms by (simp add: bucket_step_def)
  moreover have "bucket_step rate cap t 1 (Some (0, t + 1 / rate)) =
      (\<lparr>allowed = False, retry_after = 1 / rate\<rparr>, 0, t)"
    using assms by (simp add: bucket_step_def)
  ultimately show ?case using Suc by (simp add: Let_def)
qed simp

interpretation mem_bucket: redis_bucket mem_redis mem_live m_clock 2 2
  by unfold_locales simp_all

context redis_bucket
begin

lemmas budget_of = bucket.budget

end

text \<open>
  C22. Over any sequence of requests by callers that share a clock offset, sleeps and traffic
  on other buckets, a bucket grants at most its capacity plus its rate times the time that
  passed, key expiry included.
\<close>

theorem bucket_budget:
  assumes "redis_server R live clock" and "0 < rate" and "0 < cap"
    and "bucket_inv live clock skew pfx name rate cap r" and "list_all event_ok es"
  shows "granted (bucket_take R clock skew pfx name rate cap) (r_sleep R) (other_take R pfx name) es r
    \<le> cap + rate * duration es"
  using assms by (intro redis_bucket.budget_of redis_bucket.intro redis_bucket_axioms.intro)

theorem bucket_budget_witness:
  "granted (bucket_take mem_redis m_clock 0 ''sq:rl'' ''domain:a'' 2 2) (r_sleep mem_redis)
     (other_take mem_redis ''sq:rl'' ''domain:a'') [Take 1, Take 1, Take 1, Pass (1 / 2), Take 1] mem_empty
    \<le> 2 + 2 * (1 / 2)"
proof -
  have inv: "bucket_inv mem_live m_clock 0 ''sq:rl'' ''domain:a'' 2 2 mem_empty"
    by (simp add: bucket_inv_def entry_inv_def mem_empty_def mem_live_def still_live_def)
  from bucket_budget [OF mem.redis_server_axioms _ _ inv, of "[Take 1, Take 1, Take 1, Pass (1 / 2), Take 1]"]
  show ?thesis by simp
qed



end
