(* ===== verification/Circuit.thy ===== *)
theory Circuit
  imports Redis Settings
begin

text \<open>
  The circuit breaker of \<^verbatim>\<open>queue/circuit.py\<close>: three keys per domain on the Redis server.
\<close>

datatype circuit_state = CLOSED | HALF_OPEN | OPEN

text \<open>\<^verbatim>\<open>IntEnum\<close>: the states are compared by their values.\<close>

fun circuit_value :: "circuit_state \<Rightarrow> int" where
  "circuit_value CLOSED = 0"
| "circuit_value HALF_OPEN = 1"
| "circuit_value OPEN = 2"

instantiation circuit_state :: linorder
begin

definition less_eq_circuit_state :: "circuit_state \<Rightarrow> circuit_state \<Rightarrow> bool" where
  "less_eq_circuit_state a b \<longleftrightarrow> circuit_value a \<le> circuit_value b"

definition less_circuit_state :: "circuit_state \<Rightarrow> circuit_state \<Rightarrow> bool" where
  "less_circuit_state a b \<longleftrightarrow> circuit_value a < circuit_value b"

instance
proof
  fix a b :: circuit_state
  show "a \<le> b \<Longrightarrow> b \<le> a \<Longrightarrow> a = b"
    by (cases a; cases b) (simp_all add: less_eq_circuit_state_def)
qed (auto simp: less_eq_circuit_state_def less_circuit_state_def)

end

definition circuit_prefix :: string where
  "circuit_prefix = ''sq:cb''"

definition domain_of :: "string \<Rightarrow> exn + string" where
  "domain_of url =
     bindE (urlparse url) (\<lambda>u. Inr (lower (case hostname u of None \<Rightarrow> ''unknown'' | Some h \<Rightarrow> h)))"

definition fails_key :: "string \<Rightarrow> string" where
  "fails_key d = circuit_prefix @ '':'' @ d @ '':fails''"

definition open_key :: "string \<Rightarrow> string" where
  "open_key d = circuit_prefix @ '':'' @ d @ '':open''"

definition probe_key :: "string \<Rightarrow> string" where
  "probe_key d = circuit_prefix @ '':'' @ d @ '':probe''"

definition circuit_state_of :: "'r redis \<Rightarrow> string \<Rightarrow> 'r \<Rightarrow> (circuit_state \<times> int) \<times> 'r" where
  "circuit_state_of R domain r =
     (let ttl = r_ttl R (open_key domain) r in
      if ttl < 0 then ((CLOSED, 0), r)
      else
        let (claimed, r1) = r_set_nx_ex R (probe_key domain) ''1'' (max ttl 1) r in
        if claimed then ((HALF_OPEN, ttl), r1) else ((OPEN, ttl), r1))"

definition assert_closed :: "'r redis \<Rightarrow> string \<Rightarrow> 'r \<Rightarrow> (exn + circuit_state) \<times> 'r" where
  "assert_closed R url r =
     (case domain_of url of
        Inl e \<Rightarrow> (Inl e, r)
      | Inr domain \<Rightarrow>
          let ((st, ttl), r1) = circuit_state_of R domain r in
          if st = OPEN then (Inl (CircuitOpen domain ttl), r1) else (Inr st, r1))"

definition record_success :: "'r redis \<Rightarrow> string \<Rightarrow> 'r \<Rightarrow> (exn + unit) \<times> 'r" where
  "record_success R url r =
     (case domain_of url of
        Inl e \<Rightarrow> (Inl e, r)
      | Inr domain \<Rightarrow>
          (Inr (), r_delete R [fails_key domain, open_key domain, probe_key domain] r))"

definition record_failure ::
  "settings \<Rightarrow> 'r redis \<Rightarrow> string \<Rightarrow> 'r \<Rightarrow> (exn + circuit_state) \<times> 'r" where
  "record_failure cfg R url r =
     (case domain_of url of
        Inl e \<Rightarrow> (Inl e, r)
      | Inr domain \<Rightarrow>
          let (fails, r1) = r_incr R (fails_key domain) r;
              r2 = r_expire R (fails_key domain) (circuit_open_seconds cfg) r1
          in if circuit_failure_threshold cfg \<le> fails
             then (Inr OPEN, r_set_ex R (open_key domain) ''1'' (circuit_open_seconds cfg) r2)
             else (Inr CLOSED, r2))"

subsection \<open>Keys\<close>

lemma keys_differ [simp]:
  "fails_key d \<noteq> open_key e" "open_key e \<noteq> fails_key d" "fails_key d \<noteq> probe_key e"
  "probe_key e \<noteq> fails_key d" "open_key d \<noteq> probe_key e" "probe_key e \<noteq> open_key d"
  "fails_key d = fails_key e \<longleftrightarrow> d = e" "open_key d = open_key e \<longleftrightarrow> d = e"
  "probe_key d = probe_key e \<longleftrightarrow> d = e"
proof -
  have "last (fails_key d) = CHR ''s''" "last (open_key d) = CHR ''n''"
    "last (probe_key d) = CHR ''e''" for d
    by (simp_all add: fails_key_def open_key_def probe_key_def)
  note l = this
  show "fails_key d \<noteq> open_key e" using l(1) [of d] l(2) [of e] by auto
  show "open_key e \<noteq> fails_key d" using l(1) [of d] l(2) [of e] by auto
  show "fails_key d \<noteq> probe_key e" using l(1) [of d] l(3) [of e] by auto
  show "probe_key e \<noteq> fails_key d" using l(1) [of d] l(3) [of e] by auto
  show "open_key d \<noteq> probe_key e" using l(2) [of d] l(3) [of e] by auto
  show "probe_key e \<noteq> open_key d" using l(2) [of d] l(3) [of e] by auto
qed (simp_all add: fails_key_def open_key_def probe_key_def)

text \<open>The keys of a domain, and the shape the breaker keeps them in.\<close>

definition domain_keys :: "string \<Rightarrow> string set" where
  "domain_keys d = {fails_key d, open_key d, probe_key d}"

lemma domain_keys_disjoint: "d \<noteq> e \<Longrightarrow> domain_keys d \<inter> domain_keys e = {}"
  by (auto simp: domain_keys_def)

definition failures :: "('r \<Rightarrow> string \<Rightarrow> entry option) \<Rightarrow> string \<Rightarrow> 'r \<Rightarrow> int" where
  "failures live d r = entry_int (live r (fails_key d))"

definition circuit_ok :: "('r \<Rightarrow> string \<Rightarrow> entry option) \<Rightarrow> string \<Rightarrow> 'r \<Rightarrow> bool" where
  "circuit_ok live d r \<longleftrightarrow> is_counter (live r (fails_key d))
     \<and> (case live r (open_key d) of Some (_, None) \<Rightarrow> False | _ \<Rightarrow> True)"

text \<open>Failures of one domain, one after the other.\<close>

fun fail_times :: "settings \<Rightarrow> 'r redis \<Rightarrow> string \<Rightarrow> nat \<Rightarrow> 'r \<Rightarrow> 'r" where
  "fail_times cfg R url 0 r = r"
| "fail_times cfg R url (Suc n) r = snd (record_failure cfg R url (fail_times cfg R url n r))"

text \<open>Callers asking one after the other.\<close>

fun ask_times :: "'r redis \<Rightarrow> string \<Rightarrow> nat \<Rightarrow> 'r \<Rightarrow> circuit_state list \<times> 'r" where
  "ask_times R d 0 r = ([], r)"
| "ask_times R d (Suc n) r =
     (let ((st, _), r1) = circuit_state_of R d r; (sts, r2) = ask_times R d n r1
      in (st # sts, r2))"

locale breaker = redis_server R live clock
  for R :: "'r redis" and live :: "'r \<Rightarrow> string \<Rightarrow> entry option" and clock :: "'r \<Rightarrow> rat" +
  fixes cfg :: settings
  assumes open_pos: "0 < circuit_open_seconds cfg"
begin

lemma state_closed:
  "live r (open_key d) = None \<Longrightarrow> circuit_state_of R d r = ((CLOSED, 0), r)"
  by (simp add: circuit_state_of_def ttl_absent)

lemma state_probe:
  assumes "live r (open_key d) = Some (v, Some x)" and "live r (probe_key d) = None"
  shows "circuit_state_of R d r = ((HALF_OPEN, r_ttl R (open_key d) r),
       snd (r_set_nx_ex R (probe_key d) ''1'' (max (r_ttl R (open_key d) r) 1) r))"
    and "live (snd (circuit_state_of R d r)) = (live r)(probe_key d :=
       Some (RStr ''1'', Some (clock r + of_int (max (r_ttl R (open_key d) r) 1))))"
    and "clock (snd (circuit_state_of R d r)) = clock r"
proof -
  let ?t = "r_ttl R (open_key d) r"
  have t: "0 \<le> ?t" using ttl_present assms(1) .
  have nx: "fst (r_set_nx_ex R (probe_key d) ''1'' (max ?t 1) r)"
    "live (snd (r_set_nx_ex R (probe_key d) ''1'' (max ?t 1) r)) = (live r)(probe_key d :=
       Some (RStr ''1'', Some (clock r + of_int (max ?t 1))))"
    using set_nx_free [OF assms(2), of "max ?t 1" "''1''"] by auto
  show "circuit_state_of R d r = ((HALF_OPEN, ?t), snd (r_set_nx_ex R (probe_key d) ''1'' (max ?t 1) r))"
    "live (snd (circuit_state_of R d r)) = (live r)(probe_key d :=
       Some (RStr ''1'', Some (clock r + of_int (max ?t 1))))"
    "clock (snd (circuit_state_of R d r)) = clock r"
    using t nx by (simp_all add: circuit_state_of_def Let_def case_prod_beta clock_cmds)
qed

lemma state_open:
  assumes "live r (open_key d) = Some (v, Some x)" and "live r (probe_key d) \<noteq> None"
  shows "fst (circuit_state_of R d r) = (OPEN, r_ttl R (open_key d) r)"
    and "live (snd (circuit_state_of R d r)) = live r"
  using assms ttl_present [OF assms(1)] set_nx_taken [OF assms(2)]
  by (auto simp: circuit_state_of_def Let_def case_prod_beta)

lemma asking_open:
  "live r (open_key d) = Some (v, Some x) \<Longrightarrow> live r (probe_key d) \<noteq> None \<Longrightarrow>
     fst (ask_times R d n r) = replicate n OPEN"
proof (induction n arbitrary: r)
  case (Suc n)
  from state_open [OF Suc.prems] Suc.prems
  have "fst (ask_times R d n (snd (circuit_state_of R d r))) = replicate n OPEN"
    by (intro Suc.IH) simp_all
  with state_open(1) [OF Suc.prems] show ?case by (simp add: Let_def case_prod_beta)
qed simp

lemma asking_once_half_open:
  assumes "live r (open_key d) = Some (v, Some x)" and "live r (probe_key d) = None"
  shows "fst (ask_times R d (Suc n) r) = HALF_OPEN # replicate n OPEN"
proof -
  let ?r = "snd (circuit_state_of R d r)"
  have "live ?r (open_key d) = Some (v, Some x)" "live ?r (probe_key d) \<noteq> None"
    using assms(1) by (simp_all add: state_probe(2) [OF assms])
  from asking_open [OF this, of n] show ?thesis
    using state_probe(1) [OF assms] by (simp add: Let_def case_prod_beta)
qed

lemma failure_effect:
  assumes d: "domain_of url = Inr d" and ok: "circuit_ok live d r"
  shows "fst (record_failure cfg R url r) =
       Inr (if circuit_failure_threshold cfg \<le> failures live d r + 1 then OPEN else CLOSED)"
    and "live (snd (record_failure cfg R url r)) =
      (let m = (live r)(fails_key d := Some (RInt (failures live d r + 1),
             Some (clock r + of_int (circuit_open_seconds cfg))))
       in if circuit_failure_threshold cfg \<le> failures live d r + 1
          then m(open_key d := Some (RStr ''1'', Some (clock r + of_int (circuit_open_seconds cfg))))
          else m)"
    and "clock (snd (record_failure cfg R url r)) = clock r"
proof -
  let ?c = "live r (fails_key d)"
  have counter: "is_counter ?c" using ok by (simp add: circuit_ok_def)
  have step: "with_expiry (clock r) s (incr_entry ?c) =
      Some (RInt (entry_int ?c + 1), Some (clock r + of_int s))" if "0 < s" for s
    using counter that
    by (auto simp: is_counter_def incr_entry_def with_expiry_def entry_int_def
        split: option.splits rval.splits)
  note facts = incr [OF counter] expire clock_cmds step [OF open_pos] set_ex [OF open_pos] d
  show "fst (record_failure cfg R url r) =
       Inr (if circuit_failure_threshold cfg \<le> failures live d r + 1 then OPEN else CLOSED)"
    using facts by (simp add: record_failure_def Let_def case_prod_beta failures_def)
  show "clock (snd (record_failure cfg R url r)) = clock r"
    using facts by (simp add: record_failure_def Let_def case_prod_beta)
  show "live (snd (record_failure cfg R url r)) =
      (let m = (live r)(fails_key d := Some (RInt (failures live d r + 1),
             Some (clock r + of_int (circuit_open_seconds cfg))))
       in if circuit_failure_threshold cfg \<le> failures live d r + 1
          then m(open_key d := Some (RStr ''1'', Some (clock r + of_int (circuit_open_seconds cfg))))
          else m)"
    using facts by (simp add: record_failure_def Let_def case_prod_beta failures_def)
qed

lemma failure_ok:
  assumes "domain_of url = Inr d" and "circuit_ok live d r"
  shows "circuit_ok live d (snd (record_failure cfg R url r))"
    and "failures live d (snd (record_failure cfg R url r)) = failures live d r + 1"
  using assms
  by (auto simp: circuit_ok_def failures_def failure_effect(2) Let_def is_counter_def entry_int_def
      split: option.splits prod.splits)

lemma fail_times_count:
  assumes "domain_of url = Inr d" and "circuit_ok live d r"
  shows "circuit_ok live d (fail_times cfg R url n r)
    \<and> failures live d (fail_times cfg R url n r) = failures live d r + int n
    \<and> clock (fail_times cfg R url n r) = clock r
    \<and> live (fail_times cfg R url n r) (probe_key d) = live r (probe_key d)"
proof (induction n)
  case (Suc n)
  then show ?case
    using failure_ok [OF assms(1)] failure_effect [OF assms(1)]
    by (simp add: Let_def)
qed (use assms in simp)

text \<open>Below the threshold the open key is untouched, from the threshold on it is set afresh.\<close>

lemma fail_times_open:
  assumes d: "domain_of url = Inr d" and ok: "circuit_ok live d r"
    and r0: "failures live d r = 0" and t: "0 < circuit_failure_threshold cfg"
  shows "live (fail_times cfg R url n r) (open_key d) =
    (if circuit_failure_threshold cfg \<le> int n
     then Some (RStr ''1'', Some (clock r + of_int (circuit_open_seconds cfg)))
     else live r (open_key d))"
proof (induction n)
  case (Suc n)
  let ?r = "fail_times cfg R url n r"
  from fail_times_count [OF d ok, of n]
  have c: "circuit_ok live d ?r" "failures live d ?r = int n" "clock ?r = clock r"
    using r0 by simp_all
  show ?case using Suc c(2,3) failure_effect(2) [OF d c(1)] by (simp add: Let_def)
qed (use t in simp)

lemma failure_other:
  assumes "domain_of url = Inr d" and "circuit_ok live d r" and "k \<notin> domain_keys d"
  shows "live (snd (record_failure cfg R url r)) k = live r k"
  using assms failure_effect(2) [OF assms(1,2)] by (simp add: Let_def domain_keys_def)

lemma success_effect:
  assumes "domain_of url = Inr d"
  shows "live (snd (record_success R url r)) = (\<lambda>k. if k \<in> domain_keys d then None else live r k)"
  using assms by (simp add: record_success_def delete domain_keys_def insert_commute fun_eq_iff)

lemma success_closes:
  "domain_of url = Inr d \<Longrightarrow>
     fst (circuit_state_of R d (snd (record_success R url r))) = (CLOSED, 0)"
  by (simp add: success_effect domain_keys_def state_closed)

end

interpretation mem_breaker: breaker mem_redis mem_live m_clock "default_settings b"
  by unfold_locales (simp add: default_settings_def)

context breaker
begin

lemma asking_closed: "live r (open_key d) = None \<Longrightarrow> fst (ask_times R d n r) = replicate n CLOSED"
  by (induction n) (simp_all add: state_closed Let_def case_prod_beta)

lemma admits:
  assumes d: "domain_of url = Inr d" and ok: "circuit_ok live d r" and zero: "failures live d r = 0"
    and t: "0 < circuit_failure_threshold cfg"
    and shut: "live r (open_key d) = None" and probe: "live r (probe_key d) = None"
  shows "fst (ask_times R d (Suc k) (fail_times cfg R url n r)) =
    (if int n < circuit_failure_threshold cfg then replicate (Suc k) CLOSED
     else HALF_OPEN # replicate k OPEN)"
proof -
  let ?r = "fail_times cfg R url n r"
  have probe': "live ?r (probe_key d) = None" using fail_times_count [OF d ok] probe by simp
  note open' = fail_times_open [OF d ok zero t, of n]
  show ?thesis
  proof (cases "int n < circuit_failure_threshold cfg")
    case True
    then have "live ?r (open_key d) = None" using open' shut by simp
    from asking_closed [OF this, of "Suc k"] True show ?thesis by (simp only: if_True)
  next
    case False
    then have "live ?r (open_key d) =
        Some (RStr ''1'', Some (clock r + of_int (circuit_open_seconds cfg)))" using open' by simp
    from asking_once_half_open [OF this probe', of k] False show ?thesis by (simp only: if_False)
  qed
qed

text \<open>While nothing fails or succeeds, no caller sees a lower state than the one before.\<close>

lemma answers_rise: "circuit_ok live d r \<Longrightarrow> sorted (fst (ask_times R d n r))"
proof (cases "live r (open_key d)")
  case (Some entry)
  moreover assume "circuit_ok live d r"
  ultimately obtain v x where o1: "live r (open_key d) = Some (v, Some x)"
    by (cases entry) (auto simp: circuit_ok_def split: option.splits)
  have "HALF_OPEN \<le> OPEN" by (simp add: less_eq_circuit_state_def)
  then show ?thesis
    using asking_open [OF o1] asking_once_half_open [OF o1]
    by (cases "live r (probe_key d) = None"; cases n) (auto simp: sorted_replicate simp del: ask_times.simps(2))
qed (simp add: asking_closed sorted_replicate)

lemma state_of_live:
  "fst (circuit_state_of R d r) =
     (if r_ttl R (open_key d) r < 0 then (CLOSED, 0)
      else (if live r (probe_key d) = None then HALF_OPEN else OPEN, r_ttl R (open_key d) r))"
proof -
  have "fst (r_set_nx_ex R k v s r) \<longleftrightarrow> live r k = None" if "0 < s" for k v s
    using that set_nx_taken set_nx_free by (metis (full_types))
  then show ?thesis by (simp add: circuit_state_of_def Let_def case_prod_beta)
qed

lemma other_domain:
  assumes "live r' (open_key e) = live r (open_key e)" and "live r' (probe_key e) = live r (probe_key e)"
    and "clock r' = clock r"
  shows "fst (circuit_state_of R e r') = fst (circuit_state_of R e r)"
  using assms by (simp add: state_of_live ttl)

lemma isolated:
  assumes d: "domain_of url = Inr d" and ok: "circuit_ok live d r" and e: "e \<noteq> d"
  shows "fst (circuit_state_of R e (snd (record_failure cfg R url r))) = fst (circuit_state_of R e r)"
    and "fst (circuit_state_of R e (snd (record_success R url r))) = fst (circuit_state_of R e r)"
proof -
  have keys: "open_key e \<notin> domain_keys d" "probe_key e \<notin> domain_keys d"
    using e by (auto simp: domain_keys_def)
  show "fst (circuit_state_of R e (snd (record_failure cfg R url r))) = fst (circuit_state_of R e r)"
    using failure_other [OF d ok] keys failure_effect(3) [OF d ok] by (intro other_domain) auto
  show "fst (circuit_state_of R e (snd (record_success R url r))) = fst (circuit_state_of R e r)"
    using success_effect [OF d] keys d by (intro other_domain) (simp_all add: record_success_def clock_cmds)
qed

end



text \<open>
  A success closes the circuit of its domain and clears its failures; neither a success nor a
  failure changes what callers of another domain see.
\<close>

theorem breaker_per_domain:
  assumes "redis_server R live clock" and "0 < circuit_open_seconds c"
    and d: "domain_of url = Inr d" and "circuit_ok live d r"
  shows "fst (circuit_state_of R d (snd (record_success R url r))) = (CLOSED, 0)
    \<and> failures live d (snd (record_success R url r)) = 0
    \<and> (e \<noteq> d \<longrightarrow>
        fst (circuit_state_of R e (snd (record_failure c R url r))) = fst (circuit_state_of R e r)
        \<and> fst (circuit_state_of R e (snd (record_success R url r))) = fst (circuit_state_of R e r))"
proof -
  have b: "breaker R live clock c" using assms by (intro breaker.intro breaker_axioms.intro)
  have "failures live d (snd (record_success R url r)) = 0"
    by (simp add: failures_def breaker.success_effect [OF b d] domain_keys_def entry_int_def)
  with breaker.success_closes [OF b d] breaker.isolated [OF b assms(3,4)] show ?thesis by blast
qed

theorem breaker_per_domain_witness:
  "fst (circuit_state_of mem_redis ''a.b'' (snd (record_success mem_redis ''http://a.b/'' mem_empty))) = (CLOSED, 0)"
proof -
  have d: "domain_of ''http://a.b/'' = Inr ''a.b''" by code_simp
  from breaker_per_domain [OF mem.redis_server_axioms _ d, of "default_settings []" mem_empty "''c''"]
  show ?thesis
    by (simp add: default_settings_def circuit_ok_def is_counter_def mem_empty_def mem_live_def still_live_def)
qed

end
