(* ===== verification/UrlGuard.thy ===== *)
theory UrlGuard
  imports Url "HOL-Library.Word"
begin

text \<open>
  The guard of \<^verbatim>\<open>core/urlguard.py\<close> against requests into private networks.  Addresses are
  machine words, networks a base address and a prefix length, and the classification is that of
  the standard library's \<^verbatim>\<open>ipaddress\<close> with its tables.  Name resolution is a parameter: the
  addresses of a host with their text, or \<open>None\<close> when there is none.
\<close>

datatype ip = V4 "32 word" | V6 "128 word"

definition in_net :: "'a::len word \<Rightarrow> 'a word \<times> nat \<Rightarrow> bool" where
  "in_net a net = (case net of (b, n) \<Rightarrow>
     drop_bit (LENGTH('a) - n) a = drop_bit (LENGTH('a) - n) b)"

definition quad :: "nat \<Rightarrow> nat \<Rightarrow> nat \<Rightarrow> nat \<Rightarrow> 32 word" where
  "quad a b c d = of_nat (((a * 256 + b) * 256 + c) * 256 + d)"

text \<open>An IPv6 address from its leading groups of 16 bits and its low 32 bits.\<close>

definition groups :: "nat list \<Rightarrow> nat \<Rightarrow> 128 word" where
  "groups gs low =
     of_nat (foldl (\<lambda>acc g. acc * 65536 + g) 0 gs * 65536 ^ (8 - length gs) + low)"

definition v4_private :: "(32 word \<times> nat) list" where
  "v4_private = [(quad 0 0 0 0, 8), (quad 10 0 0 0, 8), (quad 127 0 0 0, 8),
     (quad 169 254 0 0, 16), (quad 172 16 0 0, 12), (quad 192 0 0 0, 24),
     (quad 192 0 0 170, 31), (quad 192 0 2 0, 24), (quad 192 168 0 0, 16),
     (quad 198 18 0 0, 15), (quad 198 51 100 0, 24), (quad 203 0 113 0, 24),
     (quad 240 0 0 0, 4), (quad 255 255 255 255, 32)]"

definition v4_exceptions :: "(32 word \<times> nat) list" where
  "v4_exceptions = [(quad 192 0 0 9, 32), (quad 192 0 0 10, 32)]"

definition v6_private :: "(128 word \<times> nat) list" where
  "v6_private = [(groups [] 1, 128), (groups [] 0, 128), (groups [0, 0, 0, 0, 0, 0xffff] 0, 96),
     (groups [0x64, 0xff9b, 1] 0, 48), (groups [0x100] 0, 64), (groups [0x2001] 0, 23),
     (groups [0x2001, 0xdb8] 0, 32), (groups [0x2002] 0, 16), (groups [0xfc00] 0, 7),
     (groups [0xfe80] 0, 10)]"

definition v6_exceptions :: "(128 word \<times> nat) list" where
  "v6_exceptions = [(groups [0x2001, 1] 1, 128), (groups [0x2001, 1] 2, 128),
     (groups [0x2001, 3] 0, 32), (groups [0x2001, 4, 0x112] 0, 48),
     (groups [0x2001, 0x20] 0, 28), (groups [0x2001, 0x30] 0, 28)]"

definition v6_reserved :: "(128 word \<times> nat) list" where
  "v6_reserved = [(groups [0] 0, 8), (groups [0x100] 0, 8), (groups [0x200] 0, 7),
     (groups [0x400] 0, 6), (groups [0x800] 0, 5), (groups [0x1000] 0, 4),
     (groups [0x4000] 0, 3), (groups [0x6000] 0, 3), (groups [0x8000] 0, 3),
     (groups [0xa000] 0, 3), (groups [0xc000] 0, 3), (groups [0xe000] 0, 4),
     (groups [0xf000] 0, 5), (groups [0xf800] 0, 6), (groups [0xfe00] 0, 9)]"

definition in_some :: "'a::len word \<Rightarrow> ('a word \<times> nat) list \<Rightarrow> bool" where
  "in_some a nets = list_ex (in_net a) nets"

definition v4_is_private :: "32 word \<Rightarrow> bool" where
  "v4_is_private a \<longleftrightarrow> in_some a v4_private \<and> \<not> in_some a v4_exceptions"

fun is_private :: "ip \<Rightarrow> bool" where
  "is_private (V4 a) = v4_is_private a"
| "is_private (V6 a) =
     (if drop_bit 32 a = 0xffff then v4_is_private (ucast a)
      else in_some a v6_private \<and> \<not> in_some a v6_exceptions)"

fun is_loopback :: "ip \<Rightarrow> bool" where
  "is_loopback (V4 a) = in_net a (quad 127 0 0 0, 8)"
| "is_loopback (V6 a) = (a = 1)"

fun is_link_local :: "ip \<Rightarrow> bool" where
  "is_link_local (V4 a) = in_net a (quad 169 254 0 0, 16)"
| "is_link_local (V6 a) = in_net a (groups [0xfe80] 0, 10)"

fun is_reserved :: "ip \<Rightarrow> bool" where
  "is_reserved (V4 a) = in_net a (quad 240 0 0 0, 4)"
| "is_reserved (V6 a) = in_some a v6_reserved"

fun is_multicast :: "ip \<Rightarrow> bool" where
  "is_multicast (V4 a) = in_net a (quad 224 0 0 0, 4)"
| "is_multicast (V6 a) = in_net a (groups [0xff00] 0, 8)"

fun is_unspecified :: "ip \<Rightarrow> bool" where
  "is_unspecified (V4 a) = (a = 0)"
| "is_unspecified (V6 a) = (a = 0)"

definition non_public :: "ip \<Rightarrow> bool" where
  "non_public x \<longleftrightarrow> is_private x \<or> is_loopback x \<or> is_link_local x \<or> is_reserved x
     \<or> is_multicast x \<or> is_unspecified x"

subsection \<open>The guard\<close>

type_synonym resolver = "string \<Rightarrow> (string \<times> ip) list option"

definition resolve_host :: "resolver \<Rightarrow> string \<Rightarrow> exn + (string \<times> ip) list" where
  "resolve_host dns host =
     (case dns host of
        None \<Rightarrow> Inl (BlockedURL (''cannot resolve host: '' @ host))
      | Some infos \<Rightarrow> Inr (sort_key fst (remdups infos)))"

fun check_addresses :: "string \<Rightarrow> (string \<times> ip) list \<Rightarrow> exn + unit" where
  "check_addresses host [] = Inr ()"
| "check_addresses host ((addr, x) # rest) =
     (if non_public x
      then Inl (BlockedURL (''host '' @ host @ '' resolves to non-public address '' @ addr))
      else check_addresses host rest)"

definition assert_public_address :: "resolver \<Rightarrow> string \<Rightarrow> exn + unit" where
  "assert_public_address dns host = bindE (resolve_host dns host) (check_addresses host)"

definition allowed_schemes :: "string list" where
  "allowed_schemes = [''http'', ''https'']"

definition assert_allowed :: "resolver \<Rightarrow> string \<Rightarrow> string list \<Rightarrow> bool \<Rightarrow> exn + string" where
  "assert_allowed dns url hosts check_dns =
     bindE (urlparse url) (\<lambda>parsed.
       if u_scheme parsed \<notin> set allowed_schemes
       then Inl (BlockedURL (''scheme not allowed: '' @ repr_string (u_scheme parsed)))
       else (case hostname parsed of
          None \<Rightarrow> Inl (BlockedURL ''url has no host'')
        | Some host \<Rightarrow>
            if lower host \<notin> set (map lower hosts)
            then Inl (BlockedURL (''host not on the allowlist: '' @ host))
            else bindE (port parsed) (\<lambda>p.
              if p \<noteq> None \<and> p \<notin> {Some 80, Some 443}
              then Inl (BlockedURL (''port not allowed: '' @ dec_int (the p)))
              else bindE (if check_dns then assert_public_address dns host else Inr ()) (\<lambda>_.
                Inr url))))"

subsection \<open>Networks as ranges\<close>

lemma div_eq_iff_range: "0 < m \<Longrightarrow> a div m = q \<longleftrightarrow> m * q \<le> a \<and> a < m * q + m" for a m q :: nat
  using div_nat_eqI [of m q a] dividend_less_times_div [of m a] times_div_less_eq_dividend [of m a]
  by (auto simp: mult.commute)

lemma in_net_range:
  fixes a b :: "'a::len word"
  assumes "2 ^ (LENGTH('a) - n) dvd unat b"
  shows "in_net a (b, n) \<longleftrightarrow> unat b \<le> unat a \<and> unat a < unat b + 2 ^ (LENGTH('a) - n)"
proof -
  let ?m = "2 ^ (LENGTH('a) - n) :: nat"
  obtain q where q: "unat b = ?m * q" using assms by blast
  have drop: "unat (drop_bit (LENGTH('a) - n) w) = unat w div ?m" for w :: "'a word"
    by (simp only: unat_drop_bit_eq) (simp only: drop_bit_eq_div)
  have "in_net a (b, n) \<longleftrightarrow> unat a div ?m = unat b div ?m"
    by (simp only: in_net_def prod.case word_unat_eq_iff drop)
  also have "\<dots> \<longleftrightarrow> ?m * q \<le> unat a \<and> unat a < ?m * q + ?m"
    using q by (simp add: div_eq_iff_range)
  finally show ?thesis using q by simp
qed

lemma check_addresses_Inr:
  "check_addresses host xs = Inr u \<longleftrightarrow> (\<forall>p \<in> set xs. \<not> non_public (snd p))"
  by (induction xs rule: check_addresses.induct) auto

lemma assert_public_Inr:
  "assert_public_address dns host = Inr u \<longleftrightarrow>
     (\<exists>infos. dns host = Some infos \<and> (\<forall>p \<in> set infos. \<not> non_public (snd p)))"
  by (auto simp: assert_public_address_def bindE_Inr_iff resolve_host_def check_addresses_Inr
      split: option.splits)

lemma check_addresses_Inl:
  "check_addresses host xs = Inl e \<Longrightarrow> \<exists>m. e = BlockedURL m"
  by (induction xs rule: check_addresses.induct) (auto split: if_splits)

lemma assert_public_Inl:
  "assert_public_address dns host = Inl e \<Longrightarrow> \<exists>m. e = BlockedURL m"
  by (auto simp: assert_public_address_def bindE_Inl_iff resolve_host_def
      split: option.splits dest: check_addresses_Inl)

lemma assert_allowed_Inr:
  "assert_allowed dns url hosts check = Inr url' \<longleftrightarrow> url' = url \<and>
     (\<exists>u h p. urlparse url = Inr u \<and> u_scheme u \<in> set allowed_schemes \<and> hostname u = Some h
        \<and> lower h \<in> set (map lower hosts) \<and> port u = Inr p \<and> (p = None \<or> p \<in> {Some 80, Some 443})
        \<and> (check \<longrightarrow> assert_public_address dns h = Inr ()))"
proof (cases "urlparse url")
  case (Inr u)
  then show ?thesis
  proof (cases "hostname u")
    case (Some h)
    with Inr show ?thesis
      by (cases "port u"; cases "assert_public_address dns h")
         (simp_all add: assert_allowed_def eq_commute [of url'])
  qed (simp add: assert_allowed_def)
qed (simp add: assert_allowed_def)


lemma unat_quad:
  "((a * 256 + b) * 256 + c) * 256 + d < 2 ^ 32 \<Longrightarrow>
     unat (quad a b c d) = ((a * 256 + b) * 256 + c) * 256 + d"
  unfolding quad_def by (subst unat_of_nat) (simp add: take_bit_nat_eq_self)

definition between :: "32 word \<Rightarrow> 32 word \<Rightarrow> 32 word \<Rightarrow> bool" where
  "between a lo hi \<longleftrightarrow> lo \<le> a \<and> a \<le> hi"

lemma in_net_between:
  assumes "((a * 256 + b) * 256 + c) * 256 + d < 2 ^ 32"
    and "2 ^ (32 - n) dvd ((a * 256 + b) * 256 + c) * 256 + d"
    and "((a' * 256 + b') * 256 + c') * 256 + d' < 2 ^ 32"
    and "Suc (((a' * 256 + b') * 256 + c') * 256 + d') = ((a * 256 + b) * 256 + c) * 256 + d + 2 ^ (32 - n)"
  shows "in_net x (quad a b c d, n) \<longleftrightarrow> between x (quad a b c d) (quad a' b' c' d')"
  using in_net_range [of n "quad a b c d" x] assms
  by (auto simp: unat_quad between_def word_le_nat_alt)

lemma v4_nets:
  "in_net x (quad 0 0 0 0, 8) \<longleftrightarrow> between x (quad 0 0 0 0) (quad 0 255 255 255)"
  "in_net x (quad 10 0 0 0, 8) \<longleftrightarrow> between x (quad 10 0 0 0) (quad 10 255 255 255)"
  "in_net x (quad 127 0 0 0, 8) \<longleftrightarrow> between x (quad 127 0 0 0) (quad 127 255 255 255)"
  "in_net x (quad 169 254 0 0, 16) \<longleftrightarrow> between x (quad 169 254 0 0) (quad 169 254 255 255)"
  "in_net x (quad 172 16 0 0, 12) \<longleftrightarrow> between x (quad 172 16 0 0) (quad 172 31 255 255)"
  "in_net x (quad 192 0 0 0, 24) \<longleftrightarrow> between x (quad 192 0 0 0) (quad 192 0 0 255)"
  "in_net x (quad 192 0 0 170, 31) \<longleftrightarrow> between x (quad 192 0 0 170) (quad 192 0 0 171)"
  "in_net x (quad 192 0 2 0, 24) \<longleftrightarrow> between x (quad 192 0 2 0) (quad 192 0 2 255)"
  "in_net x (quad 192 168 0 0, 16) \<longleftrightarrow> between x (quad 192 168 0 0) (quad 192 168 255 255)"
  "in_net x (quad 198 18 0 0, 15) \<longleftrightarrow> between x (quad 198 18 0 0) (quad 198 19 255 255)"
  "in_net x (quad 198 51 100 0, 24) \<longleftrightarrow> between x (quad 198 51 100 0) (quad 198 51 100 255)"
  "in_net x (quad 203 0 113 0, 24) \<longleftrightarrow> between x (quad 203 0 113 0) (quad 203 0 113 255)"
  "in_net x (quad 224 0 0 0, 4) \<longleftrightarrow> between x (quad 224 0 0 0) (quad 239 255 255 255)"
  "in_net x (quad 240 0 0 0, 4) \<longleftrightarrow> between x (quad 240 0 0 0) (quad 255 255 255 255)"
  "in_net x (quad 255 255 255 255, 32) \<longleftrightarrow> between x (quad 255 255 255 255) (quad 255 255 255 255)"
  "in_net x (quad 192 0 0 9, 32) \<longleftrightarrow> between x (quad 192 0 0 9) (quad 192 0 0 9)"
  "in_net x (quad 192 0 0 10, 32) \<longleftrightarrow> between x (quad 192 0 0 10) (quad 192 0 0 10)"
  by (rule in_net_between; simp)+

lemma between_sub: "lo' \<le> lo \<Longrightarrow> hi \<le> hi' \<Longrightarrow> between x lo hi \<Longrightarrow> between x lo' hi'"
  by (auto simp: between_def)

lemma between_self: "between x y y \<longleftrightarrow> x = y"
  by (auto simp: between_def)

lemma between_join:
  "unat hi + 1 = unat lo' \<Longrightarrow> lo \<le> hi \<Longrightarrow> lo' \<le> hi' \<Longrightarrow>
     between x lo hi' \<longleftrightarrow> between x lo hi \<or> between x lo' hi'"
  by (auto simp: between_def word_le_nat_alt)

lemma ipv4_ranges:
  "non_public (V4 a) \<longleftrightarrow>
     between a (quad 0 0 0 0) (quad 0 255 255 255)
   \<or> between a (quad 10 0 0 0) (quad 10 255 255 255)
   \<or> between a (quad 127 0 0 0) (quad 127 255 255 255)
   \<or> between a (quad 169 254 0 0) (quad 169 254 255 255)
   \<or> between a (quad 172 16 0 0) (quad 172 31 255 255)
   \<or> between a (quad 192 0 0 0) (quad 192 0 0 255) \<and> a \<noteq> quad 192 0 0 9 \<and> a \<noteq> quad 192 0 0 10
   \<or> between a (quad 192 0 2 0) (quad 192 0 2 255)
   \<or> between a (quad 192 168 0 0) (quad 192 168 255 255)
   \<or> between a (quad 198 18 0 0) (quad 198 19 255 255)
   \<or> between a (quad 198 51 100 0) (quad 198 51 100 255)
   \<or> between a (quad 203 0 113 0) (quad 203 0 113 255)
   \<or> between a (quad 224 0 0 0) (quad 255 255 255 255)"
proof -
  have join: "between a (quad 224 0 0 0) (quad 255 255 255 255) \<longleftrightarrow>
      between a (quad 224 0 0 0) (quad 239 255 255 255) \<or> between a (quad 240 0 0 0) (quad 255 255 255 255)"
    by (rule between_join) (simp_all add: word_le_nat_alt unat_quad)
  have sub: "between a (quad 192 0 0 170) (quad 192 0 0 171) \<Longrightarrow> between a (quad 192 0 0 0) (quad 192 0 0 255)"
    "a = quad 255 255 255 255 \<Longrightarrow> between a (quad 240 0 0 0) (quad 255 255 255 255)"
    "a = 0 \<Longrightarrow> between a (quad 0 0 0 0) (quad 0 255 255 255)"
    by (auto simp: between_def word_le_nat_alt unat_quad)
  note parts = non_public_def is_private.simps is_loopback.simps is_link_local.simps is_reserved.simps
      is_multicast.simps is_unspecified.simps v4_is_private_def in_some_def v4_private_def
      v4_exceptions_def list_ex_Cons_iff list_ex_Nil_iff v4_nets between_self
  show ?thesis
  proof (cases "a = quad 192 0 0 9 \<or> a = quad 192 0 0 10")
    case True
    then show ?thesis unfolding parts join
      by (elim disjE) (simp_all add: between_def word_le_nat_alt unat_quad word_unat_eq_iff)
  next
    case False
    then show ?thesis unfolding parts join using sub by blast
  qed
qed

text \<open>
  The IPv4 addresses the guard refuses are exactly the listed ranges: this-network, 10/8,
  loopback, link-local, 172.16/12, 192.0.0/24 but for two addresses, the documentation and
  benchmark networks, 192.168/16, multicast and reserved.
\<close>

theorem ipv4_refused:
  "non_public (V4 a) \<longleftrightarrow>
     between a (quad 0 0 0 0) (quad 0 255 255 255)
   \<or> between a (quad 10 0 0 0) (quad 10 255 255 255)
   \<or> between a (quad 127 0 0 0) (quad 127 255 255 255)
   \<or> between a (quad 169 254 0 0) (quad 169 254 255 255)
   \<or> between a (quad 172 16 0 0) (quad 172 31 255 255)
   \<or> between a (quad 192 0 0 0) (quad 192 0 0 255) \<and> a \<noteq> quad 192 0 0 9 \<and> a \<noteq> quad 192 0 0 10
   \<or> between a (quad 192 0 2 0) (quad 192 0 2 255)
   \<or> between a (quad 192 168 0 0) (quad 192 168 255 255)
   \<or> between a (quad 198 18 0 0) (quad 198 19 255 255)
   \<or> between a (quad 198 51 100 0) (quad 198 51 100 255)
   \<or> between a (quad 203 0 113 0) (quad 203 0 113 255)
   \<or> between a (quad 224 0 0 0) (quad 255 255 255 255)"
  by (rule ipv4_ranges)


text \<open>
  Every address of the shared carrier range 100.64.0.0/10 passes the guard.
\<close>

theorem carrier_nat_allowed:
  "\<not> non_public (V4 (of_nat (unat (quad 100 64 0 0) + n mod 2 ^ 22)))"
proof -
  obtain m where m: "n mod 2 ^ 22 = m" "m < 4194304" by simp
  then have u: "unat (of_nat (1681915904 + m) :: 32 word) = 1681915904 + m"
    by (subst unat_of_nat) (simp add: take_bit_nat_eq_self)
  have eq: "a = w \<longleftrightarrow> unat a = unat w" for a w :: "32 word" by (simp add: word_unat_eq_iff)
  show ?thesis
    using m(2) unfolding m(1) ipv4_ranges between_def word_le_nat_alt eq
    by (simp add: unat_quad u del: of_nat_add)
qed

end
