(* ===== verification/PageUrl.thy ===== *)
theory PageUrl
  imports Targets
begin

text \<open>
  \<^verbatim>\<open>pipeline/pageurl.py\<close>: the request of a page number.  Distinct pages have distinct
  URLs, and the URL of a page parses back to the parts of its base with the page parameter set.
\<close>

definition page_value :: "target_spec \<Rightarrow> int \<Rightarrow> exn + int" where
  "page_value spec page =
     (if page < 1 then Inl (ValueError ''page numbers start at 1'')
      else Inr (pg_start (t_pagination spec) + (page - 1) * pg_step (t_pagination spec)))"

definition str_params :: "target_spec \<Rightarrow> (string, string) dict" where
  "str_params spec = map (\<lambda>(k, v). (k, py_str v)) (t_params spec)"

text \<open>\<open>base_url or str(spec.start_url)\<close>: an empty base counts as none.\<close>

definition base_or_start :: "target_spec \<Rightarrow> string option \<Rightarrow> string" where
  "base_or_start spec base =
     (case base of Some b \<Rightarrow> if b \<noteq> [] then b else t_start_url spec | None \<Rightarrow> t_start_url spec)"

definition page_param :: "target_spec \<Rightarrow> string" where
  "page_param spec = (case pg_param (t_pagination spec) of None \<Rightarrow> [] | Some p \<Rightarrow> p)"

definition page_url :: "target_spec \<Rightarrow> int \<Rightarrow> string option \<Rightarrow> exn + string" where
  "page_url spec page base =
     (if pg_kind (t_pagination spec) \<notin> {QueryParam, Offset}
      then Inl (UnsupportedPagination (t_name spec @ '': pagination kind ''
             @ repr_string (kind_str (pg_kind (t_pagination spec))) @ '' is not URL-addressable''))
      else if page_param spec = []
      then Inl (UnsupportedPagination (t_name spec @ '': pagination.param is required''))
      else bindE (urlparse (base_or_start spec base)) (\<lambda>parsed.
        let query0 = dict_of (parse_qsl (u_query parsed));
            query1 = (if t_method spec = GET then dict_merge (dict_of (str_params spec)) query0
                      else query0)
        in bindE (page_value spec page) (\<lambda>v.
             Inr (urlunparse (parsed\<lparr>u_query :=
               urlencode (dict_put (page_param spec) (dec_int v) query1)\<rparr>)))))"

definition page_body :: "target_spec \<Rightarrow> int \<Rightarrow> exn + (string, json) dict" where
  "page_body spec page =
     (if page_param spec = [] then Inr (dict_of (t_params spec))
      else bindE (page_value spec page) (\<lambda>v.
        Inr (dict_put (page_param spec) (JInt v) (dict_of (t_params spec)))))"

subsection \<open>The URL of a page\<close>

definition page_query :: "target_spec \<Rightarrow> parsed_url \<Rightarrow> int \<Rightarrow> (string, string) dict" where
  "page_query spec u v =
     (let query0 = dict_of (parse_qsl (u_query u)) in
      dict_put (page_param spec) (dec_int v)
        (if t_method spec = GET then dict_merge (dict_of (str_params spec)) query0 else query0))"

lemma page_url_Inr:
  "page_url spec page base = Inr url \<longleftrightarrow>
     pg_kind (t_pagination spec) \<noteq> NextLink \<and> page_param spec \<noteq> [] \<and>
     (\<exists>u v. urlparse (base_or_start spec base) = Inr u \<and> page_value spec page = Inr v
        \<and> url = urlunparse (u\<lparr>u_query := urlencode (page_query spec u v)\<rparr>))"
  unfolding page_url_def page_query_def
  by (cases "pg_kind (t_pagination spec)") (auto simp: bindE_Inr_iff Let_def)

lemma page_value_inj:
  "page_value spec p = Inr v \<Longrightarrow> page_value spec q = Inr v \<Longrightarrow>
     pg_step (t_pagination spec) \<noteq> 0 \<Longrightarrow> p = q"
  by (auto simp: page_value_def split: if_splits)

lemma urlunparse_query:
  assumes "q \<noteq> []"
  shows "urlunparse (u\<lparr>u_query := q\<rparr>) =
    urlunparse (u\<lparr>u_query := [], u_fragment := []\<rparr>) @ ''?'' @ q
      @ (if u_fragment u = [] then [] else ''#'' @ u_fragment u)"
  using assms by (simp add: urlunparse_def Let_def)

lemma urlunparse_query_inj:
  "q \<noteq> [] \<Longrightarrow> r \<noteq> [] \<Longrightarrow>
     urlunparse (u\<lparr>u_query := q\<rparr>) = urlunparse (u\<lparr>u_query := r\<rparr>) \<longleftrightarrow> q = r"
  by (simp add: urlunparse_query)

lemma dict_put_not_Nil [simp]: "dict_put k v d \<noteq> []"
  using keys_dict_put [of k v d] by (cases "dict_put k v d") auto

lemma page_query_value: "map_of (page_query spec u v) (page_param spec) = Some (dec_int v)"
  by (simp add: page_query_def Let_def)

lemma page_query_distinct: "distinct (dict_keys (page_query spec u v))"
  by (simp add: page_query_def Let_def)

text \<open>Every other parameter: the base's own value, else, for GET, the one in the spec.\<close>

lemma page_query_other:
  assumes "k \<noteq> page_param spec"
  shows "map_of (page_query spec u v) k =
    (case map_of (dict_of (parse_qsl (u_query u))) k of
       Some x \<Rightarrow> Some x
     | None \<Rightarrow> if t_method spec = GET then map_of (dict_of (str_params spec)) k else None)"
  using assms
  by (simp add: page_query_def Let_def map_of_dict_merge_distinct map_add_def split: option.split)

lemma urlencode_clean: "clean (urlencode q)" "CHR ''#'' \<notin> set (urlencode q)"
proof -
  have "clean (quote_plus s)" for s
    using quote_plus_chars [of _ s]
    by (fastforce simp: clean_def list_all_iff always_safe_def is_alnum_def is_alpha_def
        is_lower_def is_upper_def is_digit_def ord_def)
  then show "clean (urlencode q)"
    by (cases q) (auto simp: urlencode_def join_def clean_concat ord_def)
  show "CHR ''#'' \<notin> set (urlencode q)" by (rule urlencode_chars) simp
qed

lemma page_url_parses:
  assumes url: "page_url spec page base = Inr url"
    and u: "urlparse (base_or_start spec base) = Inr u" "u_scheme u \<noteq> []" "u_netloc u \<noteq> []"
    and v: "page_value spec page = Inr v"
  shows "urlparse url = Inr (u\<lparr>u_query := urlencode (page_query spec u v)\<rparr>)"
  using assms urlparse_urlunparse [OF u(1-3) urlencode_clean(2,1)]
  by (auto simp: page_url_Inr)

text \<open>
  The URL of a page keeps the base URL except for its query, in which the page parameter has
  the value of the page, the parameters of the base URL stay, and those of the spec are added
  below them for GET.
\<close>

theorem page_request:
  assumes url: "page_url spec page base = Inr url"
    and u: "urlparse (base_or_start spec base) = Inr u" "u_scheme u \<noteq> []" "u_netloc u \<noteq> []"
  shows "\<exists>u'. urlparse url = Inr u' \<and> u_scheme u' = u_scheme u \<and> u_netloc u' = u_netloc u
    \<and> u_path u' = u_path u \<and> u_params u' = u_params u \<and> u_fragment u' = u_fragment u
    \<and> (\<forall>k. map_of (parse_qsl (u_query u')) k =
        (if k = page_param spec
         then Some (dec_int (pg_start (t_pagination spec) + (page - 1) * pg_step (t_pagination spec)))
         else case map_of (dict_of (parse_qsl (u_query u))) k of
                Some x \<Rightarrow> Some x
              | None \<Rightarrow> if t_method spec = GET then map_of (dict_of (str_params spec)) k else None))"
proof -
  obtain v where v: "page_value spec page = Inr v" using url by (auto simp: page_url_Inr)
  then have val: "v = pg_start (t_pagination spec) + (page - 1) * pg_step (t_pagination spec)"
    by (auto simp: page_value_def split: if_splits)
  let ?q = "page_query spec u v"
  have "map_of ?q k = (if k = page_param spec then Some (dec_int v)
      else case map_of (dict_of (parse_qsl (u_query u))) k of Some x \<Rightarrow> Some x
           | None \<Rightarrow> if t_method spec = GET then map_of (dict_of (str_params spec)) k else None)" for k
    using page_query_value page_query_other by simp
  with page_url_parses [OF url u v] show ?thesis unfolding val
    by (intro exI [of _ "u\<lparr>u_query := urlencode ?q\<rparr>"]) (simp add: parse_qsl_urlencode val)
qed

theorem page_request_witness:
  "\<exists>u'. urlparse ''https://a.gov/s?rows=25&q=x&p=3#top'' = Inr u'
     \<and> map_of (parse_qsl (u_query u')) ''p'' = Some ''3''"
proof -
  let ?u = "\<lparr>u_scheme = ''https'', u_netloc = ''a.gov'', u_path = ''/s'', u_params = [],
    u_query = ''q=x&p=9'', u_fragment = ''top''\<rparr>"
  have url: "page_url sample_spec 3 None = Inr ''https://a.gov/s?rows=25&q=x&p=3#top''"
    and base: "urlparse (base_or_start sample_spec None) = Inr ?u"
    and page: "page_param sample_spec = ''p''"
    "dec_int (pg_start (t_pagination sample_spec) + (3 - 1) * pg_step (t_pagination sample_spec)) = ''3''"
    by code_simp+
  from page_request [OF url base] page show ?thesis by auto
qed

theorem page_requests_differ:
  assumes "page_url spec p base = Inr url" and "page_url spec q base = Inr url"
    and "pg_step (t_pagination spec) \<noteq> 0"
  shows "p = q"
proof -
  obtain u v where u: "urlparse (base_or_start spec base) = Inr u" and v: "page_value spec p = Inr v"
    and p: "url = urlunparse (u\<lparr>u_query := urlencode (page_query spec u v)\<rparr>)"
    using assms(1) unfolding page_url_Inr by blast
  obtain w where w: "page_value spec q = Inr w"
    and q: "url = urlunparse (u\<lparr>u_query := urlencode (page_query spec u w)\<rparr>)"
    using assms(2) u unfolding page_url_Inr by auto
  have "page_query spec u x \<noteq> []" for x by (simp add: page_query_def Let_def)
  then have "urlencode (page_query spec u v) \<noteq> []" "urlencode (page_query spec u w) \<noteq> []"
    by (simp_all add: urlencode_Nil)
  from iffD1 [OF urlunparse_query_inj [OF this, of u] trans [OF p [symmetric] q]]
  have "page_query spec u v = page_query spec u w" by (simp only: urlencode_inj)
  then have "map_of (page_query spec u v) (page_param spec) = map_of (page_query spec u w) (page_param spec)"
    by (rule arg_cong)
  then have "v = w" by (simp only: page_query_value option.inject dec_int_inj)
  with v w assms(3) page_value_inj show ?thesis by blast
qed

theorem page_requests_differ_witness:
  "pg_step (t_pagination sample_spec) \<noteq> 0
     \<and> page_url sample_spec 3 None = Inr ''https://a.gov/s?rows=25&q=x&p=3#top'' \<and> (3::int) = 3"
proof -
  have url: "page_url sample_spec 3 None = Inr ''https://a.gov/s?rows=25&q=x&p=3#top''"
    and step: "pg_step (t_pagination sample_spec) \<noteq> 0" by code_simp+
  from page_requests_differ [OF url url step] url step show ?thesis by blast
qed

end
