(* ===== verification/BrowserPool.thy ===== *)
theory BrowserPool
  imports Url
begin

text \<open>
  The browser worker: the request filter of \<^verbatim>\<open>workers/browser/blocking.py\<close> and the
  process-wide browser of \<^verbatim>\<open>workers/browser/pool.py\<close>, whose handles are counted.
\<close>

definition blocked_types :: "string list" where
  "blocked_types = [''image'', ''media'', ''font'']"

definition blocked_hosts :: "string list" where
  "blocked_hosts = [''google-analytics.com'', ''googletagmanager.com'', ''doubleclick.net'',
     ''facebook.net'', ''hotjar.com'', ''segment.io'', ''dap.digitalgov.gov'']"

record request_counts =
  rc_allowed :: nat
  rc_blocked :: nat
  rc_blocked_types :: "(string, nat) dict"

definition no_counts :: request_counts where
  "no_counts = \<lparr>rc_allowed = 0, rc_blocked = 0, rc_blocked_types = []\<rparr>"

text \<open>A request is its resource type and its URL; the filter aborts it or lets it through.\<close>

datatype verdict = Abort | Continue

definition blocked_as :: "string \<times> string \<Rightarrow> string option" where
  "blocked_as req =
     (if fst req \<in> set blocked_types then Some (fst req)
      else if list_ex (\<lambda>host. contains host (snd req)) blocked_hosts then Some ''tracker''
      else None)"

definition count_of :: "string \<Rightarrow> (string, nat) dict \<Rightarrow> nat" where
  "count_of k d = (case map_of d k of None \<Rightarrow> 0 | Some n \<Rightarrow> n)"

definition route_filter :: "string \<times> string \<Rightarrow> request_counts \<Rightarrow> verdict \<times> request_counts" where
  "route_filter req counts =
     (case blocked_as req of
        Some b \<Rightarrow> (Abort, counts\<lparr>rc_blocked := rc_blocked counts + 1,
           rc_blocked_types :=
             dict_put b (count_of b (rc_blocked_types counts) + 1) (rc_blocked_types counts)\<rparr>)
      | None \<Rightarrow> (Continue, counts\<lparr>rc_allowed := rc_allowed counts + 1\<rparr>))"

fun route_all :: "(string \<times> string) list \<Rightarrow> request_counts \<Rightarrow> verdict list \<times> request_counts" where
  "route_all [] counts = ([], counts)"
| "route_all (req # reqs) counts =
     (let (v, counts1) = route_filter req counts; (vs, counts2) = route_all reqs counts1
      in (v # vs, counts2))"

definition type_total :: "(string, nat) dict \<Rightarrow> nat" where
  "type_total d = sum_list (map snd d)"

lemma type_total_put:
  "distinct (dict_keys d) \<Longrightarrow> type_total (dict_put k (Suc (count_of k d)) d) = Suc (type_total d)"
proof (induction d)
  case (Cons p d)
  show ?case
  proof (cases "fst p = k")
    case True
    then show ?thesis
      by (cases p) (simp add: type_total_def dict_put_def count_of_def)
  next
    case False
    then have "dict_put k n (p # d) = p # dict_put k n d" for n
      by (cases p) (simp add: dict_put_def)
    moreover have "count_of k (p # d) = count_of k d" using False by (cases p) (simp add: count_of_def)
    ultimately show ?thesis using Cons by (simp add: type_total_def)
  qed
qed (simp add: type_total_def dict_put_def count_of_def)

definition counts_agree :: "request_counts \<Rightarrow> bool" where
  "counts_agree c \<longleftrightarrow> distinct (dict_keys (rc_blocked_types c))
     \<and> type_total (rc_blocked_types c) = rc_blocked c"

lemma counts_agree_no_counts: "counts_agree no_counts"
  by (simp add: counts_agree_def no_counts_def type_total_def)

lemma route_filter_counts:
  assumes "route_filter req c = (v, c')" and "counts_agree c"
  shows "counts_agree c'"
    and "rc_allowed c' = rc_allowed c + (if v = Continue then 1 else 0)"
    and "rc_blocked c' = rc_blocked c + (if v = Abort then 1 else 0)"
    and "v = Abort \<longleftrightarrow> blocked_as req \<noteq> None"
  using assms
  by (auto simp: route_filter_def counts_agree_def type_total_put split: option.splits)

lemma route_all_counts:
  "route_all reqs c = (vs, c') \<Longrightarrow> counts_agree c \<Longrightarrow>
     counts_agree c' \<and> vs = map (\<lambda>r. if blocked_as r \<noteq> None then Abort else Continue) reqs
     \<and> rc_allowed c' = rc_allowed c + length (filter (\<lambda>v. v = Continue) vs)
     \<and> rc_blocked c' = rc_blocked c + length (filter (\<lambda>v. v = Abort) vs)"
proof (induction reqs arbitrary: c vs)
  case (Cons req reqs)
  obtain v c1 where f: "route_filter req c = (v, c1)" by fastforce
  obtain vs1 where r: "route_all reqs c1 = (vs1, c')" and vs: "vs = v # vs1"
    using Cons.prems(1) f by (auto split: prod.splits)
  note one = route_filter_counts [OF f Cons.prems(2)]
  from Cons.IH [OF r one(1)] one vs show ?case by (cases v) auto
qed simp

subsection \<open>The pool\<close>

text \<open>
  The module's globals and what they refer to: the browser (\<open>Some\<close> whether it is connected),
  whether a driver is referenced, and how many drivers, browsers, contexts and pages exist.
\<close>

record pool =
  bp_browser :: "bool option"
  bp_driver :: bool
  bp_drivers :: nat
  bp_browsers :: nat
  bp_contexts :: nat
  bp_pages :: nat

definition no_pool :: pool where
  "no_pool = \<lparr>bp_browser = None, bp_driver = False, bp_drivers = 0, bp_browsers = 0,
     bp_contexts = 0, bp_pages = 0\<rparr>"

definition launch :: "pool \<Rightarrow> pool" where
  "launch p =
     (if bp_browser p = Some True then p
      else p\<lparr>bp_driver := True, bp_drivers := bp_drivers p + 1, bp_browser := Some True,
             bp_browsers := bp_browsers p + 1\<rparr>)"

text \<open>The browser process dies: the handle stays and reports itself disconnected.\<close>

definition crash :: "pool \<Rightarrow> pool" where
  "crash p = (if bp_browser p = Some True
              then p\<lparr>bp_browser := Some False, bp_browsers := bp_browsers p - 1\<rparr> else p)"

definition job_context :: "(pool \<Rightarrow> (exn + 'a) \<times> pool) \<Rightarrow> pool \<Rightarrow> (exn + 'a) \<times> pool" where
  "job_context body p =
     (let p1 = launch p;
          (res, p2) = body (p1\<lparr>bp_contexts := bp_contexts p1 + 1\<rparr>)
      in (res, p2\<lparr>bp_contexts := bp_contexts p2 - 1\<rparr>))"

definition in_job_page :: "(pool \<Rightarrow> (exn + 'a) \<times> pool) \<Rightarrow> pool \<Rightarrow> (exn + 'a) \<times> pool" where
  "in_job_page body p =
     job_context (\<lambda>p1.
       let (res, p2) = body (p1\<lparr>bp_pages := bp_pages p1 + 1\<rparr>)
       in (res, p2\<lparr>bp_pages := bp_pages p2 - 1\<rparr>)) p"

definition shutdown_pool :: "pool \<Rightarrow> pool" where
  "shutdown_pool p =
     (let p1 = (if bp_browser p = Some True
                then p\<lparr>bp_browsers := bp_browsers p - 1\<rparr> else p);
          p2 = p1\<lparr>bp_browser := None\<rparr>
      in if bp_driver p2 then p2\<lparr>bp_drivers := bp_drivers p2 - 1, bp_driver := False\<rparr> else p2)"

text \<open>Whatever a page does, on success and on an exception, its context and page are closed.\<close>

lemma in_job_page_closes:
  assumes body: "\<And>q. bp_contexts (snd (body q)) = bp_contexts q \<and> bp_pages (snd (body q)) = bp_pages q"
  shows "bp_contexts (snd (in_job_page body p)) = bp_contexts p"
    and "bp_pages (snd (in_job_page body p)) = bp_pages p"
    and "fst (in_job_page body p) =
      fst (body ((launch p)\<lparr>bp_contexts := bp_contexts (launch p) + 1,
                            bp_pages := bp_pages (launch p) + 1\<rparr>))"
  by (simp_all add: in_job_page_def job_context_def Let_def case_prod_beta body launch_def)

lemma launch_once: "launch (launch p) = launch p"
  by (simp add: launch_def)

text \<open>A process that never lost its browser starts one driver and leaves none.\<close>

definition pool_ok :: "pool \<Rightarrow> bool" where
  "pool_ok p \<longleftrightarrow> (bp_browser p = None \<and> \<not> bp_driver p \<and> bp_drivers p = 0 \<and> bp_browsers p = 0)
     \<or> (bp_browser p = Some True \<and> bp_driver p \<and> bp_drivers p = 1 \<and> bp_browsers p = 1)"

lemma pool_ok_launch: "pool_ok p \<Longrightarrow> pool_ok (launch p) \<and> bp_browsers (launch p) = 1"
  by (auto simp: pool_ok_def launch_def)

lemma pool_ok_shutdown:
  "pool_ok p \<Longrightarrow> bp_drivers (shutdown_pool p) = 0 \<and> bp_browsers (shutdown_pool p) = 0"
  by (auto simp: pool_ok_def shutdown_pool_def Let_def)

lemma crash_leaks_driver:
  "pool_ok p \<Longrightarrow> bp_browser p = Some True \<Longrightarrow> bp_drivers (shutdown_pool (launch (crash p))) = 1"
  by (auto simp: pool_ok_def shutdown_pool_def launch_def crash_def Let_def)

end
