(* ===== verification/Fetch.thy ===== *)
theory Fetch
  imports RateLimit Circuit UrlGuard PageUrl Extract BrowserPool
begin

text \<open>
  \<^verbatim>\<open>workers/fetch.py\<close>: one page through the guards.  The network is a parameter: name
  resolution, robots, the HTTP client with the HTML parser, and the browser page.  Besides the
  result the model returns the guards reached, in order, so that their order is a statement.
\<close>

datatype http_failure = HttpTimeout | HttpTransport string | HttpOther exn
datatype render_failure = RenderTimeout | RenderError string

record 'n response =
  rs_status :: int
  rs_content_type :: string
  rs_json :: "exn + json"
  rs_tree :: "exn + 'n"
  rs_length :: int

record 'n web =
  wb_dns :: resolver
  wb_robots :: "string \<Rightarrow> string \<Rightarrow> exn + bool"
  wb_http :: "string \<Rightarrow> (string, json) dict option \<Rightarrow> http_failure + 'n response"
  wb_html :: "'n html"
  wb_urljoin :: "string \<Rightarrow> string \<Rightarrow> string"
  wb_goto :: "string \<Rightarrow> render_failure + int option"
  wb_wait_selector :: "string \<Rightarrow> render_failure + unit"
  wb_evaluate :: "target_spec \<Rightarrow> render_failure + row list"
  wb_page_url :: "string \<Rightarrow> string"
  wb_requests :: "string \<Rightarrow> (string \<times> string) list"
  wb_lengths :: "string \<Rightarrow> int option list"

record fetched =
  ft_page :: int
  ft_url :: string
  ft_rows :: "row list"
  ft_status :: "int option"
  ft_bytes_in :: int
  ft_allowed :: nat
  ft_blocked :: nat
  ft_waited :: rat

datatype guard = CheckUrl | AskRobots | AskCircuit | TakeSlot | Request

definition retryable_status :: "int list" where
  "retryable_status = [408, 425, 429, 500, 502, 503, 504]"

definition status_error :: "int \<Rightarrow> string \<Rightarrow> exn option" where
  "status_error code url =
     (if code \<in> set retryable_status
      then Some (TransientFetchError (dec_int code @ '' from '' @ url))
      else if 400 \<le> code
      then Some (PermanentFetchError (dec_int code @ '' from '' @ url)) else None)"

subsection \<open>The two fetchers\<close>

definition http_request :: "'n web \<Rightarrow> target_spec \<Rightarrow> int \<Rightarrow> string \<Rightarrow> exn + 'n response" where
  "http_request W spec page url =
     bindE (if t_method spec = POST then bindE (page_body spec page) (\<lambda>b. Inr (Some b))
            else Inr None) (\<lambda>body.
       case wb_http W url body of
         Inr response \<Rightarrow> Inr response
       | Inl HttpTimeout \<Rightarrow> Inl (TransientFetchError (''timeout fetching '' @ url))
       | Inl (HttpTransport m) \<Rightarrow>
           Inl (TransientFetchError (''transport error fetching '' @ url @ '': '' @ m))
       | Inl (HttpOther e) \<Rightarrow> Inl e)"

definition http_fetch :: "'n web \<Rightarrow> target_spec \<Rightarrow> int \<Rightarrow> string \<Rightarrow> exn + fetched" where
  "http_fetch W spec page url =
     bindE (http_request W spec page url) (\<lambda>response.
       case status_error (rs_status response) url of
         Some e \<Rightarrow> Inl e
       | None \<Rightarrow>
           bindE (if contains ''json'' (rs_content_type response)
                  then bindE (rs_json response) (\<lambda>v. Inr (rows_from_json v spec))
                  else bindE (rs_tree response) (\<lambda>tree.
                    rows_from_html (wb_html W) (wb_urljoin W) tree spec url)) (\<lambda>rows.
             Inr \<lparr>ft_page = page, ft_url = url, ft_rows = rows,
                  ft_status = Some (rs_status response), ft_bytes_in = rs_length response,
                  ft_allowed = 0, ft_blocked = 0, ft_waited = 0\<rparr>))"

definition render_error :: "string \<Rightarrow> render_failure \<Rightarrow> exn" where
  "render_error url f =
     (case f of
        RenderTimeout \<Rightarrow> TransientFetchError (''timeout rendering '' @ url)
      | RenderError m \<Rightarrow> TransientFetchError (''browser error on '' @ url @ '': '' @ m))"

definition rendered :: "string \<Rightarrow> render_failure + 'a \<Rightarrow> exn + 'a" where
  "rendered url r = (case r of Inl f \<Rightarrow> Inl (render_error url f) | Inr x \<Rightarrow> Inr x)"

definition browser_fetch :: "'n web \<Rightarrow> target_spec \<Rightarrow> int \<Rightarrow> string \<Rightarrow> exn + fetched" where
  "browser_fetch W spec page url =
     bindE (rendered url (wb_goto W url)) (\<lambda>status.
     bindE (case t_wait_for_selector spec of
              None \<Rightarrow> Inr ()
            | Some sel \<Rightarrow> if sel = [] then Inr () else rendered url (wb_wait_selector W sel)) (\<lambda>_.
     bindE (rendered url (wb_evaluate W spec)) (\<lambda>raw.
       let rows = rows_from_page (wb_urljoin W) raw spec (wb_page_url W url);
           counts = snd (route_all (wb_requests W url) no_counts);
           transferred = sum_list (map (\<lambda>n. case n of None \<Rightarrow> 0 | Some k \<Rightarrow> k) (wb_lengths W url))
       in case (case status of None \<Rightarrow> None | Some code \<Rightarrow> status_error code url) of
            Some e \<Rightarrow> Inl e
          | None \<Rightarrow>
              Inr \<lparr>ft_page = page, ft_url = url, ft_rows = rows, ft_status = status,
                   ft_bytes_in = transferred, ft_allowed = rc_allowed counts,
                   ft_blocked = rc_blocked counts, ft_waited = 0\<rparr>)))"

text \<open>\<open>build_fetcher(spec, redis)._fetch\<close>: the spec decides, not the job.\<close>

definition run_fetcher :: "'n web \<Rightarrow> target_spec \<Rightarrow> int \<Rightarrow> string \<Rightarrow> exn + fetched" where
  "run_fetcher W spec page url =
     (if t_fetcher spec = Browser then browser_fetch W spec page url
      else http_fetch W spec page url)"

subsection \<open>The guard pipeline\<close>

definition limiter_prefix :: string where
  "limiter_prefix = ''sq:rl''"

definition domain_bucket :: "string \<Rightarrow> string" where
  "domain_bucket domain = ''domain:'' @ domain"

text \<open>
  What happens to the server outside this task: \<open>env n\<close> during the \<open>n\<close>-th sleep of the
  limiter, \<open>during\<close> while the page is fetched.
\<close>

record 'r surroundings =
  sr_env :: "nat \<Rightarrow> 'r \<Rightarrow> 'r"
  sr_during :: "'r \<Rightarrow> 'r"

definition after_request ::
  "settings \<Rightarrow> 'r redis \<Rightarrow> string \<Rightarrow> rat \<Rightarrow> exn + fetched \<Rightarrow> 'r \<Rightarrow> (exn + fetched) \<times> 'r" where
  "after_request c R url waited res r =
     (case res of
        Inl e \<Rightarrow> (case record_failure c R url r of
                     (Inl e', r') \<Rightarrow> (Inl e', r') | (Inr _, r') \<Rightarrow> (Inl e, r'))
      | Inr x \<Rightarrow> (case record_success R url r of
                     (Inl e', r') \<Rightarrow> (Inl e', r')
                   | (Inr _, r') \<Rightarrow> (Inr (x\<lparr>ft_waited := waited\<rparr>), r')))"

definition robots_check :: "settings \<Rightarrow> 'n web \<Rightarrow> target_spec \<Rightarrow> string \<Rightarrow> exn + unit" where
  "robots_check c W spec url =
     (if \<not> t_respect_robots spec then Inr ()
      else bindE (wb_robots W url (user_agent c)) (\<lambda>ok.
        if ok then Inr () else Inl (PermanentFetchError (''robots.txt disallows '' @ url))))"

definition fetch_one ::
  "settings \<Rightarrow> 'n web \<Rightarrow> 'r redis \<Rightarrow> 'r surroundings \<Rightarrow> nat \<Rightarrow> rat \<Rightarrow> target_spec \<Rightarrow> int
    \<Rightarrow> string option \<Rightarrow> 'r \<Rightarrow> ((exn + fetched) \<times> 'r \<times> guard list) option" where
  "fetch_one c W R S fuel now spec page base r =
     (case page_url spec page base of
        Inl e \<Rightarrow> Some (Inl e, r, [])
      | Inr url \<Rightarrow>
          (case assert_allowed (wb_dns W) url (allowed_target_hosts c) True of
             Inl e \<Rightarrow> Some (Inl e, r, [CheckUrl])
           | Inr _ \<Rightarrow>
               let seen = CheckUrl # (if t_respect_robots spec then [AskRobots] else []) in
               (case robots_check c W spec url of
                  Inl e \<Rightarrow> Some (Inl e, r, seen)
                | Inr _ \<Rightarrow>
                    (case assert_closed R url r of
                       (Inl e, r1) \<Rightarrow> Some (Inl e, r1, seen @ [AskCircuit])
                     | (Inr _, r1) \<Rightarrow>
                         (case domain_of url of
                            Inl e \<Rightarrow> Some (Inl e, r1, seen @ [AskCircuit])
                          | Inr domain \<Rightarrow>
                              (case wait_for_slot fuel R (sr_env S) limiter_prefix
                                  (domain_bucket domain) (t_rate_per_second spec) 120 1 0 now 0 r1 of
                                 None \<Rightarrow> None
                               | Some (Inl e, r2) \<Rightarrow>
                                   Some (Inl e, r2, seen @ [AskCircuit, TakeSlot])
                               | Some (Inr waited, r2) \<Rightarrow>
                                   (case after_request c R url waited
                                       (run_fetcher W spec page url) (sr_during S r2) of
                                      (res, r3) \<Rightarrow>
                                        Some (res, r3, seen @ [AskCircuit, TakeSlot, Request]))))))))"

subsection \<open>Order of the guards\<close>

definition guard_order :: "bool \<Rightarrow> guard list" where
  "guard_order robots =
     CheckUrl # (if robots then [AskRobots] else []) @ [AskCircuit, TakeSlot, Request]"

lemma fetch_one_trace:
  assumes "fetch_one c W R S fuel now spec page base r = Some (res, r', gs)"
  shows "prefix gs (guard_order (t_respect_robots spec))"
  using assms
  unfolding fetch_one_def guard_order_def
  by (auto split: sum.splits prod.splits option.splits simp: Let_def prefix_def)

lemma request_last: "prefix gs (guard_order b) \<Longrightarrow> Request \<in> set gs \<Longrightarrow> gs = guard_order b"
  by (cases b) (auto simp: guard_order_def prefix_Cons)

lemma fetch_one_request:
  assumes "fetch_one c W R S fuel now spec page base r = Some (res, r', gs)" and "Request \<in> set gs"
  obtains url d st r1 r2 waited where "page_url spec page base = Inr url"
    "assert_allowed (wb_dns W) url (allowed_target_hosts c) True = Inr url"
    "robots_check c W spec url = Inr ()" "assert_closed R url r = (Inr st, r1)"
    "domain_of url = Inr d"
    "wait_for_slot fuel R (sr_env S) limiter_prefix (domain_bucket d) (t_rate_per_second spec)
       120 1 0 now 0 r1 = Some (Inr waited, r2)"
    "(res, r') = after_request c R url waited (run_fetcher W spec page url) (sr_during S r2)"
  using assms unfolding fetch_one_def
  by (auto split: sum.splits prod.splits option.splits simp: Let_def assert_allowed_Inr)

lemma fetch_one_success:
  assumes "fetch_one c W R S fuel now spec page base r = Some (Inr x, r', gs)"
  shows "Request \<in> set gs"
  using assms unfolding fetch_one_def
  by (auto split: sum.splits prod.splits option.splits simp: Let_def)

lemma fetch_one_early:
  assumes "fetch_one c W R S fuel now spec page base r = Some (res, r', gs)"
    and "AskCircuit \<notin> set gs"
  shows "r' = r"
  using assms unfolding fetch_one_def
  by (auto split: sum.splits prod.splits option.splits simp: Let_def)


definition sample_dns :: resolver where
  "sample_dns h = (if h = ''a.gov'' then Some [(''8.8.8.8'', V4 (quad 8 8 8 8))] else None)"

definition sample_page :: json where
  "sample_page = JObj [(''items'', JArr [JObj [(''id'', JStr ''1''), (''t'', JStr ''a'')],
     JObj [(''id'', JInt 2), (''t'', JNull)]])]"

definition sample_web :: "unit web" where
  "sample_web =
     \<lparr>wb_dns = sample_dns, wb_robots = (\<lambda>url agent. Inr True),
      wb_http = (\<lambda>url body. Inr \<lparr>rs_status = 200, rs_content_type = ''application/json'',
        rs_json = Inr sample_page, rs_tree = Inr (), rs_length = 60\<rparr>),
      wb_html = \<lparr>h_select = (\<lambda>n sel. []), h_text = (\<lambda>n. []), h_attr = (\<lambda>n a. None)\<rparr>,
      wb_urljoin = (\<lambda>base u. u), wb_goto = (\<lambda>url. Inl RenderTimeout),
      wb_wait_selector = (\<lambda>sel. Inr ()), wb_evaluate = (\<lambda>spec. Inr []), wb_page_url = (\<lambda>url. url),
      wb_requests = (\<lambda>url. []), wb_lengths = (\<lambda>url. [])\<rparr>"

definition alone :: "'r surroundings" where
  "alone = \<lparr>sr_env = (\<lambda>_ r. r), sr_during = (\<lambda>r. r)\<rparr>"

definition sample_url :: string where
  "sample_url = ''https://a.gov/s?rows=25&q=x&p=3#top''"

lemma sample_parts:
  "page_url sample_spec 3 None = Inr sample_url" "domain_of sample_url = Inr ''a.gov''"
  "urlparse sample_url = Inr \<lparr>u_scheme = ''https'', u_netloc = ''a.gov'', u_path = ''/s'', u_params = [],
    u_query = ''rows=25&q=x&p=3'', u_fragment = ''top''\<rparr>"
  "http_fetch sample_web sample_spec 3 sample_url = Inr \<lparr>ft_page = 3, ft_url = sample_url,
     ft_rows = [[(''id'', JStr ''1''), (''title'', JStr ''a'')], [(''id'', JInt 2), (''title'', JNull)]],
     ft_status = Some 200, ft_bytes_in = 60, ft_allowed = 0, ft_blocked = 0, ft_waited = 0\<rparr>"
  by code_simp+

lemma sample_url_allowed: "assert_allowed sample_dns sample_url [''a.gov''] True = Inr sample_url"
proof -
  have "hostname \<lparr>u_scheme = ''https'', u_netloc = ''a.gov'', u_path = ''/s'', u_params = [],
    u_query = ''rows=25&q=x&p=3'', u_fragment = ''top''\<rparr> = Some ''a.gov''"
    "port \<lparr>u_scheme = ''https'', u_netloc = ''a.gov'', u_path = ''/s'', u_params = [],
    u_query = ''rows=25&q=x&p=3'', u_fragment = ''top''\<rparr> = Inr None" "lower ''a.gov'' = ''a.gov''"
    by code_simp+
  moreover have "\<not> non_public (V4 (quad 8 8 8 8))"
    by (simp add: ipv4_ranges between_def quad_def)
  ultimately show ?thesis
    by (simp add: assert_allowed_Inr assert_public_Inr allowed_schemes_def sample_parts sample_dns_def)
qed

definition sample_rows_fetched :: "row list" where
  "sample_rows_fetched =
     [[(''id'', JStr ''1''), (''title'', JStr ''a'')], [(''id'', JInt 2), (''title'', JNull)]]"

lemma sample_sel [simp]:
  "wb_dns sample_web = sample_dns" "wb_robots sample_web url agent = Inr True"
  "allowed_target_hosts sample_settings = [''a.gov'']"
  by (simp_all add: sample_web_def sample_settings_def)

lemma sample_slot:
  "\<exists>r2. wait_for_slot 2 mem_redis (\<lambda>_ r. r) limiter_prefix (domain_bucket ''a.gov'') 1 120 1 0 0 0 mem_empty
     = Some (Inr 0, r2)"
  by (simp add: numeral_2_eq_2 consume_def bucket_script_def bucket_step_def mem_redis_def mem_live_def
      mem_empty_def still_live_def entry_hash_def bucket_capacity_def Let_def)

lemma sample_fetch:
  "\<exists>r' x. fetch_one sample_settings sample_web mem_redis alone 2 0 sample_spec 3 None mem_empty
       = Some (Inr x, r', guard_order True)
     \<and> ft_page x = 3 \<and> ft_url x = sample_url \<and> ft_rows x = sample_rows_fetched"
proof -
  obtain r2 where slot: "wait_for_slot 2 mem_redis (\<lambda>_ r. r) limiter_prefix (domain_bucket ''a.gov'')
      1 120 1 0 0 0 mem_empty = Some (Inr 0, r2)" using sample_slot by blast
  have spec: "t_respect_robots sample_spec" "t_rate_per_second sample_spec = 1"
    "t_fetcher sample_spec = Http" by (simp_all add: sample_spec_def)
  have closed: "assert_closed mem_redis sample_url mem_empty = (Inr CLOSED, mem_empty)"
    by (simp add: assert_closed_def circuit_state_of_def sample_parts mem_redis_def mem_live_def
        mem_empty_def still_live_def ttl_of_def)
  have "run_fetcher sample_web sample_spec 3 sample_url = http_fetch sample_web sample_spec 3 sample_url"
    by (simp add: run_fetcher_def spec)
  then show ?thesis
    using slot closed sample_url_allowed
    by (simp add: fetch_one_def sample_parts spec Let_def robots_check_def after_request_def
        record_success_def guard_order_def alone_def sample_rows_fetched_def)
qed


end
