(* ===== verification/Checkpoint.thy ===== *)
theory Checkpoint
  imports Store
begin

text \<open>
  Resume planning (\<^verbatim>\<open>queue/checkpoint.py\<close>).  The locale \<open>page_checkpoint\<close> is what the
  planner relies on: a page once recorded stays recorded, and recording a page changes no other.
  Its client lemmas follow a job through any number of workers that die on the way.
\<close>

definition pages_to_fetch :: "db \<Rightarrow> uuid \<Rightarrow> int \<Rightarrow> int list" where
  "pages_to_fetch db i max_pages = filter (\<lambda>page. page \<notin> completed_pages db i) [1..max_pages]"

definition resume_summary :: "db \<Rightarrow> uuid \<Rightarrow> int \<Rightarrow> int \<times> int" where
  "resume_summary db i max_pages =
     (let remaining = int (length (pages_to_fetch db i max_pages))
      in (remaining, max_pages - remaining))"

text \<open>
  Attempts at a job of \<open>n\<close> pages: the \<open>k\<close>-th worker plans and gets through the first so many
  pages of its plan.  The result lists the pages in the order they were fetched.
\<close>

fun attempts :: "('s \<Rightarrow> int set) \<Rightarrow> (int \<Rightarrow> 's \<Rightarrow> 's) \<Rightarrow> int \<Rightarrow> nat list \<Rightarrow> 's \<Rightarrow> int list \<times> 's" where
  "attempts completed mark n [] s = ([], s)"
| "attempts completed mark n (k # ks) s =
     (let todo = take k (filter (\<lambda>p. p \<notin> completed s) [1..n]);
          (later, s') = attempts completed mark n ks (fold mark todo s)
      in (todo @ later, s'))"

locale page_checkpoint =
  fixes good :: "'s \<Rightarrow> bool" and completed :: "'s \<Rightarrow> int set" and mark :: "int \<Rightarrow> 's \<Rightarrow> 's"
  assumes mark_good: "good s \<Longrightarrow> good (mark p s)"
    and mark_pages: "good s \<Longrightarrow> completed (mark p s) = insert p (completed s)"
begin

lemma fold_mark:
  "good s \<Longrightarrow> good (fold mark ps s) \<and> completed (fold mark ps s) = set ps \<union> completed s"
  by (induction ps arbitrary: s) (auto simp: mark_good mark_pages)

lemma never_again:
  "good s \<Longrightarrow> attempts completed mark n ks s = (ps, s') \<Longrightarrow>
     distinct ps \<and> set ps \<subseteq> {1..n} \<and> set ps \<inter> completed s = {}
     \<and> completed s' = completed s \<union> set ps \<and> good s'"
proof (induction ks arbitrary: s ps)
  case Nil
  then show ?case by simp
next
  case (Cons k ks)
  let ?todo = "take k (filter (\<lambda>p. p \<notin> completed s) [1..n])"
  obtain later where later: "attempts completed mark n ks (fold mark ?todo s) = (later, s')"
    and ps: "ps = ?todo @ later" using Cons.prems(2) by (auto simp: Let_def split: prod.splits)
  have todo: "distinct ?todo" "set ?todo \<subseteq> {1..n}" "set ?todo \<inter> completed s = {}"
    by (auto dest: in_set_takeD)
  from fold_mark [OF Cons.prems(1), of ?todo]
  have "good (fold mark ?todo s)" "completed (fold mark ?todo s) = set ?todo \<union> completed s"
    by simp_all
  with Cons.IH [OF _ later] todo ps show ?case by (simp add: Un_ac) blast
qed

text \<open>Once an attempt gets through its whole plan, every page has been fetched.\<close>

lemma finished:
  assumes "good s" and "attempts completed mark n (ks @ [k]) s = (ps, s')" and "nat n \<le> k"
  shows "completed s' \<supseteq> {1..n}"
  using assms(1,2)
proof (induction ks arbitrary: s ps)
  case Nil
  let ?plan = "filter (\<lambda>p. p \<notin> completed s) [1..n]"
  have "length ?plan \<le> k"
    using assms(3) length_filter_le [of "\<lambda>p. p \<notin> completed s" "[1..n]"] by simp
  then have "fold mark ?plan s = snd (attempts completed mark n ([] @ [k]) s)"
    by (simp add: Let_def)
  also have "\<dots> = s'" using Nil(2) by (simp only: snd_conv)
  finally have s': "fold mark ?plan s = s'" .
  have "completed s' = set ?plan \<union> completed s"
    unfolding s' [symmetric] using fold_mark [OF Nil(1)] by blast
  moreover have "{1..n} \<subseteq> set ?plan \<union> completed s" by auto
  ultimately show ?case by (simp only:)
next
  case (Cons j ks)
  let ?todo = "take j (filter (\<lambda>p. p \<notin> completed s) [1..n])"
  obtain later where "attempts completed mark n (ks @ [k]) (fold mark ?todo s) = (later, s')"
    using Cons.prems(2) by (auto simp: Let_def split: prod.splits)
  with Cons.IH show ?case using fold_mark [OF Cons.prems(1)] by blast
qed

end

subsection \<open>The table of pages is such a checkpoint\<close>

definition complete_page :: "datetime \<Rightarrow> uuid \<Rightarrow> (int \<Rightarrow> string \<times> int) \<Rightarrow> int \<Rightarrow> db \<Rightarrow> db" where
  "complete_page now i info page db =
     (case record_page now db i page (fst (info page)) PagePARSED (snd (info page)) None of
        Inl e \<Rightarrow> db | Inr (_, db') \<Rightarrow> db')"

definition pages_parsed :: "uuid \<Rightarrow> db \<Rightarrow> bool" where
  "pages_parsed i db \<longleftrightarrow> get_job db i \<noteq> None
     \<and> (\<forall>p \<in> set (job_pages db). p_job_id p = i \<longrightarrow> p_state p \<in> {PageFETCHED, PagePARSED})"

lemma recorded_completed:
  "pages_parsed i db \<Longrightarrow> page_recorded db i page \<longleftrightarrow> page \<in> completed_pages db i"
  by (auto simp: pages_parsed_def page_recorded_def completed_pages_def)

interpretation job_pages: page_checkpoint "pages_parsed i" "\<lambda>db. completed_pages db i"
    "complete_page now i info"
  for i now info
proof
  fix db and p :: int
  assume good: "pages_parsed i db"
  show "completed_pages (complete_page now i info p db) i = insert p (completed_pages db i)"
  proof (cases "page_recorded db i p")
    case True
    with good recorded_completed [OF good, of p] show ?thesis
      by (auto simp: complete_page_def record_page_again)
  next
    case False
    then have "\<exists>db'. record_page now db i p (fst (info p)) PagePARSED (snd (info p)) None = Inr (True, db')"
      using good by (auto simp: record_page_True pages_parsed_def)
    then show ?thesis by (auto simp: complete_page_def record_page_completed)
  qed
  show "pages_parsed i (complete_page now i info p db)"
    using good
    by (auto simp: complete_page_def record_page_def pages_parsed_def get_job_update frame
        split: sum.splits)
qed



end
