(* ===== verification/Crawl.thy ===== *)
theory Crawl
  imports Export Fetch Checkpoint
begin

text \<open>
  The tasks of \<^verbatim>\<open>pipeline/crawl.py\<close> and \<^verbatim>\<open>queue/deadletter.py\<close>.  A database session
  is a transaction: an exception inside it leaves the database as it was.
\<close>

datatype crawl_result =
    CrawlMissing
  | CrawlStatus job_state
  | CrawlParked
  | CrawlResumed
  | CrawlFannedOut nat

record crawl_plan =
  cp_target :: string
  cp_max_pages :: int
  cp_base :: string
  cp_pending :: "int list"

text \<open>The first session: what the job is worth at this delivery.\<close>

definition start_job :: "datetime \<Rightarrow> db \<Rightarrow> job \<Rightarrow> job \<Rightarrow> crawl_plan \<times> db" where
  "start_job now db j j1 =
     (let j2 = j1\<lparr>j_attempts := j_attempts j1 + 1, j_pages_total := Some (j_max_pages j1)\<rparr>;
          db2 = flush_job now j1 j2 db
      in (\<lparr>cp_target = j_target j, cp_max_pages = j_max_pages j, cp_base = j_start_url j,
           cp_pending = pages_to_fetch db2 (j_id j) (j_max_pages j)\<rparr>, db2))"

definition begin_crawl ::
  "settings \<Rightarrow> datetime \<Rightarrow> db \<Rightarrow> uuid \<Rightarrow> exn + (crawl_result + crawl_plan) \<times> db" where
  "begin_crawl c now db i =
     (case get_job db i of
        None \<Rightarrow> Inr (Inl CrawlMissing, db)
      | Some j \<Rightarrow>
          if terminal (j_state j) then Inr (Inl (CrawlStatus (j_state j)), db)
          else if j_state j = RUNNING then
            bindE (bump_lost_worker now db i) (\<lambda>(lost, db1).
              if poison_pill_threshold c \<le> lost then
                bindE (transition now db1 j j DEAD_LETTER (Some ''poison pill'')) (\<lambda>(_, db2).
                bindE (park_dead_letter now db2 i ''poison_pill''
                         (''redelivered '' @ dec_int lost @ '' times'') []) (\<lambda>db3.
                  Inr (Inl CrawlParked, db3)))
              else (case start_job now db1 j j of (plan, db2) \<Rightarrow> Inr (Inr plan, db2)))
          else
            bindE (transition now db j j RUNNING None) (\<lambda>(j1, db1).
              case start_job now db1 j j1 of (plan, db2) \<Rightarrow> Inr (Inr plan, db2)))"

definition crawl_job ::
  "'s deployment \<Rightarrow> datetime \<Rightarrow> uuid \<Rightarrow> ('s, 'r) world \<Rightarrow> (exn + crawl_result) \<times> ('s, 'r) world" where
  "crawl_job D now i w =
     (case begin_crawl (cfg D) now (w_db w) i of
        Inl e \<Rightarrow> (Inl e, w)
      | Inr (Inl stop, db') \<Rightarrow> (Inr stop, w\<lparr>w_db := db'\<rparr>)
      | Inr (Inr plan, db') \<Rightarrow>
          let w1 = w\<lparr>w_db := db'\<rparr> in
          if cp_pending plan = [] then (Inr CrawlResumed, send (AssembleMsg i []) w1)
          else
            (case spec_of D (cp_target plan) of
               Inl e \<Rightarrow> (Inl e, w1)
             | Inr spec \<Rightarrow>
                 (Inr (CrawlFannedOut (length (cp_pending plan))),
                  send (ChordMsg i (cp_pending plan) (cp_base plan)
                    (if t_fetcher spec = Browser then ''browser'' else ''default'')) w1)))"

subsection \<open>A page task\<close>

definition record_failure_row ::
  "datetime \<Rightarrow> uuid \<Rightarrow> int \<Rightarrow> string \<Rightarrow> exn \<Rightarrow> nat \<Rightarrow> db \<Rightarrow> exn + db" where
  "record_failure_row now i page url e retries db =
     record_failed_page now db i page url (int retries + 1) (exn_name e) (exn_str e) None"

text \<open>What becomes of an exception of the fetcher: a recorded failure that ends the task, a
  recorded one that is raised, or one that is only raised (and retried, for the classes in
  \<open>autoretry_for\<close>).\<close>

datatype failure_handling = RecordAndReturn | RecordAndRaise | OnlyRaise

definition handle_failure :: "settings \<Rightarrow> nat \<Rightarrow> exn \<Rightarrow> failure_handling" where
  "handle_failure c retries e =
     (case e of
        PermanentFetchError _ \<Rightarrow> RecordAndReturn
      | SoftTimeLimitExceeded \<Rightarrow> RecordAndRaise
      | TransientFetchError _ \<Rightarrow>
          if max_job_retries c \<le> int retries then RecordAndReturn else OnlyRaise
      | CircuitOpen _ _ \<Rightarrow>
          if max_job_retries c \<le> int retries then RecordAndReturn else OnlyRaise
      | _ \<Rightarrow> OnlyRaise)"

definition failure_url :: "target_spec \<Rightarrow> string option \<Rightarrow> string" where
  "failure_url spec base = base_or_start spec base"

definition store_page ::
  "'s deployment \<Rightarrow> datetime \<Rightarrow> uuid \<Rightarrow> int \<Rightarrow> fetched \<Rightarrow> ('s, 'r) world
    \<Rightarrow> (exn + page_result) \<times> ('s, 'r) world" where
  "store_page D now i page x w =
     (case put_bytes (storage D) (page_key i page) (page_body_text (ft_rows x))
         ''application/json'' (w_objects w) of
        Inl e \<Rightarrow> (Inl e, w)
      | Inr (_, s') \<Rightarrow>
          let w1 = w\<lparr>w_objects := s'\<rparr> in
          (case record_page now (w_db w1) i page (ft_url x) PagePARSED
              (int (length (ft_rows x))) None of
             Inl e \<Rightarrow> (Inl e, w1)
           | Inr (inserted, db') \<Rightarrow>
               (Inr (done_result page (int (length (ft_rows x))) (page_key i page) (\<not> inserted)),
                w1\<lparr>w_db := db'\<rparr>)))"

definition fail_page ::
  "settings \<Rightarrow> datetime \<Rightarrow> uuid \<Rightarrow> int \<Rightarrow> string \<Rightarrow> exn \<Rightarrow> nat \<Rightarrow> ('s, 'r) world
    \<Rightarrow> (exn + page_result) \<times> ('s, 'r) world" where
  "fail_page c now i page url e retries w =
     (case handle_failure c retries e of
        OnlyRaise \<Rightarrow> (Inl e, w)
      | h \<Rightarrow>
          (case record_failure_row now i page url e retries (w_db w) of
             Inl e' \<Rightarrow> (Inl e', w)
           | Inr db' \<Rightarrow>
               (if h = RecordAndReturn then Inr (failed_result page) else Inl e,
                w\<lparr>w_db := db'\<rparr>)))"

text \<open>\<open>env\<close> is what the rest of the system does between the two sessions of the task.\<close>

definition fetch_page ::
  "'s deployment \<Rightarrow> 'n web \<Rightarrow> 'r redis \<Rightarrow> 'r surroundings
    \<Rightarrow> (('s, 'r) world \<Rightarrow> ('s, 'r) world) \<Rightarrow> nat \<Rightarrow> datetime \<Rightarrow> rat \<Rightarrow> nat \<Rightarrow> uuid \<Rightarrow> int
    \<Rightarrow> string option \<Rightarrow> ('s, 'r) world \<Rightarrow> ((exn + page_result) \<times> ('s, 'r) world) option" where
  "fetch_page D W R S env fuel now clock retries i page base w =
     (case get_job (w_db w) i of
        None \<Rightarrow> Some (Inr (skipped_result page), w)
      | Some j \<Rightarrow>
          if j_state j = CANCELLED then Some (Inr (skipped_result page), w)
          else
            (case spec_of D (j_target j) of
               Inl e \<Rightarrow> Some (Inl e, w)
             | Inr spec \<Rightarrow>
                 (case fetch_one (cfg D) W R S fuel clock spec page base (w_redis w) of
                    None \<Rightarrow> None
                  | Some (res, r', _) \<Rightarrow>
                      let w1 = env (w\<lparr>w_redis := r'\<rparr>) in
                      Some (case res of
                          Inr x \<Rightarrow> store_page D now i page x w1
                        | Inl e \<Rightarrow>
                            fail_page (cfg D) now i page (failure_url spec base) e retries w1))))"

definition assemble_job ::
  "'s deployment \<Rightarrow> (nat \<Rightarrow> ('s, 'r) world \<Rightarrow> ('s, 'r) world) \<Rightarrow> datetime
    \<Rightarrow> page_result list \<Rightarrow> uuid \<Rightarrow> ('s, 'r) world \<Rightarrow> (exn + final) \<times> ('s, 'r) world" where
  "assemble_job D env now results i w = finalise_job D env now i results w"

subsection \<open>The dead-letter task\<close>

definition park_db :: "datetime \<Rightarrow> db \<Rightarrow> uuid \<Rightarrow> string \<Rightarrow> string \<Rightarrow> (string, json) dict option \<Rightarrow> exn + db" where
  "park_db now db i why detail payload =
     (case get_job db i of
        None \<Rightarrow> Inr db
      | Some j \<Rightarrow>
          bindE (park_dead_letter now db i why detail (case payload of None \<Rightarrow> [] | Some p \<Rightarrow> p))
            (\<lambda>db1. if j_state j = DEAD_LETTER then Inr db1
                    else bindE (transition now db1 j j DEAD_LETTER (Some detail)) (\<lambda>(_, db2). Inr db2)))"

definition park ::
  "datetime \<Rightarrow> uuid \<Rightarrow> string \<Rightarrow> string \<Rightarrow> (string, json) dict option \<Rightarrow> ('s, 'r) world
    \<Rightarrow> (exn + unit) \<times> ('s, 'r) world" where
  "park now i why detail payload w =
     (case park_db now (w_db w) i why detail payload of
        Inl e \<Rightarrow> (Inl e, w) | Inr db' \<Rightarrow> (Inr (), w\<lparr>w_db := db'\<rparr>))"

text \<open>
  C14. The rows a page task stores are the rows the assembly reads back for that page, and the
  task reports a duplicate exactly when the page was recorded before, in which case the
  database does not change.
\<close>

theorem stored_page_reloads:
  assumes "object_store (storage D) objects" and "store_page D now i page x w = (Inr res, w')"
    and "\<forall>r \<in> set (ft_rows x). row_ok r"
  shows "page_rows D (w_objects w') res = Inr (ft_rows x) \<and> page_recorded (w_db w') i page
    \<and> pr_page res = page \<and> pr_rows res = int (length (ft_rows x))
    \<and> (pr_duplicate res \<longleftrightarrow> page_recorded (w_db w) i page)
    \<and> (pr_duplicate res \<longrightarrow> w_db w' = w_db w)"
proof -
  let ?k = "page_key i page" and ?body = "page_body_text (ft_rows x)"
  obtain n s' where put: "put_bytes (storage D) ?k ?body ''application/json'' (w_objects w) = Inr (n, s')"
    and rest: "store_page D now i page x w =
      (let w1 = w\<lparr>w_objects := s'\<rparr> in
          (case record_page now (w_db w1) i page (ft_url x) PagePARSED
              (int (length (ft_rows x))) None of
             Inl e \<Rightarrow> (Inl e, w1)
           | Inr (inserted, db') \<Rightarrow>
               (Inr (done_result page (int (length (ft_rows x))) (page_key i page) (\<not> inserted)),
                w1\<lparr>w_db := db'\<rparr>)))"
    using assms(2) by (auto simp: store_page_def split: sum.splits)
  obtain b db' where rec: "record_page now (w_db w) i page (ft_url x) PagePARSED
      (int (length (ft_rows x))) None = Inr (b, db')"
    and res: "res = done_result page (int (length (ft_rows x))) ?k (\<not> b)"
    and w': "w' = w\<lparr>w_objects := s', w_db := db'\<rparr>"
    using assms(2) rest by (auto simp: Let_def split: sum.splits)
  have "o_get (storage D) ?k s' = Inr ?body" using object_store.put_then_get [OF assms(1) put] .
  then have "page_rows D s' res = Inr (ft_rows x)"
    using rows_of_stored [OF assms(3)]
    by (simp add: page_rows_def res done_result_def) (simp add: page_key_def)
  moreover have "b \<longleftrightarrow> \<not> page_recorded (w_db w) i page" "\<not> b \<longrightarrow> db' = w_db w"
    using rec by (cases b; simp add: record_page_True record_page_False)+
  moreover have "page_recorded db' i page" using record_page_recorded [OF rec] by simp
  ultimately show ?thesis by (simp add: res w' done_result_def)
qed

lemma get_job_bump:
  "bump_lost_worker now db i = Inr (n, db') \<longleftrightarrow>
     (\<exists>j. get_job db i = Some j \<and> n = j_lost_worker_count j + 1
        \<and> db' = update_job now i (\<lambda>j. j\<lparr>j_lost_worker_count := j_lost_worker_count j + 1\<rparr>) db)"
  by (auto simp: bump_lost_worker_def split: option.splits)

lemma pages_to_fetch_frame:
  "job_pages db' = job_pages db \<Longrightarrow> pages_to_fetch db' i n = pages_to_fetch db i n"
  by (simp add: pages_to_fetch_def completed_pages_def)

text \<open>What a delivery does to a job that is running, and to one that is not.\<close>

lemma get_job_flush_own:
  assumes "get_job db (j_id j) = Some r"
  shows "get_job (flush_job now j j' db) =
    (if j' = j then get_job db
     else (get_job db)(j_id j \<mapsto> (flush_cols j j' r)\<lparr>j_updated_at := now\<rparr>))"
  using assms by (auto simp: get_job_flush fun_eq_iff)

lemma differs: "j_state a \<noteq> j_state b \<or> j_attempts a \<noteq> j_attempts b \<Longrightarrow> a \<noteq> b"
  by auto

text \<open>The plan a delivery works from, and the row it leaves.\<close>

definition plan_for :: "db \<Rightarrow> job \<Rightarrow> crawl_plan" where
  "plan_for db j = \<lparr>cp_target = j_target j, cp_max_pages = j_max_pages j, cp_base = j_start_url j,
     cp_pending = pages_to_fetch db (j_id j) (j_max_pages j)\<rparr>"

definition begun_row :: "datetime \<Rightarrow> job \<Rightarrow> job" where
  "begun_row now j =
     (if j_state j = RUNNING
      then j\<lparr>j_lost_worker_count := j_lost_worker_count j + 1\<rparr>
      else transition_cols now RUNNING None j)
     \<lparr>j_attempts := j_attempts j + 1, j_pages_total := Some (j_max_pages j), j_updated_at := now\<rparr>"

definition poisoned_row :: "datetime \<Rightarrow> job \<Rightarrow> job" where
  "poisoned_row now j = (transition_cols now DEAD_LETTER (Some ''poison pill'') j)
     \<lparr>j_lost_worker_count := j_lost_worker_count j + 1, j_updated_at := now\<rparr>"

lemma begin_crawl_again:
  assumes j: "get_job db i = Some j" "j_state j = RUNNING"
    and few: "j_lost_worker_count j + 1 < poison_pill_threshold c"
  shows "\<exists>db'. begin_crawl c now db i = Inr (Inr (plan_for db j), db')
    \<and> get_job db' = (get_job db)(i \<mapsto> begun_row now j)
    \<and> job_pages db' = job_pages db \<and> failed_pages db' = failed_pages db
    \<and> dead_letters db' = dead_letters db"
proof -
  let ?bump = "\<lambda>j. j\<lparr>j_lost_worker_count := j_lost_worker_count j + 1\<rparr>"
  let ?j2 = "j\<lparr>j_attempts := j_attempts j + 1, j_pages_total := Some (j_max_pages j)\<rparr>"
  let ?db1 = "update_job now i ?bump db"
  have id: "j_id j = i" using get_job_id [OF j(1)] .
  have neq: "?j2 \<noteq> j" by (rule differs) simp
  have "begin_crawl c now db i = Inr (Inr (plan_for db j), flush_job now j ?j2 ?db1)"
    using j few by (simp add: begin_crawl_def bump_lost_worker_def start_job_def Let_def id
        pages_to_fetch_def completed_pages_def frame plan_for_def)
  moreover have "get_job (flush_job now j ?j2 ?db1) = (get_job db)(i \<mapsto> begun_row now j)"
    using j neq
    by (auto simp: get_job_flush get_job_update id fun_eq_iff flush_cols_def flushed_def begun_row_def)
  ultimately show ?thesis by (auto simp: frame)
qed

lemma begin_crawl_poison:
  assumes j: "get_job db i = Some j" "j_state j = RUNNING"
    and many: "poison_pill_threshold c \<le> j_lost_worker_count j + 1"
  shows "\<exists>db' x. begin_crawl c now db i = Inr (Inl CrawlParked, db')
    \<and> get_job db' = (get_job db)(i \<mapsto> poisoned_row now j)
    \<and> job_pages db' = job_pages db \<and> failed_pages db' = failed_pages db
    \<and> dead_letters db' = dead_letters db @ [x] \<and> d_job_id x = i \<and> d_reason x = ''poison_pill''"
proof -
  let ?bump = "\<lambda>j. j\<lparr>j_lost_worker_count := j_lost_worker_count j + 1\<rparr>"
  let ?db1 = "update_job now i ?bump db"
  let ?j2 = "transition_cols now DEAD_LETTER (Some ''poison pill'') j"
  let ?db2 = "flush_job now j ?j2 ?db1"
  have id: "j_id j = i" using get_job_id [OF j(1)] .
  have neq: "?j2 \<noteq> j" by (rule differs) (simp add: j(2))
  have r: "get_job ?db2 = (get_job db)(i \<mapsto> poisoned_row now j)"
    using j neq
    by (auto simp: get_job_flush get_job_update id fun_eq_iff flush_cols_def flushed_def
        transition_cols_def poisoned_row_def)
  have "transition now ?db1 j j DEAD_LETTER (Some ''poison pill'') = Inr (?j2, ?db2)"
    using j(2) by (simp add: transition_Inr)
  moreover have "get_job (?db2\<lparr>dead_letters := ds\<rparr>) = get_job ?db2" for ds by (simp add: fun_eq_iff)
  ultimately show ?thesis using j many r
    by (auto simp: begin_crawl_def bump_lost_worker_def park_dead_letter_def frame)
qed

lemma begin_crawl_first:
  assumes j: "get_job db i = Some j" "j_state j = PENDING \<or> j_state j = PAUSED"
  shows "\<exists>db'. begin_crawl c now db i = Inr (Inr (plan_for db j), db')
    \<and> get_job db' = (get_job db)(i \<mapsto> begun_row now j)
    \<and> job_pages db' = job_pages db \<and> failed_pages db' = failed_pages db
    \<and> dead_letters db' = dead_letters db"
proof -
  let ?j1 = "transition_cols now RUNNING None j"
  let ?db1 = "flush_job now j ?j1 db"
  let ?j2 = "?j1\<lparr>j_attempts := j_attempts ?j1 + 1, j_pages_total := Some (j_max_pages ?j1)\<rparr>"
  have id: "j_id j = i" using get_job_id [OF j(1)] .
  have n1: "?j1 \<noteq> j" by (rule differs) (use j(2) in auto)
  have n2: "?j2 \<noteq> ?j1" by (rule differs) simp
  have "transition now db j j RUNNING None = Inr (?j1, ?db1)" using j(2) by (auto simp: transition_Inr)
  moreover have "\<not> terminal (j_state j)" "j_state j \<noteq> RUNNING" using j(2) by auto
  ultimately have "begin_crawl c now db i = Inr (Inr (plan_for db j), flush_job now ?j1 ?j2 ?db1)"
    using j(1) by (simp add: begin_crawl_def start_job_def Let_def id
        pages_to_fetch_def completed_pages_def frame plan_for_def)
  moreover have "get_job (flush_job now ?j1 ?j2 ?db1) = (get_job db)(i \<mapsto> begun_row now j)"
  proof
    fix k
    have "(flush_cols ?j1 ?j2 ((flush_cols j ?j1 j)\<lparr>j_updated_at := now\<rparr>))\<lparr>j_updated_at := now\<rparr>
        = begun_row now j"
      using \<open>j_state j \<noteq> RUNNING\<close> by (simp add: flush_cols_def begun_row_def)
    then show "get_job (flush_job now ?j1 ?j2 ?db1) k = ((get_job db)(i \<mapsto> begun_row now j)) k"
      using j(1) n1 n2 by (simp add: get_job_flush id)
  qed
  ultimately show ?thesis by (auto simp: frame)
qed

lemma begun_row_sel [simp]:
  "j_id (begun_row now j) = j_id j" "j_state (begun_row now j) = RUNNING"
  "j_target (begun_row now j) = j_target j" "j_output_format (begun_row now j) = j_output_format j"
  "j_max_pages (begun_row now j) = j_max_pages j" "j_attempts (begun_row now j) = j_attempts j + 1"
  "j_lost_worker_count (begun_row now j) =
     (if j_state j = RUNNING then j_lost_worker_count j + 1 else j_lost_worker_count j)"
  by (simp_all add: begun_row_def)

lemma poisoned_row_sel [simp]:
  "j_id (poisoned_row now j) = j_id j" "j_state (poisoned_row now j) = DEAD_LETTER"
  "j_error (poisoned_row now j) = Some ''poison pill''" "j_finished_at (poisoned_row now j) = Some now"
  by (simp_all add: poisoned_row_def transition_cols_def)

text \<open>Every delivery that commits is one of these, or finds nothing to do.\<close>

lemma begin_crawl_cases:
  assumes "begin_crawl c now db i = Inr (out, db')"
  obtains (idle) "db' = db" "\<forall>j. get_job db i = Some j \<longrightarrow> terminal (j_state j)"
  | (begun) j where "get_job db i = Some j" "\<not> terminal (j_state j)" "out = Inr (plan_for db j)"
      "j_state j = RUNNING \<longrightarrow> j_lost_worker_count j + 1 < poison_pill_threshold c"
      "get_job db' = (get_job db)(i \<mapsto> begun_row now j)"
  | (poisoned) j where "get_job db i = Some j" "j_state j = RUNNING" "out = Inl CrawlParked"
      "poison_pill_threshold c \<le> j_lost_worker_count j + 1"
      "get_job db' = (get_job db)(i \<mapsto> poisoned_row now j)"
proof (cases "get_job db i")
  case None
  with assms idle show thesis by (simp add: begin_crawl_def)
next
  case (Some j)
  consider "terminal (j_state j)" | "j_state j = PENDING \<or> j_state j = PAUSED"
    | "j_state j = RUNNING" by (cases "j_state j") auto
  then show thesis
  proof cases
    case 1
    with assms idle Some show thesis by (simp add: begin_crawl_def)
  next
    case 2
    then have "\<not> terminal (j_state j)" "j_state j \<noteq> RUNNING" by auto
    with begin_crawl_first [OF Some 2, of c now] assms begun [OF Some] show thesis by auto
  next
    case 3
    show thesis
    proof (cases "j_lost_worker_count j + 1 < poison_pill_threshold c")
      case True
      with begin_crawl_again [OF Some 3 True, of now] assms begun [OF Some] 3 show thesis by auto
    next
      case False
      then have "poison_pill_threshold c \<le> j_lost_worker_count j + 1" by simp
      with begin_crawl_poison [OF Some 3 this, of now] assms poisoned [OF Some 3] show thesis by auto
    qed
  qed
qed

text \<open>Deliveries of one crawl message, one after the other.\<close>

fun deliveries :: "settings \<Rightarrow> uuid \<Rightarrow> datetime list \<Rightarrow> db \<Rightarrow> db" where
  "deliveries c i [] db = db"
| "deliveries c i (t # ts) db =
     deliveries c i ts (case begin_crawl c t db i of Inl e \<Rightarrow> db | Inr (_, db') \<Rightarrow> db')"

lemma deliveries_terminal:
  "get_job db i = Some j \<Longrightarrow> terminal (j_state j) \<Longrightarrow> deliveries c i ts db = db"
  by (induction ts) (simp_all add: begin_crawl_def)

lemma deliveries_running:
  assumes "get_job db i = Some j" and "j_state j = RUNNING" and "j_lost_worker_count j < poison_pill_threshold c"
  shows "let lost = j_lost_worker_count j + int (length ts); db' = deliveries c i ts db in
    if lost < poison_pill_threshold c
    then dead_letters db' = dead_letters db \<and> (\<exists>r. get_job db' i = Some r \<and> j_state r = RUNNING
      \<and> j_lost_worker_count r = lost)
    else (\<exists>x. dead_letters db' = dead_letters db @ [x] \<and> d_job_id x = i)
      \<and> (\<exists>r. get_job db' i = Some r \<and> j_state r = DEAD_LETTER)"
  using assms
proof (induction ts arbitrary: db j)
  case (Cons t ts)
  show ?case
  proof (cases "j_lost_worker_count j + 1 < poison_pill_threshold c")
    case True
    from begin_crawl_again [OF Cons.prems(1,2) True, of t] obtain plan db' r
      where r: "begin_crawl c t db i = Inr (plan, db')" "get_job db' i = Some r" "j_state r = RUNNING"
        "j_lost_worker_count r = j_lost_worker_count j + 1" "dead_letters db' = dead_letters db"
      using Cons.prems(2) by auto
    from Cons.IH [OF r(2,3)] r(4) True
    have "let lost = j_lost_worker_count j + 1 + int (length ts); db'' = deliveries c i ts db' in
      if lost < poison_pill_threshold c
      then dead_letters db'' = dead_letters db' \<and> (\<exists>r. get_job db'' i = Some r \<and> j_state r = RUNNING
        \<and> j_lost_worker_count r = lost)
      else (\<exists>x. dead_letters db'' = dead_letters db' @ [x] \<and> d_job_id x = i)
        \<and> (\<exists>r. get_job db'' i = Some r \<and> j_state r = DEAD_LETTER)" by simp
    then show ?thesis using r by (simp add: Let_def algebra_simps split: if_splits)
  next
    case False
    then have "poison_pill_threshold c \<le> j_lost_worker_count j + 1" by simp
    from begin_crawl_poison [OF Cons.prems(1,2) this, of t] obtain db' r x
      where r: "begin_crawl c t db i = Inr (Inl CrawlParked, db')" "get_job db' i = Some r"
        "j_state r = DEAD_LETTER" "dead_letters db' = dead_letters db @ [x]" "d_job_id x = i" by auto
    have "deliveries c i (t # ts) db = db'" using r by (simp add: deliveries_terminal)
    with r False show ?thesis by (auto simp: Let_def)
  qed
qed simp

text \<open>
  C11. Of a job that keeps losing its worker, the first poison_pill_threshold deliveries run
  and the next parks it: it is DEAD_LETTER with exactly one dead letter, however many
  deliveries follow.
\<close>

theorem poison_pill:
  assumes j: "get_job db i = Some j" "j_state j = PENDING" "j_lost_worker_count j = 0"
    and t: "0 < poison_pill_threshold c" and ts: "ts \<noteq> []"
  shows "\<exists>r. get_job (deliveries c i ts db) i = Some r
    \<and> (if int (length ts) \<le> poison_pill_threshold c
       then j_state r = RUNNING \<and> dead_letters (deliveries c i ts db) = dead_letters db
       else j_state r = DEAD_LETTER
         \<and> (\<exists>x. dead_letters (deliveries c i ts db) = dead_letters db @ [x] \<and> d_job_id x = i))"
proof -
  obtain t0 ts' where ts': "ts = t0 # ts'" using ts by (cases ts) auto
  have "j_state j = PENDING \<or> j_state j = PAUSED" using j(2) by simp
  from begin_crawl_first [OF j(1) this, of c t0] j(2,3) obtain plan db' r
    where r: "begin_crawl c t0 db i = Inr (plan, db')" "get_job db' i = Some r" "j_state r = RUNNING"
      "j_lost_worker_count r = 0" "dead_letters db' = dead_letters db" by auto
  from deliveries_running [OF r(2,3), of c ts'] r t show ?thesis
    by (auto simp: ts' Let_def split: if_splits)
qed

lemma crawl_resumed:
  assumes j: "get_job (w_db w) i = Some j" "j_state j = RUNNING"
    and few: "j_lost_worker_count j + 1 < poison_pill_threshold (cfg D)"
    and all: "pages_to_fetch (w_db w) i (j_max_pages j) = []"
  shows "\<exists>w1 r. crawl_job D now i w = (Inr CrawlResumed, w1) \<and> w_sent w1 = w_sent w @ [AssembleMsg i []]
    \<and> get_job (w_db w1) i = Some r \<and> j_state r = RUNNING \<and> j_target r = j_target j
    \<and> j_output_format r = j_output_format j \<and> job_pages (w_db w1) = job_pages (w_db w)
    \<and> w_objects w1 = w_objects w"
proof -
  from begin_crawl_again [OF j few, of now] obtain db' where
    b: "begin_crawl (cfg D) now (w_db w) i = Inr (Inr (plan_for (w_db w) j), db')"
      "get_job db' = (get_job (w_db w))(i \<mapsto> begun_row now j)" "job_pages db' = job_pages (w_db w)" by blast
  have "cp_pending (plan_for (w_db w) j) = []" using all get_job_id [OF j(1)] by (simp add: plan_for_def)
  with b show ?thesis by (simp add: crawl_job_def Let_def)
qed

text \<open>
  C19. A crawl message redelivered after every page is stored assembles an empty list of
  results: the job ends SUSPECT with an empty result although all its pages are recorded.
\<close>

theorem resume_loses_rows:
  assumes store: "object_store (storage D) objects"
    and put: "\<And>k d ct s. \<exists>s'. put_bytes (storage D) k d ct s = Inr (length d, s')"
    and j: "get_job (w_db w) i = Some j" "j_state j = RUNNING"
    and few: "j_lost_worker_count j + 1 < poison_pill_threshold (cfg D)"
    and all: "pages_to_fetch (w_db w) i (j_max_pages j) = []"
    and spec: "spec_of D (j_target j) = Inr spec"
  shows "\<exists>w1 w2 r. crawl_job D now i w = (Inr CrawlResumed, w1)
    \<and> w_sent w1 = w_sent w @ [AssembleMsg i []]
    \<and> assemble_job D undisturbed now' [] i w1
        = (Inr (FinalDone SUSPECT 0 (result_key_of i (j_output_format j))), w2)
    \<and> get_job (w_db w2) i = Some r \<and> j_state r = SUSPECT
    \<and> j_error r = Some ''possible selector drift: no pages fetched''
    \<and> objects (w_objects w2) (result_key_of i (j_output_format j)) =
        Some (if j_output_format j = ''csv'' then to_csv [] (columns spec) else to_json [])
    \<and> completed_pages (w_db w2) i = completed_pages (w_db w) i"
proof -
  from crawl_resumed [OF j few all, of now] obtain w1 r1 where w1: "crawl_job D now i w = (Inr CrawlResumed, w1)"
    "w_sent w1 = w_sent w @ [AssembleMsg i []]" "get_job (w_db w1) i = Some r1" "j_state r1 = RUNNING"
    "j_target r1 = j_target j" "j_output_format r1 = j_output_format j"
    "job_pages (w_db w1) = job_pages (w_db w)" by blast
  let ?key = "result_key_of i (j_output_format j)"
  obtain p where p: "p = \<lparr>pl_spec = spec, pl_format = j_output_format r1, pl_incremental = j_incremental r1,
      pl_callback = j_callback_url r1, pl_failed = j_pages_failed r1\<rparr>" by simp
  have plan: "finalise_plan D (w_db w1) i = Inr (Inr p)"
    using w1 spec by (auto simp: finalise_plan_go p)
  let ?v = "\<lparr>suspect = True, observed = 0, baseline = None, reason = ''no pages fetched''\<rparr>"
  have merge: "finalise_merge D now' (w_db w1) i p [] [] = Inr ([], ?v, w_db w1)"
    by (simp add: finalise_merge_def store_snapshot_def drift_check_def pages_fetched_def
        diff_rows_def diff_fields [OF refl])
  have dd: "kept_rows (dedupe [] spec) = []" by (simp add: dedupe_def)
  obtain s' where s': "put_bytes (storage D) ?key (payload_of p [])
      (if j_output_format j = ''csv'' then ''text/csv'' else ''application/json'') (w_objects w1)
      = Inr (length (payload_of p []), s')" using put by blast
  let ?st = "(SUSPECT, Some (''possible selector drift: '' @ ''no pages fetched''))"
  let ?r = "r1\<lparr>j_result_key := Some ?key, j_result_bytes := Some (int (length (payload_of p []))), j_rows := 0\<rparr>"
  let ?r' = "transition_cols now' SUSPECT (snd ?st) ?r"
  obtain db4 where db4: "db4 = flush_job now' r1 ?r' (w_db w1)" by simp
  have wr: "finalise_write now' (w_db w1) i ?key (length (payload_of p [])) 0 ?st = Inr (Some db4)"
    using w1(3,4) by (simp add: finalise_write_def transition_def assert_transition_def Let_def db4)
  let ?w2 = "notify p i SUSPECT 0 (w1\<lparr>w_objects := s', w_db := db4\<rparr>)"
  have fin: "finalise_job D undisturbed now' i [] w1 = (Inr (FinalDone SUSPECT 0 ?key), ?w2)"
    using plan merge dd s' wr w1(6)
    by (simp add: finalise_job_def load_rows_def p final_state_def Let_def)
  have "j_id ?r' = i" using get_job_id [OF w1(3)] by simp
  from flush_own_state [OF w1(3) this, of now'] obtain r where
    r: "get_job db4 i = Some r" "j_state r = SUSPECT"
      "j_error r = Some ''possible selector drift: no pages fetched''"
    by (auto simp: transition_cols_def db4)
  have obj: "objects s' ?key = Some (payload_of p [])"
    using object_store.put_bytes_objects(2) [OF store s'] by simp
  have body: "payload_of p [] = (if j_output_format j = ''csv'' then to_csv [] (columns spec) else to_json [])"
    by (simp add: payload_of_def p w1(6))
  have w2: "w_db ?w2 = db4" "w_objects ?w2 = s'"
    by (simp_all add: notify_def split: option.splits)
  have "completed_pages db4 i = completed_pages (w_db w) i"
    by (simp add: completed_pages_def frame w1(7) db4)
  then show ?thesis
    using w1(1,2) fin [folded assemble_job_def] r obj [unfolded body] w2 by metis
qed


lemma record_failed_page_recorded:
  assumes "record_failed_page now db i page url n ty e tb = Inr db'"
  shows "failure_recorded db' i page"
proof (cases "failure_recorded db i page")
  case True
  then obtain f where f: "f \<in> set (failed_pages db)" "f_job_id f = i" "f_page f = page"
    by (auto simp: failure_recorded_def)
  let ?g = "\<lambda>f. if f_job_id f = i \<and> f_page f = page
    then f\<lparr>f_attempts := n, f_error := take 4000 e, f_last_attempt_at := now\<rparr> else f"
  have "failed_pages db' = map ?g (failed_pages db)"
    using assms True by (auto simp: record_failed_page_def frame split: if_splits)
  then have "?g f \<in> set (failed_pages db')" using f(1) by (simp del: if_image_distrib)
  then show ?thesis unfolding failure_recorded_def using f(2,3) by (intro bexI [of _ "?g f"]) simp_all
next
  case False
  with assms show ?thesis
    by (auto simp: record_failed_page_def failure_recorded_def frame split: if_splits)
qed

lemma record_failure_row_recorded:
  "record_failure_row now i page url e n db = Inr db' \<Longrightarrow> failure_recorded db' i page"
  unfolding record_failure_row_def by (rule record_failed_page_recorded)

text \<open>
  C12. A page task that returns has either skipped the page and changed nothing, or left a
  failure record for it, or stored its rows under the key of the page and recorded it; the row
  count in its result is the number of rows stored.
\<close>

theorem page_task_result:
  assumes store: "object_store (storage D) objects"
    and run: "fetch_page D W R S env fuel now clock retries i page base w = Some (Inr res, w')"
  shows "(pr_skipped res \<and> pr_key res = None \<and> w' = w)
    \<or> (pr_failed res \<and> pr_key res = None \<and> failure_recorded (w_db w') i page)
    \<or> (\<exists>rows. \<not> pr_failed res \<and> \<not> pr_skipped res \<and> pr_key res = Some (page_key i page)
        \<and> page_recorded (w_db w') i page \<and> objects (w_objects w') (page_key i page) = Some (page_body_text rows)
        \<and> pr_rows res = int (length rows))"
proof -
  note failed = record_failure_row_recorded
  show ?thesis
  proof (cases "w' = w \<and> res = skipped_result page")
    case True
    then show ?thesis by (simp add: skipped_result_def)
  next
    case False
    then obtain j spec out r' gs where "get_job (w_db w) i = Some j" "spec_of D (j_target j) = Inr spec"
      "fetch_one (cfg D) W R S fuel clock spec page base (w_redis w) = Some (out, r', gs)"
      and res: "(case out of
          Inr x \<Rightarrow> store_page D now i page x (env (w\<lparr>w_redis := r'\<rparr>))
        | Inl e \<Rightarrow> fail_page (cfg D) now i page (failure_url spec base) e retries (env (w\<lparr>w_redis := r'\<rparr>)))
        = (Inr res, w')"
      using run by (auto simp: fetch_page_def Let_def split: option.splits sum.splits if_splits)
    show ?thesis
    proof (cases out)
      case (Inl e)
      with res have "res = failed_result page" "failure_recorded (w_db w') i page"
        by (auto simp: fail_page_def intro: failed split: failure_handling.splits sum.splits)
      then show ?thesis by (simp add: failed_result_def)
    next
      case (Inr x)
      let ?w = "env (w\<lparr>w_redis := r'\<rparr>)"
      from Inr res obtain n s' b db' where
        put: "put_bytes (storage D) (page_key i page) (page_body_text (ft_rows x)) ''application/json''
          (w_objects ?w) = Inr (n, s')"
        and rec: "record_page now (w_db ?w) i page (ft_url x) PagePARSED (int (length (ft_rows x))) None
          = Inr (b, db')"
        and out: "res = done_result page (int (length (ft_rows x))) (page_key i page) (\<not> b)"
          "w' = ?w\<lparr>w_objects := s', w_db := db'\<rparr>"
        by (auto simp: store_page_def Let_def split: sum.splits)
      have "page_recorded db' i page" using record_page_recorded [OF rec] by simp
      moreover have "objects s' (page_key i page) = Some (page_body_text (ft_rows x))"
        using object_store.put_bytes_objects(2) [OF store put] by simp
      ultimately show ?thesis by (intro disjI2 exI [of _ "ft_rows x"]) (simp add: out done_result_def)
    qed
  qed
qed

text \<open>
  The exceptions of a fetch that leave no failure record whatever the number of retries are
  exactly those other than permanent, transient, circuit-open and soft-time-limit ones: a URL
  the guard refuses, a rate-limit timeout and unsupported pagination among them.
\<close>

theorem escaping_failures:
  "(\<forall>n. handle_failure c n e = OnlyRaise) \<longleftrightarrow>
     (case e of PermanentFetchError _ \<Rightarrow> False | SoftTimeLimitExceeded \<Rightarrow> False
        | TransientFetchError _ \<Rightarrow> False | CircuitOpen _ _ \<Rightarrow> False | _ \<Rightarrow> True)"
proof -
  have "\<exists>n. max_job_retries c \<le> int n" by (rule exI [of _ "nat (max_job_retries c)"]) simp
  then show ?thesis by (cases e) (auto simp: handle_failure_def)
qed

theorem poison_pill_witness:
  "\<exists>r. get_job (deliveries sample_settings ''j1'' [1, 2, 3, 4] sample_db) ''j1'' = Some r
    \<and> j_state r = DEAD_LETTER"
proof -
  have "j_state (new_job 0 ''j1'' sample_fields) = PENDING"
    "j_lost_worker_count (new_job 0 ''j1'' sample_fields) = 0"
    by (simp_all add: new_job_def sample_fields_def)
  from poison_pill [OF sample_job this, of sample_settings "[1, 2, 3, 4]"] show ?thesis by auto
qed

theorem resume_loses_rows_witness:
  "\<exists>w1 w2 r. crawl_job sample_deployment 7 ''j1'' (sample_world (running_db [1, 2, 3])) = (Inr CrawlResumed, w1)
    \<and> fst (assemble_job sample_deployment undisturbed 8 [] ''j1'' w1)
        = Inr (FinalDone SUSPECT 0 ''jobs/j1/result.csv'')
    \<and> snd (assemble_job sample_deployment undisturbed 8 [] ''j1'' w1) = w2
    \<and> get_job (w_db w2) ''j1'' = Some r \<and> j_state r = SUSPECT \<and> completed_pages (w_db w2) ''j1'' = {1, 2, 3}"
proof -
  let ?w = "sample_world (running_db [1, 2, 3])"
  have store: "object_store (storage sample_deployment) (\<lambda>s. map_of (ms_objects s))"
    using mem_objects.object_store_axioms by simp
  have put: "\<exists>s'. put_bytes (storage sample_deployment) k d ct s = Inr (length d, s')" for k d ct s by simp
  have few: "j_lost_worker_count running_job + 1 < poison_pill_threshold (cfg sample_deployment)" by simp
  have "[1..3::int] = [1, 2, 3]" by (simp add: upto.simps)
  then have all: "pages_to_fetch (w_db ?w) ''j1'' (j_max_pages running_job) = []"
    by (simp add: pages_to_fetch_def)
  have key: "result_key_of ''j1'' ''csv'' = ''jobs/j1/result.csv''" by (simp add: result_key_of_def)
  from resume_loses_rows [OF store put sample_running _ few all running_spec, of 7 8] key show ?thesis by auto
qed

theorem page_task_result_witness:
  "\<exists>res w'. fetch_page sample_deployment sample_web mem_redis alone (\<lambda>w. w) 2 5 0 0 ''j1'' 3 None
      (sample_world (running_db [1])) = Some (Inr res, w')
    \<and> pr_key res = Some (page_key ''j1'' 3) \<and> page_recorded (w_db w') ''j1'' 3 \<and> pr_rows res = 2"
proof -
  have store: "object_store (storage sample_deployment) (\<lambda>s. map_of (ms_objects s))"
    using mem_objects.object_store_axioms by simp
  obtain x r' where x: "fetch_one sample_settings sample_web mem_redis alone 2 0 sample_spec 3 None mem_empty
      = Some (Inr x, r', guard_order True)" "ft_rows x = sample_rows_fetched"
    using sample_fetch by blast
  have new: "\<not> page_recorded (running_db [1]) ''j1'' 3"
    by (simp add: page_recorded_def stored_page_def)
  have "\<exists>db'. record_page 5 (running_db [1]) ''j1'' 3 (ft_url x) PagePARSED 2 None = Inr (True, db')"
    using new by (simp add: record_page_True)
  then obtain res w' where run: "fetch_page sample_deployment sample_web mem_redis alone (\<lambda>w. w) 2 5 0 0 ''j1'' 3 None
      (sample_world (running_db [1])) = Some (Inr res, w')"
    and res: "pr_rows res = 2" "\<not> pr_skipped res" "\<not> pr_failed res"
    using x by (auto simp: fetch_page_def store_page_def sample_rows_fetched_def Let_def done_result_def)
  from page_task_result [OF store run] run res show ?thesis by auto
qed

theorem stored_page_reloads_witness:
  "\<exists>res w'. store_page sample_deployment 5 ''j1'' 3 \<lparr>ft_page = 3, ft_url = ''u'', ft_rows = sample_rows_fetched,
       ft_status = None, ft_bytes_in = 0, ft_allowed = 0, ft_blocked = 0, ft_waited = 0\<rparr>
       (sample_world (running_db [1])) = (Inr res, w')
    \<and> page_rows sample_deployment (w_objects w') res = Inr sample_rows_fetched \<and> \<not> pr_duplicate res"
proof -
  have store: "object_store (storage sample_deployment) (\<lambda>s. map_of (ms_objects s))"
    using mem_objects.object_store_axioms by simp
  let ?x = "\<lparr>ft_page = 3, ft_url = ''u'', ft_rows = sample_rows_fetched,
       ft_status = None, ft_bytes_in = 0, ft_allowed = 0, ft_blocked = 0, ft_waited = 0\<rparr>"
  have new: "\<not> page_recorded (running_db [1]) ''j1'' 3"
    by (simp add: page_recorded_def stored_page_def)
  have "\<exists>db'. record_page 5 (running_db [1]) ''j1'' 3 ''u'' PagePARSED 2 None = Inr (True, db')"
    using new by (simp add: record_page_True)
  then obtain res w' where run: "store_page sample_deployment 5 ''j1'' 3 ?x (sample_world (running_db [1]))
      = (Inr res, w')"
    by (auto simp: store_page_def sample_rows_fetched_def Let_def)
  have "\<forall>r \<in> set (ft_rows ?x). row_ok r" unfolding row_ok_def sample_rows_fetched_def by simp
  from stored_page_reloads [OF store run this] run new show ?thesis by auto
qed

end
