(* ===== verification/Api.thy ===== *)
theory Api
  imports Crawl
begin

text \<open>
  The control plane: authentication (\<^verbatim>\<open>api/middleware/auth.py\<close>), the API rate limit, back
  pressure, and the routes for jobs, results and health.  A request handler raises
  \<open>HTTPException\<close> for the answers it means to give; any other exception becomes a 500.  The
  digest is a parameter, as are the depth of the broker's queues and name resolution.
\<close>

record principal =
  pc_key_id :: string
  pc_scope :: scope

fun scope_order :: "scope \<Rightarrow> nat" where
  "scope_order Read = 1"
| "scope_order Write = 2"
| "scope_order Admin = 3"

definition allows :: "principal \<Rightarrow> scope \<Rightarrow> bool" where
  "allows p required \<longleftrightarrow> scope_order required \<le> scope_order (pc_scope p)"

text \<open>The order of the scopes as an order on them.\<close>

instantiation scope :: linorder
begin

definition less_eq_scope :: "scope \<Rightarrow> scope \<Rightarrow> bool" where
  "less_eq_scope a b \<longleftrightarrow> scope_order a \<le> scope_order b"

definition less_scope :: "scope \<Rightarrow> scope \<Rightarrow> bool" where
  "less_scope a b \<longleftrightarrow> scope_order a < scope_order b"

instance
proof
  fix a b :: scope
  show "a \<le> b \<Longrightarrow> b \<le> a \<Longrightarrow> a = b"
    by (cases a; cases b) (simp_all add: less_eq_scope_def)
qed (auto simp: less_eq_scope_def less_scope_def)

end

lemma allows_iff: "allows p required \<longleftrightarrow> required \<le> pc_scope p"
  by (simp add: allows_def less_eq_scope_def)

text \<open>What a key may do, every key of a higher scope may do.\<close>

lemma allows_upward: "allows p required \<Longrightarrow> pc_scope p \<le> pc_scope p' \<Longrightarrow> needed \<le> required \<Longrightarrow> allows p' needed"
  unfolding allows_iff by (rule order_trans, assumption, rule order_trans)

definition key_id :: "(string \<Rightarrow> string) \<Rightarrow> string \<Rightarrow> string" where
  "key_id sha raw = take 16 (sha raw)"

text \<open>\<open>hmac.compare_digest\<close> of two strings refuses text outside ASCII.\<close>

definition compare_digest :: "string \<Rightarrow> string \<Rightarrow> exn + bool" where
  "compare_digest a b =
     (if list_ex (\<lambda>c. 128 \<le> ord c) (a @ b)
      then Inl (TypeError ''comparing strings with non-ASCII characters is not supported'')
      else Inr (a = b))"

fun authenticate_loop ::
  "(string \<Rightarrow> string) \<Rightarrow> string \<Rightarrow> (string, scope) dict \<Rightarrow> exn + principal" where
  "authenticate_loop sha presented [] = Inl (HTTPException 401 ''invalid API key'')"
| "authenticate_loop sha presented ((candidate, sc) # rest) =
     bindE (compare_digest presented candidate) (\<lambda>same.
       if same then Inr \<lparr>pc_key_id = key_id sha candidate, pc_scope = sc\<rparr>
       else authenticate_loop sha presented rest)"

definition authenticate :: "(string \<Rightarrow> string) \<Rightarrow> settings \<Rightarrow> string \<Rightarrow> exn + principal" where
  "authenticate sha c presented = bindE (api_key_scopes c) (authenticate_loop sha presented)"

definition current_principal :: "(string \<Rightarrow> string) \<Rightarrow> settings \<Rightarrow> string \<Rightarrow> exn + principal" where
  "current_principal sha c header =
     (if header = [] then Inl (HTTPException 401 ''missing X-API-Key header'')
      else authenticate sha c header)"

definition require_scope :: "scope \<Rightarrow> principal \<Rightarrow> exn + principal" where
  "require_scope required p =
     (if \<not> allows p required
      then Inl (HTTPException 403 (''scope '' @ scope_str required @ '' required'')) else Inr p)"

subsection \<open>Limits\<close>

definition api_bucket :: "string \<Rightarrow> string" where
  "api_bucket kid = ''api:'' @ kid"

definition enforce_api_rate_limit ::
  "settings \<Rightarrow> 'r redis \<Rightarrow> rat \<Rightarrow> principal \<Rightarrow> 'r \<Rightarrow> (exn + principal) \<times> 'r" where
  "enforce_api_rate_limit c R now p r =
     (let limit = of_int (api_rate_limit_per_minute c);
          (d, r') = consume R limiter_prefix (api_bucket (pc_key_id p)) (limit / 60) (Some limit) 1 now r
      in (if allowed d then Inr p else Inl (HTTPException 429 ''API rate limit exceeded''), r'))"

definition retry_after_header :: "decision \<Rightarrow> int" where
  "retry_after_header d = max 1 (\<lfloor>retry_after d\<rfloor> + 1)"

definition assert_capacity :: "settings \<Rightarrow> (string \<Rightarrow> int) \<Rightarrow> string \<Rightarrow> exn + int" where
  "assert_capacity c depth queue =
     (let limit = queue_depth_limit c; d = depth queue in
      if limit \<le> d
      then Inl (HTTPException 429 (''queue '' @ queue @ '' is at capacity ('' @ dec_int d @ ''/''
             @ dec_int limit @ '')''))
      else Inr d)"

subsection \<open>Jobs\<close>

record job_accepted =
  ja_id :: uuid
  ja_state :: job_state
  ja_replay :: bool

record job_read =
  jr_id :: uuid
  jr_state :: job_state
  jr_target :: string
  jr_fetcher :: string
  jr_start_url :: string
  jr_max_pages :: int
  jr_output_format :: string
  jr_incremental :: bool
  jr_pages_total :: "int option"
  jr_pages_done :: int
  jr_pages_failed :: int
  jr_rows :: int
  jr_attempts :: int
  jr_error :: "string option"
  jr_result_key :: "string option"
  jr_created_at :: datetime
  jr_updated_at :: datetime
  jr_started_at :: "datetime option"
  jr_finished_at :: "datetime option"

definition to_read :: "job \<Rightarrow> job_read" where
  "to_read j =
     \<lparr>jr_id = j_id j, jr_state = j_state j, jr_target = j_target j, jr_fetcher = j_fetcher j,
      jr_start_url = j_start_url j, jr_max_pages = j_max_pages j,
      jr_output_format = j_output_format j, jr_incremental = j_incremental j,
      jr_pages_total = j_pages_total j, jr_pages_done = j_pages_done j,
      jr_pages_failed = j_pages_failed j, jr_rows = j_rows j, jr_attempts = j_attempts j,
      jr_error = j_error j, jr_result_key = j_result_key j, jr_created_at = j_created_at j,
      jr_updated_at = j_updated_at j, jr_started_at = j_started_at j,
      jr_finished_at = j_finished_at j\<rparr>"

text \<open>\<open>payload.model_dump(mode="json")\<close>.\<close>

definition dump_payload :: "job_create \<Rightarrow> (string, json) dict" where
  "dump_payload c =
     [(''target'', JStr (c_target c)),
      (''fetcher'', case c_fetcher c of None \<Rightarrow> JNull | Some f \<Rightarrow> JStr (fetcher_str f)),
      (''start_url'', json_opt (c_start_url c)),
      (''max_pages'', JInt (c_max_pages c)),
      (''output_format'', JStr (format_str (c_output_format c))),
      (''incremental'', JBool (c_incremental c)),
      (''callback_url'', json_opt (c_callback_url c)),
      (''params'', JObj (c_params c))]"

definition queue_for :: "string \<Rightarrow> string" where
  "queue_for fetcher = (if fetcher = ''browser'' then ''browser'' else ''default'')"

text \<open>The handler up to the answer of a replay, or the row to create.\<close>

definition replay_answer :: "(string \<Rightarrow> string) \<Rightarrow> string \<Rightarrow> job_create \<Rightarrow> job \<Rightarrow> exn + job_accepted" where
  "replay_answer sha key payload existing =
     (case map_of (j_params existing) ''_fingerprint'' of
        Some stored \<Rightarrow>
          if truthy stored \<and> stored \<noteq> JStr (fingerprint sha (dump_payload payload))
          then Inl (HTTPException 409 (''Idempotency-Key '' @ key @ '' was used with a different body''))
          else Inr \<lparr>ja_id = j_id existing, ja_state = j_state existing, ja_replay = True\<rparr>
      | None \<Rightarrow> Inr \<lparr>ja_id = j_id existing, ja_state = j_state existing, ja_replay = True\<rparr>)"

definition fields_of ::
  "(string \<Rightarrow> string) \<Rightarrow> job_create \<Rightarrow> string \<Rightarrow> string \<Rightarrow> principal \<Rightarrow> string option \<Rightarrow> job_fields" where
  "fields_of sha payload fetcher start_url p key =
     \<lparr>n_state = PENDING, n_target = c_target payload, n_fetcher = fetcher,
      n_start_url = start_url, n_max_pages = c_max_pages payload,
      n_output_format = format_str (c_output_format payload),
      n_incremental = c_incremental payload,
      n_params = (case key of
          Some k \<Rightarrow> if k \<noteq> []
                    then dict_put ''_fingerprint'' (JStr (fingerprint sha (dump_payload payload)))
                           (c_params payload)
                    else c_params payload
        | None \<Rightarrow> c_params payload),
      n_api_key_id = pc_key_id p, n_idempotency_key = key,
      n_callback_url = c_callback_url payload\<rparr>"

definition http_of_target :: "string \<Rightarrow> exn + 'a \<Rightarrow> exn + 'a" where
  "http_of_target name r =
     (case r of
        Inl (UnknownTarget _) \<Rightarrow> Inl (HTTPException 404 (''unknown target: '' @ name))
      | _ \<Rightarrow> r)"

definition http_of_url :: "exn + 'a \<Rightarrow> exn + 'a" where
  "http_of_url r = (case r of Inl (BlockedURL m) \<Rightarrow> Inl (HTTPException 400 m) | _ \<Rightarrow> r)"

definition submit_check ::
  "'s deployment \<Rightarrow> resolver \<Rightarrow> (string \<Rightarrow> int) \<Rightarrow> principal \<Rightarrow> string option \<Rightarrow> job_create \<Rightarrow> db
    \<Rightarrow> exn + (job_accepted + job_fields)" where
  "submit_check D dns depth p key payload db =
     bindE (http_of_target (c_target payload) (spec_of D (c_target payload))) (\<lambda>spec.
       let fetcher = fetcher_str (case c_fetcher payload of Some f \<Rightarrow> f | None \<Rightarrow> t_fetcher spec);
           start_url = (case c_start_url payload of Some u \<Rightarrow> u | None \<Rightarrow> t_start_url spec);
           fresh = Inr (Inr (fields_of (sha256 D) payload fetcher start_url p key))
       in bindE (http_of_url (assert_allowed dns start_url (allowed_target_hosts (cfg D)) True)) (\<lambda>_.
          bindE (assert_capacity (cfg D) depth (queue_for fetcher)) (\<lambda>_.
            case key of
              None \<Rightarrow> fresh
            | Some k \<Rightarrow>
                if k = [] then fresh
                else bindE (find_by_idempotency_key db (pc_key_id p) k) (\<lambda>found.
                  case found of
                    None \<Rightarrow> fresh
                  | Some existing \<Rightarrow>
                      bindE (replay_answer (sha256 D) k payload existing) (\<lambda>a. Inr (Inl a))))))"

text \<open>
  The handler: the row is flushed but not committed when the message goes out; the commit is
  the last thing that happens.  \<open>env\<close> is what others do in between, for whom the row does not
  exist yet.
\<close>

definition submit_job ::
  "'s deployment \<Rightarrow> resolver \<Rightarrow> (string \<Rightarrow> int) \<Rightarrow> (('s, 'r) world \<Rightarrow> ('s, 'r) world)
    \<Rightarrow> datetime \<Rightarrow> uuid \<Rightarrow> principal \<Rightarrow> string option \<Rightarrow> job_create \<Rightarrow> ('s, 'r) world
    \<Rightarrow> (exn + job_accepted) \<times> ('s, 'r) world" where
  "submit_job D dns depth env now i p key payload w =
     (case submit_check D dns depth p key payload (w_db w) of
        Inl e \<Rightarrow> (Inl e, w)
      | Inr (Inl replay) \<Rightarrow> (Inr replay, w)
      | Inr (Inr n) \<Rightarrow>
          (case create_job now i n (w_db w) of
             Inl e \<Rightarrow> (Inl e, w)
           | Inr (j, _) \<Rightarrow>
               let w1 = env (send (CrawlMsg i (queue_for (n_fetcher n))) w);
                   row = j\<lparr>j_celery_task_id := Some i\<rparr>
               in (Inr \<lparr>ja_id = i, ja_state = PENDING, ja_replay = False\<rparr>,
                   w1\<lparr>w_db := (w_db w1)\<lparr>jobs := jobs (w_db w1) @ [row]\<rparr>\<rparr>)))"

text \<open>The request as a whole: key, rate limit, scope, body, handler.\<close>

definition post_jobs ::
  "'s deployment \<Rightarrow> 'r redis \<Rightarrow> resolver \<Rightarrow> (string \<Rightarrow> int) \<Rightarrow> (('s, 'r) world \<Rightarrow> ('s, 'r) world)
    \<Rightarrow> datetime \<Rightarrow> rat \<Rightarrow> uuid \<Rightarrow> string \<Rightarrow> string option \<Rightarrow> job_create \<Rightarrow> ('s, 'r) world
    \<Rightarrow> (exn + job_accepted) \<times> ('s, 'r) world" where
  "post_jobs D R dns depth env now clock i header key payload w =
     (case current_principal (sha256 D) (cfg D) header of
        Inl e \<Rightarrow> (Inl e, w)
      | Inr p \<Rightarrow>
          (case enforce_api_rate_limit (cfg D) R clock p (w_redis w) of
             (Inl e, r) \<Rightarrow> (Inl e, w\<lparr>w_redis := r\<rparr>)
           | (Inr _, r) \<Rightarrow>
               let w1 = w\<lparr>w_redis := r\<rparr> in
               (case require_scope Write p of
                  Inl e \<Rightarrow> (Inl e, w1)
                | Inr _ \<Rightarrow>
                    (case validate_job payload of
                       Inl e \<Rightarrow> (Inl (HTTPException 422 (exn_str e)), w1)
                     | Inr _ \<Rightarrow> submit_job D dns depth env now i p key payload w1))))"

text \<open>A caller sees its own jobs; an administrator sees all.\<close>

definition visible :: "principal \<Rightarrow> job \<Rightarrow> bool" where
  "visible p j \<longleftrightarrow> pc_scope p = Admin \<or> j_api_key_id j = pc_key_id p"

definition find_visible :: "principal \<Rightarrow> uuid \<Rightarrow> db \<Rightarrow> exn + job" where
  "find_visible p i db =
     (case get_job db i of
        None \<Rightarrow> Inl (HTTPException 404 ''job not found'')
      | Some j \<Rightarrow> if visible p j then Inr j else Inl (HTTPException 404 ''job not found''))"

definition read_job :: "principal \<Rightarrow> uuid \<Rightarrow> db \<Rightarrow> exn + job_read" where
  "read_job p i db =
     bindE (require_scope Read p) (\<lambda>_. bindE (find_visible p i db) (\<lambda>j. Inr (to_read j)))"

definition cancel_job ::
  "datetime \<Rightarrow> principal \<Rightarrow> uuid \<Rightarrow> ('s, 'r) world \<Rightarrow> (exn + job_read) \<times> ('s, 'r) world" where
  "cancel_job now p i w =
     (case bindE (require_scope Write p) (\<lambda>_. find_visible p i (w_db w)) of
        Inl e \<Rightarrow> (Inl e, w)
      | Inr j \<Rightarrow>
          if terminal (j_state j)
          then (Inl (HTTPException 409 (''job already '' @ state_str (j_state j))), w)
          else
            let w1 = send (RevokeMsg (case j_celery_task_id j of
                       Some t \<Rightarrow> if t \<noteq> [] then t else j_id j | None \<Rightarrow> j_id j)) w
            in (case transition now (w_db w1) j j CANCELLED (Some ''cancelled by caller'') of
                  Inl e \<Rightarrow> (Inl e, w1)
                | Inr (j', db') \<Rightarrow> (Inr (to_read j'), w1\<lparr>w_db := db'\<rparr>)))"

record failed_page_out =
  fo_page :: int
  fo_url :: string
  fo_attempts :: int
  fo_error :: string
  fo_last_attempt_at :: datetime

definition list_failures :: "principal \<Rightarrow> uuid \<Rightarrow> db \<Rightarrow> exn + failed_page_out list" where
  "list_failures p i db =
     bindE (require_scope Read p) (\<lambda>_. bindE (find_visible p i db) (\<lambda>_.
       Inr (map (\<lambda>f. \<lparr>fo_page = f_page f, fo_url = f_url f, fo_attempts = f_attempts f,
                      fo_error = f_error f, fo_last_attempt_at = f_last_attempt_at f\<rparr>)
              (sort_key f_page (filter (\<lambda>f. f_job_id f = i) (failed_pages db))))))"

definition retry_fields :: "job \<Rightarrow> job_fields" where
  "retry_fields old =
     \<lparr>n_state = PENDING, n_target = j_target old, n_fetcher = j_fetcher old,
      n_start_url = j_start_url old, n_max_pages = j_max_pages old,
      n_output_format = j_output_format old, n_incremental = j_incremental old,
      n_params = dict_put ''_retry_of'' (JStr (j_id old)) (j_params old),
      n_api_key_id = j_api_key_id old, n_idempotency_key = None,
      n_callback_url = j_callback_url old\<rparr>"

definition retry_job ::
  "(('s, 'r) world \<Rightarrow> ('s, 'r) world) \<Rightarrow> datetime \<Rightarrow> uuid \<Rightarrow> principal \<Rightarrow> uuid \<Rightarrow> ('s, 'r) world
    \<Rightarrow> (exn + job_accepted) \<times> ('s, 'r) world" where
  "retry_job env now new_id p i w =
     (case bindE (require_scope Write p) (\<lambda>_. find_visible p i (w_db w)) of
        Inl e \<Rightarrow> (Inl e, w)
      | Inr old \<Rightarrow>
          if \<not> terminal (j_state old)
          then (Inl (HTTPException 409 (''job is still '' @ state_str (j_state old))), w)
          else
            (case create_job now new_id (retry_fields old) (w_db w) of
               Inl e \<Rightarrow> (Inl e, w)
             | Inr (j, _) \<Rightarrow>
                 let w1 = env (send (CrawlMsg new_id (queue_for (j_fetcher old))) w);
                     row = j\<lparr>j_celery_task_id := Some new_id\<rparr>
                 in (Inr \<lparr>ja_id = new_id, ja_state = PENDING, ja_replay = False\<rparr>,
                     w1\<lparr>w_db := (w_db w1)\<lparr>jobs := jobs (w_db w1) @ [row]\<rparr>\<rparr>)))"

subsection \<open>Results\<close>

record result_link =
  rl_url :: string
  rl_expires_in :: int
  rl_content_type :: string
  rl_rows :: int

definition content_type_of :: "string \<Rightarrow> exn + string" where
  "content_type_of fmt =
     (if fmt = ''csv'' then Inr ''text/csv''
      else if fmt = ''json'' then Inr ''application/json'' else Inl (KeyError fmt))"

definition get_result :: "'s deployment \<Rightarrow> principal \<Rightarrow> uuid \<Rightarrow> db \<Rightarrow> exn + result_link" where
  "get_result D p i db =
     bindE (require_scope Read p) (\<lambda>_. bindE (find_visible p i db) (\<lambda>j.
       case j_result_key j of
         None \<Rightarrow> Inl (HTTPException 409 (''no result yet; job is '' @ state_str (j_state j)))
       | Some key \<Rightarrow>
           let ttl = s3_presign_ttl_seconds (cfg D);
               url = presign (storage D) ttl key (Some ttl)
           in bindE (content_type_of (j_output_format j)) (\<lambda>ct.
                Inr \<lparr>rl_url = url, rl_expires_in = ttl, rl_content_type = ct, rl_rows = j_rows j\<rparr>)))"

subsection \<open>Callbacks\<close>

definition callback_style :: style where
  "callback_style = \<lparr>ascii = True, item_sep = '', '', key_sep = '': ''\<rparr>"

definition callback_body :: "uuid \<Rightarrow> string \<Rightarrow> int \<Rightarrow> string" where
  "callback_body i st n =
     dumps callback_style (JObj [(''job_id'', JStr i), (''state'', JStr st), (''rows'', JInt n)])"

definition sign :: "(string \<Rightarrow> string \<Rightarrow> string) \<Rightarrow> string \<Rightarrow> string \<Rightarrow> string \<Rightarrow> string" where
  "sign hmac secret timestamp body = hmac secret (timestamp @ ''.'' @ body)"

definition callback_headers ::
  "(string \<Rightarrow> string \<Rightarrow> string) \<Rightarrow> settings \<Rightarrow> int \<Rightarrow> string \<Rightarrow> (string, string) dict" where
  "callback_headers hmac c time body =
     [(''Content-Type'', ''application/json''),
      (''X-Scrapequeue-Timestamp'', dec_int time),
      (''X-Scrapequeue-Signature'', sign hmac (webhook_secret c) (dec_int time) body)]"

text \<open>One delivery; \<open>post\<close> is the HTTP client.  \<open>raise_for_status\<close> passes 2xx only.\<close>

definition deliver_callback ::
  "(string \<Rightarrow> string \<Rightarrow> string) \<Rightarrow> settings \<Rightarrow> (string \<Rightarrow> string \<Rightarrow> (string, string) dict \<Rightarrow> exn + int)
    \<Rightarrow> int \<Rightarrow> uuid \<Rightarrow> string \<Rightarrow> string \<Rightarrow> int \<Rightarrow> exn + int" where
  "deliver_callback hmac c post time i url st n =
     (let body = callback_body i st n in
      bindE (post url body (callback_headers hmac c time body)) (\<lambda>code.
        if 200 \<le> code \<and> code \<le> 299 then Inr code
        else Inl (OtherError ''HTTPStatusError'' (dec_int code))))"

subsection \<open>Health\<close>

text \<open>The checks of the database, of Redis and of the workers, each an exception or its value.\<close>

definition check_text :: "exn + 'a \<Rightarrow> string" where
  "check_text r = (case r of Inr _ \<Rightarrow> ''ok'' | Inl e \<Rightarrow> ''error: '' @ exn_name e)"

definition readyz :: "exn + unit \<Rightarrow> exn + unit \<Rightarrow> exn + string list list \<Rightarrow> int \<times> (string, json) dict" where
  "readyz database redis pong =
     (let workers = (case pong of Inr replies \<Rightarrow> sort (concat replies) | Inl _ \<Rightarrow> []);
          ok = (is_Inr database \<and> is_Inr redis \<and> is_Inr pong \<and> workers \<noteq> []);
          checks = [(''database'', JStr (check_text database)), (''redis'', JStr (check_text redis))]
            @ (case pong of
                 Inr _ \<Rightarrow> (''workers'', JArr (map JStr workers))
                   # (if workers = [] then [(''workers_note'', JStr ''no worker responded to ping'')]
                      else [])
               | Inl e \<Rightarrow> [(''workers'', JStr (check_text pong))])
      in (if ok then 200 else 503,
          [(''status'', JStr (if ok then ''ok'' else ''degraded'')), (''checks'', JObj checks)]))"

definition healthz :: "(string, string) dict" where
  "healthz = [(''status'', ''ok'')]"


lemma cancel_job_own:
  assumes j: "get_job (w_db w) i = Some j" "\<not> terminal (j_state j)" and p: "visible p j" "pc_scope p \<noteq> Read"
  shows "\<exists>w' r out. cancel_job now p i w = (Inr out, w') \<and> jr_state out = CANCELLED
    \<and> get_job (w_db w') i = Some r \<and> j_state r = CANCELLED \<and> j_finished_at r = Some now
    \<and> j_api_key_id r = j_api_key_id j \<and> w_sent w' = w_sent w @ [RevokeMsg (case j_celery_task_id j of
                       Some t \<Rightarrow> if t \<noteq> [] then t else j_id j | None \<Rightarrow> j_id j)]"
proof -
  have w: "require_scope Write p = Inr p" using p(2) by (cases "pc_scope p") (auto simp: require_scope_def allows_def)
  have can: "can_transition (j_state j) CANCELLED" using j(2) by (cases "j_state j") auto
  let ?j' = "transition_cols now CANCELLED (Some ''cancelled by caller'') j"
  have "?j' \<noteq> j"
  proof
    assume "?j' = j" then have "j_state ?j' = j_state j" by simp
    then show False using j(2) by (metis transition_cols_sel(2) terminal_simps(8))
  qed
  then have "\<exists>r. get_job (flush_job now j ?j' (w_db w)) i = Some r \<and> j_state r = CANCELLED
      \<and> j_finished_at r = Some now \<and> j_api_key_id r = j_api_key_id j"
    using j(1) get_job_id [OF j(1)] by (simp add: get_job_flush flush_cols_sel transition_cols_def)
  with j p w can show ?thesis
    by (simp add: cancel_job_def find_visible_def Let_def transition_def assert_transition_def to_read_def)
qed

text \<open>
  C32. Cancelling a live job makes it CANCELLED with a finish time, and every later delivery
  stops there: the crawl task reports it, page tasks skip, the assembly does nothing, a second
  cancel is a 409.
\<close>

theorem cancel_stops_job:
  assumes "get_job (w_db w) i = Some j" and "\<not> terminal (j_state j)" and "visible p j" and "pc_scope p \<noteq> Read"
  shows "\<exists>w' r out. cancel_job now p i w = (Inr out, w') \<and> jr_state out = CANCELLED
    \<and> get_job (w_db w') i = Some r \<and> j_state r = CANCELLED \<and> j_finished_at r = Some now
    \<and> crawl_job D now' i w' = (Inr (CrawlStatus CANCELLED), w')
    \<and> fetch_page D W R S env fuel now' clock retries i page base w' = Some (Inr (skipped_result page), w')
    \<and> assemble_job D env' now' results i w' = (Inr (FinalStatus CANCELLED), w')
    \<and> cancel_job now' p i w' = (Inl (HTTPException 409 ''job already CANCELLED''), w')"
proof -
  from cancel_job_own [OF assms, of now] obtain w' r out where
    c: "cancel_job now p i w = (Inr out, w')" "jr_state out = CANCELLED"
      "get_job (w_db w') i = Some r" "j_state r = CANCELLED" "j_finished_at r = Some now"
      "j_api_key_id r = j_api_key_id j" by blast
  have "visible p r" using assms(3) c(6) by (simp add: visible_def)
  moreover have "require_scope Write p = Inr p"
    using assms(4) by (cases "pc_scope p") (auto simp: require_scope_def allows_def)
  ultimately have "cancel_job now' p i w' = (Inl (HTTPException 409 ''job already CANCELLED''), w')"
    using c by (simp add: cancel_job_def find_visible_def)
  with c show ?thesis
    by (simp add: crawl_job_def begin_crawl_def fetch_page_def assemble_job_def finalise_job_def
        finalise_plan_def)
qed


text \<open>
  A caller without admin scope gets the same 404 for a job of another key as for no job at all,
  on every route, and changes nothing.
\<close>

theorem foreign_job_hidden:
  assumes "get_job (w_db w) i = Some j" and "pc_scope p = Write" and "j_api_key_id j \<noteq> pc_key_id p"
  shows "read_job p i (w_db w) = Inl (HTTPException 404 ''job not found'')
    \<and> list_failures p i (w_db w) = Inl (HTTPException 404 ''job not found'')
    \<and> get_result D p i (w_db w) = Inl (HTTPException 404 ''job not found'')
    \<and> cancel_job now p i w = (Inl (HTTPException 404 ''job not found''), w)
    \<and> retry_job env now k p i w = (Inl (HTTPException 404 ''job not found''), w)"
  using assms
  by (simp add: read_job_def list_failures_def get_result_def cancel_job_def retry_job_def
      find_visible_def visible_def require_scope_def allows_def)

lemma replay_answer_replays: "replay_answer sha k payload e = Inr a \<Longrightarrow> ja_replay a"
  by (auto simp: replay_answer_def split: option.splits if_splits)

text \<open>What the guards of a submission let through.\<close>

lemma submit_checkE:
  assumes "submit_check D dns depth p key payload db = Inr out"
  obtains spec where "spec_of D (c_target payload) = Inr spec"
    "assert_allowed dns (case c_start_url payload of Some u \<Rightarrow> u | None \<Rightarrow> t_start_url spec)
       (allowed_target_hosts (cfg D)) True
     = Inr (case c_start_url payload of Some u \<Rightarrow> u | None \<Rightarrow> t_start_url spec)"
    "out = Inr (fields_of (sha256 D) payload
         (fetcher_str (case c_fetcher payload of Some f \<Rightarrow> f | None \<Rightarrow> t_fetcher spec))
         (case c_start_url payload of Some u \<Rightarrow> u | None \<Rightarrow> t_start_url spec) p key)
     \<or> (\<exists>a. out = Inl a \<and> ja_replay a)"
proof -
  note c = assms [unfolded submit_check_def Let_def]
  obtain spec where spec: "http_of_target (c_target payload) (spec_of D (c_target payload)) = Inr spec"
    using c by (auto simp only: bindE_Inr_iff)
  then have s: "spec_of D (c_target payload) = Inr spec"
    by (auto simp: http_of_target_def split: sum.splits exn.splits)
  let ?u = "case c_start_url payload of Some u \<Rightarrow> u | None \<Rightarrow> t_start_url spec"
  note c1 = c [unfolded spec bindE.simps(2)]
  obtain v where v: "http_of_url (assert_allowed dns ?u (allowed_target_hosts (cfg D)) True) = Inr v"
    using c1 by (auto simp only: bindE_Inr_iff)
  then have u: "assert_allowed dns ?u (allowed_target_hosts (cfg D)) True = Inr ?u"
    by (auto simp: http_of_url_def assert_allowed_Inr split: sum.splits exn.splits)
  note c2 = c1 [unfolded v bindE.simps(2)]
  let ?f = "fetcher_str (case c_fetcher payload of Some f \<Rightarrow> f | None \<Rightarrow> t_fetcher spec)"
  obtain q where q: "assert_capacity (cfg D) depth (queue_for ?f) = Inr q"
    using c2 by (auto simp only: bindE_Inr_iff)
  note c3 = c2 [unfolded q bindE.simps(2)]
  show thesis
  proof (cases "key = None \<or> key = Some []")
    case True
    then show thesis using c3 by (intro that [OF s u]) auto
  next
    case False
    then obtain k where k: "key = Some k" "k \<noteq> []" by auto
    obtain found where f: "find_by_idempotency_key db (pc_key_id p) k = Inr found"
      using c3 k by (auto simp: bindE_Inr_iff)
    show thesis
      by (rule that [OF s u])
        (use c3 k f in \<open>auto simp: bindE_Inr_iff split: option.splits dest: replay_answer_replays\<close>)
  qed
qed

text \<open>A submission that is not a replay: the row, the message, and what is left behind.\<close>

lemma submit_freshE:
  assumes "submit_job D dns depth env now i p key payload w = (Inr a, w1)" and "\<not> ja_replay a"
  obtains spec fetcher url n j where
    "spec_of D (c_target payload) = Inr spec"
    "fetcher = fetcher_str (case c_fetcher payload of Some f \<Rightarrow> f | None \<Rightarrow> t_fetcher spec)"
    "url = (case c_start_url payload of Some u \<Rightarrow> u | None \<Rightarrow> t_start_url spec)"
    "assert_allowed dns url (allowed_target_hosts (cfg D)) True = Inr url"
    "n = fields_of (sha256 D) payload fetcher url p key"
    "create_job now i n (w_db w) = Inr (j, (w_db w)\<lparr>jobs := jobs (w_db w) @ [j]\<rparr>)"
    "a = \<lparr>ja_id = i, ja_state = PENDING, ja_replay = False\<rparr>"
    "w1 = (env (send (CrawlMsg i (queue_for fetcher)) w))\<lparr>w_db :=
       (w_db (env (send (CrawlMsg i (queue_for fetcher)) w)))\<lparr>jobs :=
         jobs (w_db (env (send (CrawlMsg i (queue_for fetcher)) w))) @ [j\<lparr>j_celery_task_id := Some i\<rparr>]\<rparr>\<rparr>"
proof -
  obtain out where out: "submit_check D dns depth p key payload (w_db w) = Inr out"
    using assms by (auto simp: submit_job_def split: sum.splits)
  from submit_checkE [OF out] obtain spec where s: "spec_of D (c_target payload) = Inr spec"
    "assert_allowed dns (case c_start_url payload of Some u \<Rightarrow> u | None \<Rightarrow> t_start_url spec)
       (allowed_target_hosts (cfg D)) True
     = Inr (case c_start_url payload of Some u \<Rightarrow> u | None \<Rightarrow> t_start_url spec)"
    and o: "out = Inr (fields_of (sha256 D) payload
         (fetcher_str (case c_fetcher payload of Some f \<Rightarrow> f | None \<Rightarrow> t_fetcher spec))
         (case c_start_url payload of Some u \<Rightarrow> u | None \<Rightarrow> t_start_url spec) p key)
     \<or> (\<exists>a. out = Inl a \<and> ja_replay a)" by blast
  let ?f = "fetcher_str (case c_fetcher payload of Some f \<Rightarrow> f | None \<Rightarrow> t_fetcher spec)"
  obtain n where n: "n = fields_of (sha256 D) payload ?f
         (case c_start_url payload of Some u \<Rightarrow> u | None \<Rightarrow> t_start_url spec) p key" by simp
  then have nf: "n_fetcher n = ?f" by (simp add: fields_of_def)
  have check: "submit_check D dns depth p key payload (w_db w) = Inr (Inr n)"
    using o out assms n by (auto simp: submit_job_def)
  obtain j db' where c: "create_job now i n (w_db w) = Inr (j, db')"
    using assms check by (auto simp: submit_job_def split: sum.splits)
  then have db': "db' = (w_db w)\<lparr>jobs := jobs (w_db w) @ [j]\<rparr>" by (simp add: create_job_Inr)
  let ?w = "env (send (CrawlMsg i (queue_for ?f)) w)"
  have "a = \<lparr>ja_id = i, ja_state = PENDING, ja_replay = False\<rparr>"
    "w1 = ?w\<lparr>w_db := (w_db ?w)\<lparr>jobs := jobs (w_db ?w) @ [j\<lparr>j_celery_task_id := Some i\<rparr>]\<rparr>\<rparr>"
    using assms(1) by (auto simp: submit_job_def check c Let_def nf)
  with that [OF s(1) refl refl s(2) n c [unfolded db']] show thesis by simp
qed

lemma submit_fresh:
  assumes "submit_job D dns depth (\<lambda>w. w) now i p key payload w = (Inr a, w1)" and "\<not> ja_replay a"
  obtains fetcher url n j where "n = fields_of (sha256 D) payload fetcher url p key"
    "create_job now i n (w_db w) = Inr (j, (w_db w)\<lparr>jobs := jobs (w_db w) @ [j]\<rparr>)"
    "w_db w1 = (w_db w)\<lparr>jobs := jobs (w_db w) @ [j\<lparr>j_celery_task_id := Some i\<rparr>]\<rparr>"
  by (rule submit_freshE [OF assms]) (rule that, assumption, assumption, simp)


theorem empty_key_collides:
  assumes first: "submit_job D dns depth (\<lambda>w. w) now i p (Some []) payload w = (Inr a, w1)"
    and fresh: "\<not> ja_replay a"
    and check: "submit_check D dns' depth' p (Some []) payload' (w_db w1) = Inr (Inr n')"
    and row: "\<not> too_long (new_job now' i' n')" "1 \<le> c_max_pages payload'" "c_max_pages payload' \<le> 1000"
      "get_job (w_db w1) i' = None"
  shows "submit_job D dns' depth' env now' i' p (Some []) payload' w1
    = (Inl (IntegrityError ''uq_jobs_idempotency_key''), w1)"
proof -
  from submit_fresh [OF first fresh] obtain fetcher url n j where
    n: "n = fields_of (sha256 D) payload fetcher url p (Some [])"
    and c: "create_job now i n (w_db w) = Inr (j, (w_db w)\<lparr>jobs := jobs (w_db w) @ [j]\<rparr>)"
    and w1: "w_db w1 = (w_db w)\<lparr>jobs := jobs (w_db w) @ [j\<lparr>j_celery_task_id := Some i\<rparr>]\<rparr>" by metis
  have j: "j_api_key_id j = pc_key_id p" "j_idempotency_key j = Some []"
    using c by (auto simp: create_job_Inr new_job_def n fields_of_def)
  from submit_checkE [OF check] obtain f u where
    n': "n' = fields_of (sha256 D) payload' f u p (Some [])" by blast
  have "idempotency_clash (w_db w1) (new_job now' i' n')"
    using j by (simp add: idempotency_clash_def w1 new_job_def n' fields_of_def)
  moreover have "j_max_pages (new_job now' i' n') = c_max_pages payload'"
    by (simp add: new_job_def n' fields_of_def)
  ultimately have "create_job now' i' n' (w_db w1) = Inl (IntegrityError ''uq_jobs_idempotency_key'')"
    using row by (simp add: create_job_def Let_def)
  then show ?thesis by (simp add: submit_job_def check)
qed

text \<open>
  C28. The message of a submitted job is sent before its row is committed: a worker that takes
  it at once finds no job and drops it, and the job then stays PENDING with no message left.
\<close>

theorem message_before_commit:
  assumes env: "\<And>w. env w = snd (crawl_job D now' i w)"
    and new: "get_job (w_db w) i = None"
    and sub: "submit_job D dns depth env now i p key payload w = (Inr a, w')" and "\<not> ja_replay a"
  shows "\<exists>r q. fst (crawl_job D now' i (send (CrawlMsg i q) w)) = Inr CrawlMissing
    \<and> w_sent w' = w_sent w @ [CrawlMsg i q] \<and> get_job (w_db w') i = Some r \<and> j_state r = PENDING"
proof -
  have missing: "crawl_job D now' i (send m w) = (Inr CrawlMissing, send m w)" for m
    using new by (simp add: crawl_job_def begin_crawl_def)
  from submit_freshE [OF sub assms(4)] obtain fetcher url n j where
    n: "n = fields_of (sha256 D) payload fetcher url p key"
    and c: "create_job now i n (w_db w) = Inr (j, (w_db w)\<lparr>jobs := jobs (w_db w) @ [j]\<rparr>)"
    and w': "w' = (env (send (CrawlMsg i (queue_for fetcher)) w))\<lparr>w_db :=
       (w_db (env (send (CrawlMsg i (queue_for fetcher)) w)))\<lparr>jobs :=
         jobs (w_db (env (send (CrawlMsg i (queue_for fetcher)) w))) @ [j\<lparr>j_celery_task_id := Some i\<rparr>]\<rparr>\<rparr>"
    by metis
  have j: "j_id j = i" "j_state j = PENDING" using c by (auto simp: create_job_Inr new_job_def n fields_of_def)
  show ?thesis
    using j new missing [of "CrawlMsg i (queue_for fetcher)"]
    by (intro exI [of _ "j\<lparr>j_celery_task_id := Some i\<rparr>"] exI [of _ "queue_for fetcher"])
       (simp add: get_job_append w' env missing)
qed

text \<open>
  A retry needs a visible job in a terminal state, leaves that job as it was, and creates a new
  PENDING job with its request, no idempotency key, a link to the old one and its own message.
\<close>

theorem retry_makes_new_job:
  assumes "retry_job env now k p i w = (Inr a, w')" and "\<And>w. w_db (env w) = w_db w" and "\<And>w. w_sent (env w) = w_sent w"
  shows "\<exists>old r. get_job (w_db w) i = Some old \<and> terminal (j_state old) \<and> visible p old
    \<and> ja_id a = k \<and> get_job (w_db w) k = None \<and> get_job (w_db w') i = Some old
    \<and> get_job (w_db w') k = Some r \<and> j_state r = PENDING \<and> j_target r = j_target old
    \<and> j_start_url r = j_start_url old \<and> j_max_pages r = j_max_pages old
    \<and> j_api_key_id r = j_api_key_id old \<and> j_idempotency_key r = None
    \<and> map_of (j_params r) ''_retry_of'' = Some (JStr i) \<and> completed_pages (w_db w') k = completed_pages (w_db w) k
    \<and> w_sent w' = w_sent w @ [CrawlMsg k (queue_for (j_fetcher old))]"
proof -
  obtain old where old: "get_job (w_db w) i = Some old" "visible p old" "terminal (j_state old)"
    and scope: "require_scope Write p = Inr p"
    using assms(1) by (auto simp: retry_job_def find_visible_def require_scope_def split: option.splits if_splits)
  obtain j db' where c: "create_job now k (retry_fields old) (w_db w) = Inr (j, db')"
    using assms(1) old scope by (auto simp: retry_job_def find_visible_def split: sum.splits)
  let ?r = "j\<lparr>j_celery_task_id := Some k\<rparr>"
  have new: "get_job (w_db w) k = None" and j: "j = new_job now k (retry_fields old)"
    using c by (simp_all add: create_job_Inr)
  have w': "ja_id a = k" "w_db w' = (w_db w)\<lparr>jobs := jobs (w_db w) @ [?r]\<rparr>"
    "w_sent w' = w_sent w @ [CrawlMsg k (queue_for (j_fetcher old))]"
    using assms old scope c by (auto simp: retry_job_def find_visible_def Let_def)
  have "j_id old = i" using get_job_id [OF old(1)] .
  with old w' new show ?thesis
    by (intro exI [of _ old] exI [of _ ?r])
       (auto simp: get_job_append j new_job_def retry_fields_def completed_pages_def)
qed

definition owner :: principal where
  "owner = \<lparr>pc_key_id = ''k1'', pc_scope = Write\<rparr>"

definition stranger :: principal where
  "stranger = \<lparr>pc_key_id = ''k2'', pc_scope = Write\<rparr>"

theorem cancel_stops_job_witness:
  "\<exists>w' out. cancel_job 7 owner ''j1'' (sample_world (running_db [1])) = (Inr out, w')
    \<and> jr_state out = CANCELLED \<and> crawl_job sample_deployment 8 ''j1'' w' = (Inr (CrawlStatus CANCELLED), w')
    \<and> fetch_page sample_deployment sample_web mem_redis alone (\<lambda>w. w) 2 8 0 0 ''j1'' 2 None w'
        = Some (Inr (skipped_result 2), w')"
proof -
  have "\<not> terminal (j_state running_job)" "visible owner running_job" "pc_scope owner \<noteq> Read"
    by (simp_all add: owner_def visible_def)
  from cancel_stops_job [OF sample_running this, where now = 7 and D = sample_deployment and now' = 8
      and W = sample_web and R = mem_redis and S = alone and env = "\<lambda>w. w" and fuel = 2 and clock = 0
      and retries = 0 and page = 2 and base = None]
  show ?thesis by blast
qed

theorem foreign_job_hidden_witness:
  "cancel_job 7 stranger ''j1'' (sample_world (running_db [1]))
     = (Inl (HTTPException 404 ''job not found''), sample_world (running_db [1]))"
proof -
  have "pc_scope stranger = Write" "j_api_key_id running_job \<noteq> pc_key_id stranger"
    by (simp_all add: stranger_def)
  from foreign_job_hidden [OF sample_running this] show ?thesis by blast
qed

definition dead_job :: job where
  "dead_job = running_job\<lparr>j_state := DEAD_LETTER\<rparr>"

definition dead_db :: db where
  "dead_db = empty_db\<lparr>jobs := [dead_job]\<rparr>"

theorem retry_makes_new_job_witness:
  "\<exists>a w' r. retry_job (\<lambda>w. w) 7 ''j2'' owner ''j1'' (sample_world dead_db) = (Inr a, w') \<and> ja_id a = ''j2''
    \<and> get_job (w_db w') ''j2'' = Some r \<and> j_state r = PENDING
    \<and> map_of (j_params r) ''_retry_of'' = Some (JStr ''j1'')"
proof -
  have job: "get_job dead_db ''j1'' = Some dead_job" "get_job dead_db ''j2'' = None"
    by (simp_all add: dead_db_def get_job_def dead_job_def)
  have "\<not> too_long (new_job 7 ''j2'' (retry_fields dead_job))"
    "\<not> idempotency_clash dead_db (new_job 7 ''j2'' (retry_fields dead_job))"
    "j_max_pages (new_job 7 ''j2'' (retry_fields dead_job)) = 3"
    by (simp_all add: too_long_def idempotency_clash_def new_job_def retry_fields_def dead_job_def
        running_job_def sample_fields_def)
  then obtain j db' where c: "create_job 7 ''j2'' (retry_fields dead_job) dead_db = Inr (j, db')"
    using job by (simp add: create_job_def Let_def)
  have "visible owner dead_job" "terminal (j_state dead_job)" "require_scope Write owner = Inr owner"
    by (simp_all add: owner_def visible_def dead_job_def require_scope_def allows_def)
  then obtain a w' where run: "retry_job (\<lambda>w. w) 7 ''j2'' owner ''j1'' (sample_world dead_db) = (Inr a, w')"
    using job c by (simp add: retry_job_def find_visible_def Let_def)
  from retry_makes_new_job [OF run refl refl] run show ?thesis by blast
qed

definition sample_payload :: job_create where
  "sample_payload = \<lparr>c_target = ''grants'', c_fetcher = None, c_start_url = None, c_max_pages = 3,
     c_output_format = CSV, c_incremental = False, c_callback_url = None, c_params = []\<rparr>"

lemma sample_start_allowed:
  "assert_allowed sample_dns (t_start_url sample_spec) [''a.gov''] True = Inr (t_start_url sample_spec)"
proof -
  let ?u = "\<lparr>u_scheme = ''https'', u_netloc = ''a.gov'', u_path = ''/s'', u_params = [],
    u_query = ''q=x&p=9'', u_fragment = ''top''\<rparr>"
  have "urlparse (t_start_url sample_spec) = Inr ?u" "hostname ?u = Some ''a.gov''" "port ?u = Inr None"
    "lower ''a.gov'' = ''a.gov''" by code_simp+
  moreover have "\<not> non_public (V4 (quad 8 8 8 8))"
    by (simp add: ipv4_ranges between_def quad_def)
  ultimately show ?thesis
    by (simp add: assert_allowed_Inr assert_public_Inr allowed_schemes_def sample_dns_def)
qed

lemma sample_submit:
  "\<exists>w1. submit_job sample_deployment sample_dns (\<lambda>q. 0) env 1 ''j1'' owner (Some ''key-1'') sample_payload
      (sample_world empty_db) = (Inr \<lparr>ja_id = ''j1'', ja_state = PENDING, ja_replay = False\<rparr>, w1)"
proof -
  let ?n = "fields_of (sha256 sample_deployment) sample_payload ''http'' (t_start_url sample_spec) owner (Some ''key-1'')"
  have "queue_depth_limit sample_settings = 500" by (simp add: sample_settings_def default_settings_def)
  moreover have "t_fetcher sample_spec = Http" by (simp add: sample_spec_def)
  moreover have "find_by_idempotency_key empty_db (pc_key_id owner) ''key-1'' = Inr None"
    by (simp add: find_by_idempotency_key_def empty_db_def)
  ultimately have check: "submit_check sample_deployment sample_dns (\<lambda>q. 0) owner (Some ''key-1'') sample_payload empty_db
      = Inr (Inr ?n)"
    using sample_start_allowed
    by (simp add: submit_check_def Let_def sample_payload_def http_of_target_def http_of_url_def assert_capacity_def)
  have "\<not> too_long (new_job 1 ''j1'' ?n)"
    by (simp add: too_long_def new_job_def fields_of_def sample_payload_def owner_def)
  then obtain j db' where "create_job 1 ''j1'' ?n empty_db = Inr (j, db')"
    by (auto simp: create_job_def Let_def get_job_def idempotency_clash_def empty_db_def new_job_def fields_of_def
        sample_payload_def)
  with check show ?thesis by (simp add: submit_job_def Let_def)
qed


theorem message_before_commit_witness:
  "\<exists>w' r. submit_job sample_deployment sample_dns (\<lambda>q. 0) (\<lambda>w. snd (crawl_job sample_deployment 2 ''j1'' w)) 1 ''j1''
      owner (Some ''key-1'') sample_payload (sample_world empty_db)
      = (Inr \<lparr>ja_id = ''j1'', ja_state = PENDING, ja_replay = False\<rparr>, w')
    \<and> length (w_sent w') = 1 \<and> get_job (w_db w') ''j1'' = Some r \<and> j_state r = PENDING"
proof -
  let ?env = "\<lambda>w. snd (crawl_job sample_deployment 2 ''j1'' w)"
  obtain w' where run: "submit_job sample_deployment sample_dns (\<lambda>q. 0) ?env 1 ''j1'' owner (Some ''key-1'')
      sample_payload (sample_world empty_db) = (Inr \<lparr>ja_id = ''j1'', ja_state = PENDING, ja_replay = False\<rparr>, w')"
    using sample_submit by blast
  have new: "get_job (w_db (sample_world empty_db)) ''j1'' = None" by (simp add: get_job_def empty_db_def)
  from message_before_commit [OF refl new run] run show ?thesis by auto
qed

definition ascii_text :: "string \<Rightarrow> bool" where
  "ascii_text s \<longleftrightarrow> list_all (\<lambda>c. ord c < 128) s"

lemma compare_digest_ascii: "ascii_text a \<Longrightarrow> ascii_text b \<Longrightarrow> compare_digest a b = Inr (a = b)"
  by (auto simp: compare_digest_def ascii_text_def list_ex_iff list_all_iff not_le)

lemma compare_digest_other:
  "\<not> ascii_text a \<Longrightarrow>
     compare_digest a b = Inl (TypeError ''comparing strings with non-ASCII characters is not supported'')"
  by (auto simp: compare_digest_def ascii_text_def list_ex_iff list_all_iff not_less)

lemma authenticate_loop_finds:
  assumes "ascii_text presented" and "\<forall>k \<in> set (dict_keys d). ascii_text k"
  shows "authenticate_loop sha presented d =
    (case map_of d presented of
       None \<Rightarrow> Inl (HTTPException 401 ''invalid API key'')
     | Some sc \<Rightarrow> Inr \<lparr>pc_key_id = key_id sha presented, pc_scope = sc\<rparr>)"
  using assms(2)
proof (induction d)
  case (Cons kv d)
  then show ?case by (cases kv) (auto simp: compare_digest_ascii assms(1))
qed simp

lemma dict_merge_keys: "fst ` set (dict_merge a ps) = fst ` set a \<union> fst ` set ps"
  by (induction ps arbitrary: a) auto

lemma dict_of_keys: "set (dict_keys (dict_of ps)) = fst ` set ps"
  by (simp add: dict_of_def dict_merge_keys)

text \<open>
  C30. With a list of well-formed ASCII keys, a presented ASCII key is accepted exactly when it
  is one of them, with the scope of its last entry, and refused with 401 otherwise; a presented
  key with a character outside ASCII is a TypeError and so a 500.
\<close>

theorem authenticate_exact:
  assumes keys: "\<forall>p \<in> set ps. key_ok (fst p) \<and> ascii_text (fst p)" and "ps \<noteq> []"
  shows "authenticate sha (c\<lparr>api_keys := join '','' (map key_entry ps)\<rparr>) presented =
    (if \<not> ascii_text presented
     then Inl (TypeError ''comparing strings with non-ASCII characters is not supported'')
     else case map_of (dict_of ps) presented of
       None \<Rightarrow> Inl (HTTPException 401 ''invalid API key'')
     | Some sc \<Rightarrow> Inr \<lparr>pc_key_id = key_id sha presented, pc_scope = sc\<rparr>)"
proof -
  have scopes: "api_key_scopes (c\<lparr>api_keys := join '','' (map key_entry ps)\<rparr>) = Inr (dict_of ps)"
    using assms by (intro api_key_scopes_entries) blast+
  have ks: "set (dict_keys (dict_of ps)) = fst ` set ps" by (rule dict_of_keys)
  show ?thesis
  proof (cases "ascii_text presented")
    case True
    have "\<forall>k \<in> set (dict_keys (dict_of ps)). ascii_text k" unfolding ks using keys by blast
    from authenticate_loop_finds [OF True this] True show ?thesis by (simp add: authenticate_def scopes)
  next
    case False
    have "dict_of ps \<noteq> []"
    proof
      assume "dict_of ps = []"
      then have "fst ` set ps = {}" using ks by simp
      with assms(2) show False by simp
    qed
    then obtain k sc d where "dict_of ps = (k, sc) # d" by (cases "dict_of ps") auto
    then show ?thesis using False by (simp add: authenticate_def scopes compare_digest_other)
  qed
qed

theorem authenticate_exact_witness:
  "authenticate (\<lambda>s. ''0123456789abcdef'' @ s) sample_settings ''alpha''
     = Inr \<lparr>pc_key_id = ''0123456789abcdef'', pc_scope = Write\<rparr>
   \<and> authenticate (\<lambda>s. ''0123456789abcdef'' @ s) sample_settings ''Alpha''
     = Inl (HTTPException 401 ''invalid API key'')"
proof -
  let ?ps = "[(''alpha'', Write), (''root'', Admin)]"
  have keys: "\<forall>p \<in> set ?ps. key_ok (fst p) \<and> ascii_text (fst p)" and ne: "?ps \<noteq> []"
    by (simp_all add: key_ok_def is_space_def ord_def ascii_text_def)
  have entries: "join '','' (map key_entry ?ps) = ''alpha:write,root:admin''"
    and look: "map_of (dict_of ?ps) ''alpha'' = Some Write" "map_of (dict_of ?ps) ''Alpha'' = None"
    and asc: "ascii_text ''alpha''" "ascii_text ''Alpha''"
    by code_simp+
  have c: "sample_settings = sample_settings\<lparr>api_keys := ''alpha:write,root:admin''\<rparr>"
    by (simp add: sample_settings_def)
  note a = authenticate_exact [OF keys ne, of "\<lambda>s. ''0123456789abcdef'' @ s" sample_settings, unfolded entries, folded c]
  show ?thesis using a [of "''alpha''"] a [of "''Alpha''"] look asc by (simp add: key_id_def)
qed

end
