(* ===== verification/Schedule.thy ===== *)
theory Schedule
  imports Api
begin

text \<open>
  Scheduled jobs (\<^verbatim>\<open>schedule/loader.py\<close>, \<^verbatim>\<open>schedule/beat.py\<close>) and the queues
  (\<^verbatim>\<open>queue/routing.py\<close>).  The configuration files arrive as the values the YAML parser
  yields; the fields of a cron entry are handed to the scheduler as they are.
\<close>

subsection \<open>Python conversions\<close>

fun split_ws_loop :: "string \<Rightarrow> string \<Rightarrow> string list" where
  "split_ws_loop cur [] = (if cur = [] then [] else [cur])"
| "split_ws_loop cur (c # s) =
     (if is_space c then (if cur = [] then split_ws_loop [] s else cur # split_ws_loop [] s)
      else split_ws_loop (cur @ [c]) s)"

definition split_ws :: "string \<Rightarrow> string list" where
  "split_ws s = split_ws_loop [] s"

text \<open>
  \<open>int(v)\<close> of a configuration value; a float printed with an exponent is below one or far
  above every bound of the program, and stands as \<open>10 ^ 16\<close> then.
\<close>

definition py_int :: "json \<Rightarrow> exn + int" where
  "py_int v =
     (case v of
        JInt i \<Rightarrow> Inr i
      | JBool b \<Rightarrow> Inr (if b then 1 else 0)
      | JFloat t \<Rightarrow>
          if contains ''e-'' t then Inr 0
          else if contains ''e'' t then Inr (10 ^ 16) else Inr (read_int (before (CHR ''.'') t))
      | JStr s \<Rightarrow>
          if int_text (strip s) then Inr (read_int (strip s))
          else Inl (ValueError ''invalid literal for int()'')
      | _ \<Rightarrow> Inl (TypeError ''int() argument''))"

definition get_or :: "row \<Rightarrow> string \<Rightarrow> json \<Rightarrow> json" where
  "get_or d k default_value = (case map_of d k of None \<Rightarrow> default_value | Some v \<Rightarrow> v)"

definition quoted :: "string \<Rightarrow> string" where
  "quoted s = [CHR 0x27] @ s @ [CHR 0x27]"

subsection \<open>The schedule\<close>

datatype schedule = Cron string string string string string | Every json

definition to_schedule :: "row \<Rightarrow> exn + schedule" where
  "to_schedule spec =
     (case map_of spec ''cron'' of
        Some v \<Rightarrow>
          (case split_ws (py_str v) of
             [a, b, c, d, e] \<Rightarrow> Inr (Cron a b c d e)
           | _ \<Rightarrow> Inl (ScheduleError (''cron must have five fields, got '' @ py_repr v)))
      | None \<Rightarrow>
          (case map_of spec ''every_seconds'' of
             Some v \<Rightarrow>
               (case v of
                  JInt _ \<Rightarrow> Inr (Every v) | JFloat _ \<Rightarrow> Inr (Every v) | JBool _ \<Rightarrow> Inr (Every v)
                | JStr s \<Rightarrow> if int_text s \<or> float_text s then Inr (Every v)
                            else Inl (ValueError ''could not convert string to float'')
                | _ \<Rightarrow> Inl (TypeError ''float() argument''))
           | None \<Rightarrow> Inl (ScheduleError (''each entry needs '' @ quoted ''cron'' @ '' or '' @ quoted ''every_seconds''))))"

record schedule_entry =
  se_task :: string
  se_schedule :: schedule
  se_name :: string
  se_job :: json
  se_queue :: string

text \<open>\<open>"target" in job\<close>: a key of a mapping, an element of a list, a part of a string.\<close>

definition has_target :: "json \<Rightarrow> exn + bool" where
  "has_target j =
     (case j of
        JObj d \<Rightarrow> Inr (map_of d ''target'' \<noteq> None)
      | JArr vs \<Rightarrow> Inr (JStr ''target'' \<in> set vs)
      | JStr s \<Rightarrow> Inr (contains ''target'' s)
      | _ \<Rightarrow> Inl (TypeError ''argument is not iterable''))"

text \<open>A file that is not there, or empty, is an empty schedule.\<close>

fun schedule_loop :: "(string \<times> json) list \<Rightarrow> (string, schedule_entry) dict
    \<Rightarrow> exn + (string, schedule_entry) dict" where
  "schedule_loop [] out = Inr out"
| "schedule_loop ((name, v) # rest) out =
     (case v of
        JObj spec \<Rightarrow>
          if \<not> truthy (get_or spec ''enabled'' (JBool True)) then schedule_loop rest out
          else
            bindE (let j = get_or spec ''job'' JNull
                   in if truthy j then has_target j else Inr False) (\<lambda>present.
              if \<not> present
              then Inl (ScheduleError (name @ '': '' @ quoted ''job.target'' @ '' is required''))
              else bindE (to_schedule spec) (\<lambda>s.
                schedule_loop rest (dict_put name
                  \<lparr>se_task = ''scrapequeue.schedule.beat.submit_scheduled_job'', se_schedule = s,
                   se_name = name, se_job = get_or spec ''job'' JNull, se_queue = ''default''\<rparr> out)))
      | _ \<Rightarrow> Inl (OtherError ''AttributeError'' ''get''))"

definition load_schedule :: "json option \<Rightarrow> exn + (string, schedule_entry) dict" where
  "load_schedule file =
     (case file of
        None \<Rightarrow> Inr []
      | Some data \<Rightarrow>
          if \<not> truthy data then Inr []
          else (case data of
             JObj doc \<Rightarrow>
               (case map_of doc ''schedules'' of
                  None \<Rightarrow> Inr []
                | Some entries \<Rightarrow>
                    if \<not> truthy entries then Inr []
                    else (case entries of
                       JObj items \<Rightarrow> schedule_loop items []
                     | _ \<Rightarrow> Inl (OtherError ''AttributeError'' ''items'')))
           | _ \<Rightarrow> Inl (OtherError ''AttributeError'' ''get'')))"

subsection \<open>A scheduled submission\<close>

definition text_column :: "json \<Rightarrow> exn + string" where
  "text_column v = (case v of JStr s \<Rightarrow> Inr s | _ \<Rightarrow> Inl (DataError ''not a string''))"

definition text_column_or_null :: "json \<Rightarrow> exn + string option" where
  "text_column_or_null v =
     (case v of JNull \<Rightarrow> Inr None | _ \<Rightarrow> bindE (text_column v) (\<lambda>s. Inr (Some s)))"

definition scheduled_fields ::
  "'s deployment \<Rightarrow> resolver \<Rightarrow> string \<Rightarrow> row \<Rightarrow> exn + job_fields" where
  "scheduled_fields D dns name job =
     bindE (case map_of job ''target'' of None \<Rightarrow> Inl (KeyError ''target'') | Some v \<Rightarrow> text_column v) (\<lambda>target.
     bindE (spec_of D target) (\<lambda>spec.
     bindE (if truthy (get_or job ''start_url'' JNull)
            then text_column (get_or job ''start_url'' JNull) else Inr (t_start_url spec)) (\<lambda>start_url.
     bindE (assert_allowed dns start_url (allowed_target_hosts (cfg D)) True) (\<lambda>_.
     bindE (if truthy (get_or job ''fetcher'' JNull) then text_column (get_or job ''fetcher'' JNull)
            else Inr (fetcher_str (t_fetcher spec))) (\<lambda>fetcher.
     bindE (py_int (get_or job ''max_pages'' (JInt 5))) (\<lambda>max_pages.
     bindE (text_column (get_or job ''output_format'' (JStr ''csv''))) (\<lambda>fmt.
     bindE (text_column_or_null (get_or job ''callback_url'' JNull)) (\<lambda>callback.
       Inr \<lparr>n_state = PENDING, n_target = t_name spec, n_fetcher = fetcher,
            n_start_url = start_url, n_max_pages = max_pages, n_output_format = fmt,
            n_incremental = truthy (get_or job ''incremental'' (JBool False)),
            n_params = [(''_schedule'', JStr name)], n_api_key_id = ''scheduler'',
            n_idempotency_key = None, n_callback_url = callback\<rparr>))))))))"

text \<open>The session commits before the message is sent; \<open>env\<close> runs in between.\<close>

definition submit_scheduled_job ::
  "'s deployment \<Rightarrow> resolver \<Rightarrow> (('s, 'r) world \<Rightarrow> ('s, 'r) world) \<Rightarrow> datetime \<Rightarrow> uuid \<Rightarrow> string
    \<Rightarrow> row \<Rightarrow> ('s, 'r) world \<Rightarrow> (exn + uuid) \<times> ('s, 'r) world" where
  "submit_scheduled_job D dns env now i name job w =
     (case scheduled_fields D dns name job of
        Inl e \<Rightarrow> (Inl e, w)
      | Inr n \<Rightarrow>
          (case create_job now i n (w_db w) of
             Inl e \<Rightarrow> (Inl e, w)
           | Inr (j, _) \<Rightarrow>
               let row = j\<lparr>j_celery_task_id := Some i\<rparr>;
                   w1 = env (w\<lparr>w_db := (w_db w)\<lparr>jobs := jobs (w_db w) @ [row]\<rparr>\<rparr>)
               in (Inr i, send (CrawlMsg i (queue_for (n_fetcher n))) w1)))"

subsection \<open>Queues\<close>

type_synonym queue_config = "(string, row) dict"

definition load_queue_config :: "json \<Rightarrow> exn + (string \<times> json) list" where
  "load_queue_config data =
     (if \<not> truthy data then Inl (ValueError (quoted ''queues'' @ '' must be a non-empty mapping''))
      else (case data of
         JObj doc \<Rightarrow>
           (case map_of doc ''queues'' of
              Some (JObj (q # qs)) \<Rightarrow> Inr (q # qs)
            | _ \<Rightarrow> Inl (ValueError (quoted ''queues'' @ '' must be a non-empty mapping'')))
       | _ \<Rightarrow> Inl (OtherError ''AttributeError'' ''get'')))"

definition priority :: "row \<Rightarrow> exn + int" where
  "priority opts = py_int (get_or opts ''priority'' (JInt 5))"

text \<open>\<open>sorted(xs, key=lambda x: -priority(x))\<close>: the keys first, then a stable sort.\<close>

definition sorted_by_priority :: "('a \<Rightarrow> exn + int) \<Rightarrow> 'a list \<Rightarrow> exn + 'a list" where
  "sorted_by_priority prio xs =
     bindE (mapE (\<lambda>x. bindE (prio x) (\<lambda>p. Inr (x, p))) xs) (\<lambda>keyed.
       Inr (map fst (sort_key (\<lambda>(x, p). - p) keyed)))"

definition build_queues :: "queue_config \<Rightarrow> exn + string list" where
  "build_queues config =
     bindE (sorted_by_priority (\<lambda>kv. priority (snd kv)) config) (\<lambda>ordered. Inr (map fst ordered))"

definition queue_priority :: "queue_config \<Rightarrow> string \<Rightarrow> exn + int" where
  "queue_priority config n = (case map_of config n of None \<Rightarrow> Inl (KeyError n) | Some opts \<Rightarrow> priority opts)"

definition queues_for_worker :: "queue_config \<Rightarrow> queue_config \<Rightarrow> string list \<Rightarrow> exn + string" where
  "queues_for_worker default_config config names =
     (let c = (if config \<noteq> [] then config else default_config);
          unknown = filter (\<lambda>n. map_of c n = None) names
      in if unknown \<noteq> []
         then Inl (ValueError (''unknown queues: '' @ py_repr (JArr (map JStr unknown))))
         else bindE (sorted_by_priority (queue_priority c) names) (\<lambda>ordered. Inr (join '','' ordered)))"

definition task_routes :: "(string, string) dict" where
  "task_routes =
     [(''scrapequeue.pipeline.crawl.assemble_job'', ''export''),
      (''scrapequeue.pipeline.export.export_job'', ''export''),
      (''scrapequeue.api.routes.webhooks.deliver_callback'', ''export''),
      (''scrapequeue.queue.deadletter.park'', ''dead_letter'')]"

subsection \<open>Lemmas\<close>

lemma mapE_keyed:
  "mapE (\<lambda>x. bindE (prio x) (\<lambda>p. Inr (x, p))) xs = Inr keyed \<Longrightarrow>
     map fst keyed = xs \<and> (\<forall>(x, p) \<in> set keyed. prio x = Inr p)"
  by (induction xs arbitrary: keyed) (auto simp: bindE_Inr_iff)

lemma sorted_by_priority_Inr:
  assumes "sorted_by_priority prio xs = Inr ys"
  shows "mset ys = mset xs"
    and "i \<le> j \<Longrightarrow> j < length ys \<Longrightarrow> prio (ys ! i) = Inr p \<Longrightarrow> prio (ys ! j) = Inr q \<Longrightarrow> q \<le> p"
proof -
  obtain keyed where keyed: "mapE (\<lambda>x. bindE (prio x) (\<lambda>p. Inr (x, p))) xs = Inr keyed"
    and ys: "ys = map fst (sort_key (\<lambda>(x, p). - p) keyed)"
    using assms by (auto simp: sorted_by_priority_def bindE_Inr_iff)
  note k = mapE_keyed [OF keyed]
  let ?ks = "sort_key (\<lambda>(x, p). - p) keyed"
  have "mset (map fst ?ks) = mset (map fst keyed)" by simp
  with k ys show "mset ys = mset xs" by simp
  show "q \<le> p" if ij: "i \<le> j" "j < length ys" and pq: "prio (ys ! i) = Inr p" "prio (ys ! j) = Inr q"
  proof -
    have "j < length ?ks" using ij ys by simp
    moreover have "sorted (map (\<lambda>(x, p). - p) ?ks)" by simp
    ultimately have "(case ?ks ! i of (x, p) \<Rightarrow> - p) \<le> (case ?ks ! j of (x, p) \<Rightarrow> - p)"
      using ij sorted_nth_mono [of "map (\<lambda>(x, p). - p) ?ks" i j] by simp
    moreover have "?ks ! i \<in> set keyed" "?ks ! j \<in> set keyed"
      using ij ys nth_mem [of i ?ks] nth_mem [of j ?ks] by simp_all
    then have "prio (fst (?ks ! i)) = Inr (snd (?ks ! i))" "prio (fst (?ks ! j)) = Inr (snd (?ks ! j))"
      using k by (auto simp: case_prod_beta)
    ultimately show ?thesis using pq ij ys by (simp add: case_prod_beta)
  qed
qed

theorem beat_commits_first:
  assumes beat: "submit_scheduled_job D dns (\<lambda>w. w) now i name job w = (Inr k, w')"
    and new: "get_job (w_db w) i = None"
  shows "k = i \<and> (\<exists>q r. w_sent w' = w_sent w @ [CrawlMsg i q] \<and> get_job (w_db w') i = Some r
    \<and> j_state r = PENDING \<and> j_api_key_id r = ''scheduler''
    \<and> fst (crawl_job D now' i w') \<noteq> Inr CrawlMissing)"
proof -
  obtain n where n: "scheduled_fields D dns name job = Inr n"
    using beat by (auto simp: submit_scheduled_job_def split: sum.splits)
  then have pending: "n_state n = PENDING" "n_api_key_id n = ''scheduler''"
    by (auto simp: scheduled_fields_def bindE_Inr_iff)
  obtain j db' where c: "create_job now i n (w_db w) = Inr (j, db')"
    using beat n by (auto simp: submit_scheduled_job_def split: sum.splits)
  then have j: "j_id j = i" "j_state j = PENDING" "j_api_key_id j = ''scheduler''"
    using pending by (auto simp: create_job_Inr new_job_def)
  let ?r = "j\<lparr>j_celery_task_id := Some i\<rparr>"
  have w': "k = i" "w' = send (CrawlMsg i (queue_for (n_fetcher n)))
      (w\<lparr>w_db := (w_db w)\<lparr>jobs := jobs (w_db w) @ [?r]\<rparr>\<rparr>)"
    using beat by (auto simp: submit_scheduled_job_def n c Let_def)
  have row: "get_job (w_db w') i = Some ?r" using j(1) new by (simp add: w' get_job_append)
  have "j_state ?r = PENDING \<or> j_state ?r = PAUSED" using j(2) by simp
  from begin_crawl_first [OF row this, of "cfg D" now'] obtain plan db2
    where "begin_crawl (cfg D) now' (w_db w') i = Inr (Inr plan, db2)" by blast
  then have "fst (crawl_job D now' i w') \<noteq> Inr CrawlMissing"
    by (simp add: crawl_job_def Let_def split: sum.splits)
  with w' row j show ?thesis by simp
qed

text \<open>
  queues_for_worker returns exactly the queues it was given, highest priority first.
\<close>

theorem queue_order:
  assumes "queues_for_worker d c names = Inr text" and "c \<noteq> []"
    and "\<forall>n \<in> set names. n \<noteq> [] \<and> CHR '','' \<notin> set n" and "names \<noteq> []"
  shows "mset (split_on (CHR '','') text) = mset names
    \<and> (\<forall>a b. a \<le> b \<longrightarrow> b < length names \<longrightarrow>
        (\<exists>pa pb. queue_priority c (split_on (CHR '','') text ! a) = Inr pa
           \<and> queue_priority c (split_on (CHR '','') text ! b) = Inr pb \<and> pb \<le> pa))"
proof -
  obtain qs where qs: "sorted_by_priority (queue_priority c) names = Inr qs" and t: "text = join '','' qs"
    using assms(1,2) by (auto simp: queues_for_worker_def Let_def bindE_Inr_iff split: if_splits)
  note sorted = sorted_by_priority_Inr [OF qs]
  have "set qs = set names" using sorted(1) by (metis set_mset_mset)
  moreover have "qs \<noteq> []" using sorted(1) assms(4) by auto
  ultimately have split: "split_on (CHR '','') text = qs"
    unfolding t using assms(3) by (intro split_on_join) auto
  have len: "length qs = length names" using sorted(1) by (metis size_mset)
  obtain keyed where "mapE (\<lambda>x. bindE (queue_priority c x) (\<lambda>p. Inr (x, p))) names = Inr keyed"
    using qs by (auto simp: sorted_by_priority_def bindE_Inr_iff)
  from mapE_keyed [OF this] have "\<forall>n \<in> set names. \<exists>p. queue_priority c n = Inr p" by force
  then have "\<exists>p. queue_priority c (qs ! a) = Inr p" if "a < length names" for a
    using that len \<open>set qs = set names\<close> nth_mem [of a qs] by auto
  with sorted len show ?thesis unfolding split by (metis le_less_trans)
qed

theorem queue_order_witness:
  "queues_for_worker [] [(''default'', [(''priority'', JInt 5)]), (''browser'', [(''priority'', JInt 9)])]
      [''default'', ''browser''] = Inr ''browser,default''
   \<and> mset (split_on (CHR '','') ''browser,default'') = mset [''default'', ''browser'']"
proof -
  let ?c = "[(''default'', [(''priority'', JInt 5)]), (''browser'', [(''priority'', JInt 9)])]"
  have p: "queue_priority ?c ''default'' = Inr 5" "queue_priority ?c ''browser'' = Inr 9"
    by code_simp+
  have "sort_key (\<lambda>(x, p). - p) [(''default'', 5::int), (''browser'', 9)] = [(''browser'', 9), (''default'', 5)]"
    by simp
  with p have s: "sorted_by_priority (queue_priority ?c) [''default'', ''browser''] = Inr [''browser'', ''default'']"
    by (simp only: sorted_by_priority_def mapE.simps bindE.simps list.map fst_conv)
  have "filter (\<lambda>n. map_of ?c n = None) [''default'', ''browser''] = []"
    and "join '','' [''browser'', ''default''] = ''browser,default''" by code_simp+
  with s have run: "queues_for_worker [] ?c [''default'', ''browser''] = Inr ''browser,default''"
    by (simp only: queues_for_worker_def Let_def bindE.simps list.distinct if_True not_False_eq_True if_False simp_thms)
  have "?c \<noteq> []" "\<forall>n \<in> set [''default'', ''browser'']. n \<noteq> [] \<and> CHR '','' \<notin> set n"
    "[''default'', ''browser''] \<noteq> []" by simp_all
  from queue_order [OF run this] show ?thesis using run by (elim conjE) (intro conjI)
qed

end
