(* ===== verification/Run.thy ===== *)
theory Run
  imports Crawl
begin

text \<open>
  A whole job: the crawl task plans the pages and sends the chord, the page tasks run, each on
  its own page and in any order, and the assemble task merges what they stored.  The theory
  follows the rows from the fetched pages through the object store, the results of the page
  tasks and the merge to the document under the job's result key.
\<close>

text \<open>
  The page tasks of a chord, run one after the other in the order of the list, each until it
  returns: their results, and the world they leave.  \<open>None\<close> when one of them raises.
\<close>

fun page_tasks ::
  "(int \<Rightarrow> ('s, 'r) world \<Rightarrow> ((exn + page_result) \<times> ('s, 'r) world) option) \<Rightarrow> int list
    \<Rightarrow> ('s, 'r) world \<Rightarrow> (page_result list \<times> ('s, 'r) world) option" where
  "page_tasks task [] w = Some ([], w)"
| "page_tasks task (p # ps) w =
     (case task p w of
        Some (Inr res, w1) \<Rightarrow> map_option (\<lambda>(results, w2). (res # results, w2)) (page_tasks task ps w1)
      | _ \<Rightarrow> None)"

lemma page_tasks_Cons:
  "page_tasks task (p # ps) w = Some (results, w') \<longleftrightarrow>
     (\<exists>res w1 rs. task p w = Some (Inr res, w1) \<and> page_tasks task ps w1 = Some (rs, w') \<and> results = res # rs)"
  by (auto split: option.splits sum.splits prod.splits)

text \<open>What a page task does not touch of the row of its job.\<close>

definition job_plan :: "job \<Rightarrow> job_state \<times> string \<times> string \<times> bool \<times> string option" where
  "job_plan j = (j_state j, j_target j, j_output_format j, j_incremental j, j_callback_url j)"

definition page_done :: "page_result \<Rightarrow> bool" where
  "page_done res \<longleftrightarrow> \<not> pr_failed res"

lemma page_done_sel [simp]: "page_done (done_result p n k d)" "\<not> page_done (failed_result p)"
  by (simp_all add: page_done_def done_result_def failed_result_def)

lemma result_page [simp]: "pr_page (done_result p n k d) = p" "pr_page (failed_result p) = p"
  by (simp_all add: done_result_def failed_result_def)

lemma record_page_fields:
  assumes "record_page now db i page url PagePARSED n h = Inr (True, db')" and "get_job db i = Some j"
  shows "\<exists>r. get_job db' i = Some r \<and> job_plan r = job_plan j \<and> j_pages_done r = j_pages_done j + 1
      \<and> j_pages_failed r = j_pages_failed j"
    and "page_recorded db' i q \<longleftrightarrow> q = page \<or> page_recorded db i q"
    and "completed_pages db' i = insert page (completed_pages db i)"
    and "target_snapshots db' = target_snapshots db" "drift_baselines db' = drift_baselines db"
  using assms record_page_completed [OF assms(1)]
  by (auto simp: record_page_True get_job_update job_plan_def frame page_recorded_def)

lemma record_failure_fields:
  assumes "record_failure_row now i page url e retries db = Inr db'" and "get_job db i = Some j"
  shows "\<exists>r. get_job db' i = Some r \<and> job_plan r = job_plan j \<and> j_pages_done r = j_pages_done j
      \<and> j_pages_failed r = j_pages_failed j + 1"
    and "job_pages db' = job_pages db"
    and "target_snapshots db' = target_snapshots db" "drift_baselines db' = drift_baselines db"
  using assms
  by (auto simp: record_failure_row_def record_failed_page_def Let_def get_job_update job_plan_def frame
      split: if_splits)

lemma page_recorded_frame: "job_pages db' = job_pages db \<Longrightarrow> page_recorded db' i q = page_recorded db i q"
  by (simp add: page_recorded_def)

lemma completed_frame: "job_pages db' = job_pages db \<Longrightarrow> completed_pages db' i = completed_pages db i"
  by (simp add: completed_pages_def)

text \<open>Whenever the page is fetched with success it holds these rows.\<close>

definition page_yields ::
  "settings \<Rightarrow> 'n web \<Rightarrow> 'r redis \<Rightarrow> 'r surroundings \<Rightarrow> nat \<Rightarrow> rat \<Rightarrow> target_spec
    \<Rightarrow> string option \<Rightarrow> int \<Rightarrow> row list \<Rightarrow> bool" where
  "page_yields c W R S fuel clock spec base p rows \<longleftrightarrow>
     (\<forall>r x r' gs. fetch_one c W R S fuel clock spec p base r = Some (Inr x, r', gs) \<longrightarrow> ft_rows x = rows)"

text \<open>One task that is alone with its page.\<close>

lemma page_task_step:
  assumes store: "object_store (storage D) objects"
    and j: "get_job (w_db w) i = Some j" "j_state j = RUNNING" and spec: "spec_of D (j_target j) = Inr spec"
    and site: "page_yields (cfg D) W R S fuel clock spec base p prows"
    and new: "\<not> page_recorded (w_db w) i p"
    and run: "fetch_page D W R S (\<lambda>w. w) fuel now clock retries i p base w = Some (Inr res, w')"
  shows "target_snapshots (w_db w') = target_snapshots (w_db w)"
    and "drift_baselines (w_db w') = drift_baselines (w_db w)"
    and "\<exists>j'. get_job (w_db w') i = Some j' \<and> job_plan j' = job_plan j
      \<and> j_pages_done j' = j_pages_done j + (if page_done res then 1 else 0)
      \<and> j_pages_failed j' = j_pages_failed j + (if page_done res then 0 else 1)"
    and "page_recorded (w_db w') i q \<longleftrightarrow> page_recorded (w_db w) i q \<or> page_done res \<and> q = p"
    and "completed_pages (w_db w') i = completed_pages (w_db w) i \<union> (if page_done res then {p} else {})"
    and "objects (w_objects w') = (if page_done res
      then (objects (w_objects w))(page_key i p \<mapsto> page_body_text prows) else objects (w_objects w))"
    and "res = (if page_done res then done_result p (int (length prows)) (page_key i p) False
      else failed_result p)"
proof -
  obtain out r' gs where one: "fetch_one (cfg D) W R S fuel clock spec p base (w_redis w) = Some (out, r', gs)"
    using run j spec by (auto simp: fetch_page_def Let_def split: option.splits)
  let ?w = "w\<lparr>w_redis := r'\<rparr>"
  have res: "(case out of Inr x \<Rightarrow> store_page D now i p x ?w
      | Inl e \<Rightarrow> fail_page (cfg D) now i p (failure_url spec base) e retries ?w) = (Inr res, w')"
    using run j spec one by (simp add: fetch_page_def Let_def)
  have all: "target_snapshots (w_db w') = target_snapshots (w_db w)
    \<and> drift_baselines (w_db w') = drift_baselines (w_db w)
    \<and> (\<exists>j'. get_job (w_db w') i = Some j' \<and> job_plan j' = job_plan j
      \<and> j_pages_done j' = j_pages_done j + (if page_done res then 1 else 0)
      \<and> j_pages_failed j' = j_pages_failed j + (if page_done res then 0 else 1))
    \<and> (\<forall>q. page_recorded (w_db w') i q \<longleftrightarrow> page_recorded (w_db w) i q \<or> page_done res \<and> q = p)
    \<and> completed_pages (w_db w') i = completed_pages (w_db w) i \<union> (if page_done res then {p} else {})
    \<and> objects (w_objects w') = (if page_done res
      then (objects (w_objects w))(page_key i p \<mapsto> page_body_text prows) else objects (w_objects w))
    \<and> res = (if page_done res then done_result p (int (length prows)) (page_key i p) False
      else failed_result p)"
  proof (cases out)
    case (Inl e)
    with res obtain db' where rec: "record_failure_row now i p (failure_url spec base) e retries (w_db w) = Inr db'"
      and w': "w' = ?w\<lparr>w_db := db'\<rparr>" "res = failed_result p"
      by (auto simp: fail_page_def split: failure_handling.splits sum.splits)
    note f = record_failure_fields [OF rec j(1)]
    show ?thesis using f page_recorded_frame [OF f(2)] completed_frame [OF f(2)] by (simp add: w')
  next
    case (Inr x)
    have x: "ft_rows x = prows" using site one Inr unfolding page_yields_def by blast
    from Inr res obtain n s' b db' where
      put: "put_bytes (storage D) (page_key i p) (page_body_text prows) ''application/json'' (w_objects w) = Inr (n, s')"
      and rec: "record_page now (w_db w) i p (ft_url x) PagePARSED (int (length prows)) None = Inr (b, db')"
      and w': "res = done_result p (int (length prows)) (page_key i p) (\<not> b)"
        "w' = ?w\<lparr>w_objects := s', w_db := db'\<rparr>"
      by (auto simp: store_page_def Let_def x split: sum.splits)
    have b: "b" using rec new by (cases b) (simp_all add: record_page_False)
    note f = record_page_fields [OF rec [unfolded b [THEN eqTrueI]] j(1)]
    show ?thesis using f b object_store.put_bytes_objects(2) [OF store put] by (auto simp: w')
  qed
  then show "target_snapshots (w_db w') = target_snapshots (w_db w)"
    "drift_baselines (w_db w') = drift_baselines (w_db w)"
    "\<exists>j'. get_job (w_db w') i = Some j' \<and> job_plan j' = job_plan j
      \<and> j_pages_done j' = j_pages_done j + (if page_done res then 1 else 0)
      \<and> j_pages_failed j' = j_pages_failed j + (if page_done res then 0 else 1)"
    "page_recorded (w_db w') i q \<longleftrightarrow> page_recorded (w_db w) i q \<or> page_done res \<and> q = p"
    "completed_pages (w_db w') i = completed_pages (w_db w) i \<union> (if page_done res then {p} else {})"
    "objects (w_objects w') = (if page_done res
      then (objects (w_objects w))(page_key i p \<mapsto> page_body_text prows) else objects (w_objects w))"
    "res = (if page_done res then done_result p (int (length prows)) (page_key i p) False
      else failed_result p)"
    by blast+
qed

text \<open>A result that tells what happened: a page whose rows are stored, or a page that failed.\<close>

definition honest_result :: "uuid \<Rightarrow> (int \<Rightarrow> row list) \<Rightarrow> page_result \<Rightarrow> bool" where
  "honest_result i rows res \<longleftrightarrow>
     res = done_result (pr_page res) (int (length (rows (pr_page res)))) (page_key i (pr_page res)) False
     \<or> res = failed_result (pr_page res)"

lemma page_tasks_run:
  assumes store: "object_store (storage D) objects"
    and spec: "spec_of D (j_target j) = Inr spec" and running: "j_state j = RUNNING"
    and site: "\<And>p. page_yields (cfg D) W R S fuel (clock p) spec base p (rows p)"
    and task: "task = (\<lambda>p. fetch_page D W R S (\<lambda>w. w) fuel (now p) (clock p) (retries p) i p base)"
  shows "page_tasks task ps w = Some (results, w') \<Longrightarrow> get_job (w_db w) i = Some j0 \<Longrightarrow>
    job_plan j0 = job_plan j \<Longrightarrow> distinct ps \<Longrightarrow>
    \<forall>p \<in> set ps. 0 \<le> p \<and> \<not> page_recorded (w_db w) i p \<Longrightarrow>
    map pr_page results = ps
    \<and> (\<forall>res \<in> set results. honest_result i rows res)
    \<and> (\<exists>j'. get_job (w_db w') i = Some j' \<and> job_plan j' = job_plan j
         \<and> j_pages_done j' = j_pages_done j0 + int (length (filter page_done results))
         \<and> j_pages_failed j' = j_pages_failed j0 + int (length (filter (\<lambda>x. \<not> page_done x) results)))
    \<and> completed_pages (w_db w') i = completed_pages (w_db w) i \<union> pr_page ` set (filter page_done results)
    \<and> (\<forall>res \<in> set results. page_done res \<longrightarrow>
         objects (w_objects w') (page_key i (pr_page res)) = Some (page_body_text (rows (pr_page res))))
    \<and> (\<forall>k. (\<forall>p \<in> set ps. k \<noteq> page_key i p) \<longrightarrow> objects (w_objects w') k = objects (w_objects w) k)
    \<and> target_snapshots (w_db w') = target_snapshots (w_db w)
    \<and> drift_baselines (w_db w') = drift_baselines (w_db w)"
proof (induction ps arbitrary: w j0 results)
  case Nil
  then show ?case by auto
next
  case (Cons p ps)
  from Cons.prems(1) obtain res w1 rs where run: "task p w = Some (Inr res, w1)"
    and rest: "page_tasks task ps w1 = Some (rs, w')" and results: "results = res # rs"
    by (auto simp only: page_tasks_Cons)
  have j0: "j_state j0 = RUNNING" "spec_of D (j_target j0) = Inr spec"
    using Cons.prems(3) running spec by (auto simp: job_plan_def)
  have new: "\<not> page_recorded (w_db w) i p" using Cons.prems(5) by simp
  note step = page_task_step [OF store Cons.prems(2) j0 site [of p] new run [unfolded task]]
  from step(3) obtain j1 where j1: "get_job (w_db w1) i = Some j1" "job_plan j1 = job_plan j0"
    "j_pages_done j1 = j_pages_done j0 + (if page_done res then 1 else 0)"
    "j_pages_failed j1 = j_pages_failed j0 + (if page_done res then 0 else 1)" by blast
  have fresh: "\<forall>q \<in> set ps. 0 \<le> q \<and> \<not> page_recorded (w_db w1) i q"
    using Cons.prems(4,5) step(4) by auto
  have "job_plan j1 = job_plan j" using j1(2) Cons.prems(3) by simp
  note ih = Cons.IH [OF rest j1(1) this _ fresh]
  have d: "distinct ps" "p \<notin> set ps" using Cons.prems(4) by simp_all
  note ih = ih [OF d(1)]
  have page: "pr_page res = p" using step(7) by (auto split: if_splits)
  have keep: "objects (w_objects w') (page_key i p) = objects (w_objects w1) (page_key i p)"
    using ih Cons.prems(5) d(2) by (metis list.set_intros(1,2) page_key_inj)
  from ih obtain j' where j': "get_job (w_db w') i = Some j'" "job_plan j' = job_plan j"
    "j_pages_done j' = j_pages_done j1 + int (length (filter page_done rs))"
    "j_pages_failed j' = j_pages_failed j1 + int (length (filter (\<lambda>x. \<not> page_done x) rs))" by blast
  have c1: "map pr_page results = p # ps" using ih results page by simp
  have "honest_result i rows res" using step(7) page by (simp add: honest_result_def split: if_splits)
  then have c2: "\<forall>res \<in> set results. honest_result i rows res" using ih results by simp
  have c3: "\<exists>j'. get_job (w_db w') i = Some j' \<and> job_plan j' = job_plan j
         \<and> j_pages_done j' = j_pages_done j0 + int (length (filter page_done results))
         \<and> j_pages_failed j' = j_pages_failed j0 + int (length (filter (\<lambda>x. \<not> page_done x) results))"
    using j' j1 results by simp
  have c4: "completed_pages (w_db w') i = completed_pages (w_db w) i \<union> pr_page ` set (filter page_done results)"
    using ih step(5) results page by auto
  have c5: "\<forall>res \<in> set results. page_done res \<longrightarrow>
         objects (w_objects w') (page_key i (pr_page res)) = Some (page_body_text (rows (pr_page res)))"
    using ih results page keep step(6) by simp
  have c6: "\<forall>k. (\<forall>p \<in> set (p # ps). k \<noteq> page_key i p) \<longrightarrow> objects (w_objects w') k = objects (w_objects w) k"
    using ih step(6) by simp
  have c7: "target_snapshots (w_db w') = target_snapshots (w_db w)"
    "drift_baselines (w_db w') = drift_baselines (w_db w)" using ih step(1,2) by simp_all
  show ?case using c1 c2 c3 c4 c5 c6 c7 by blast
qed

lemma load_rows_results:
  assumes honest: "\<forall>res \<in> set results. honest_result i rows res"
    and body: "\<forall>res \<in> set results. page_done res \<longrightarrow>
      o_get (storage D) (page_key i (pr_page res)) s = Inr (page_body_text (rows (pr_page res)))"
    and ok: "\<And>p r. r \<in> set (rows p) \<Longrightarrow> row_ok r"
  shows "load_rows D s results = Inr (concat (map rows (sort (map pr_page (filter page_done results)))))"
proof -
  let ?g = "\<lambda>res. if page_done res then rows (pr_page res) else []"
  have one: "page_rows D s res = Inr (?g res)" if "res \<in> set results" for res
  proof (cases "page_done res")
    case True
    have "page_done (failed_result p) = False" for p by simp
    with True honest that obtain n where "pr_key res = Some (page_key i (pr_page res))"
      unfolding honest_result_def done_result_def by (metis page_result.select_convs(3))
    moreover have "page_key i (pr_page res) \<noteq> []" by (simp add: page_key_def)
    ultimately show ?thesis
      using True body that rows_of_stored [of "rows (pr_page res)"] ok by (simp add: page_rows_def)
  next
    case False
    have "page_done (done_result p n k d)" for p n k d by simp
    with False honest that have "pr_key res = None"
      unfolding honest_result_def failed_result_def by (metis page_result.select_convs(3))
    with False show ?thesis by (simp add: page_rows_def)
  qed
  have "mapE (page_rows D s) rs = Inr (map ?g rs)" if "set rs \<subseteq> set results" for rs
    using that one by (induction rs) simp_all
  then have load: "load_rows D s results = Inr (concat (map ?g (sort_key pr_page results)))"
    by (simp add: load_rows_def)
  have "concat (map ?g rs) = concat (map rows (map pr_page (filter page_done rs)))"
    for rs by (induction rs) simp_all
  then have "concat (map ?g (sort_key pr_page results))
      = concat (map rows (map pr_page (sort_key pr_page (filter page_done results))))"
    by (simp only: filter_sort)
  moreover have "map pr_page (sort_key pr_page rs) = sort (map pr_page rs)"
    for rs :: "page_result list" by (rule properties_for_sort [symmetric]) simp_all
  ultimately show ?thesis using load by (simp only:)
qed

lemma diff_frame:
  "target_snapshots db' = target_snapshots db \<Longrightarrow>
     diff_against_snapshot sha db' spec rows = diff_against_snapshot sha db spec rows"
  by (simp add: diff_against_snapshot_def stored_hashes_def)

lemma begin_crawl_frame:
  "begin_crawl c now db i = Inr (out, db') \<Longrightarrow>
     target_snapshots db' = target_snapshots db \<and> drift_baselines db' = drift_baselines db"
  by (auto simp: begin_crawl_def bump_lost_worker_def start_job_def transition_def park_dead_letter_def
      bindE_Inr_iff Let_def frame split: option.splits if_splits prod.splits)

lemma store_snapshot_fits:
  assumes "ex_row_key (t_extraction spec) \<noteq> []" and "get_job db i \<noteq> None" and "length (t_name spec) \<le> 64"
    and "\<And>r. r \<in> set rows \<Longrightarrow> length (row_identity r spec) \<le> 128" and "\<And>s. length (sha s) \<le> 64"
  shows "\<exists>db'. store_snapshot sha now db spec (kept_rows (dedupe rows spec)) i = Inr db'"
proof -
  let ?kept = "kept_rows (dedupe rows spec)"
  have kept: "?kept = firsts (\<lambda>r. row_identity r spec) rows {}" using dedupe_keyed(1) [OF assms(1)] .
  note props = firsts_props [of "\<lambda>r. row_identity r spec" rows "{}", folded kept]
  have sub: "set ?kept \<subseteq> set rows" using props(3) by (auto elim: list_emb_set)
  have "distinct (map s_row_key (map (snapshot_row sha now spec i) ?kept))"
    using props(1) by (simp add: comp_def)
  moreover have "\<not> list_ex snapshot_too_long (map (snapshot_row sha now spec i) ?kept)"
    using sub assms(3-5)
    by (auto simp: list_ex_iff snapshot_too_long_def snapshot_row_def row_hash_def not_less)
  ultimately show ?thesis using assms(2) by (auto simp: store_snapshot_def Let_def simp del: map_map)
qed

lemma finalise_runs:
  assumes put: "\<And>k d c s. \<exists>s'. put_bytes (storage D) k d c s = Inr (length d, s')"
    and j: "get_job (w_db w) i = Some j" "j_state j = RUNNING" and spec: "spec_of D (j_target j) = Inr spec"
    and rows: "load_rows D (w_objects w) results = Inr rows"
    and snap: "\<exists>db'. store_snapshot (sha256 D) now (w_db w) spec (kept_rows (dedupe rows spec)) i = Inr db'"
  shows "\<exists>st n w'. finalise_job D undisturbed now i results w
      = (Inr (FinalDone st n (result_key_of i (j_output_format j))), w')
    \<and> job_pages (w_db w') = job_pages (w_db w)"
proof -
  obtain p where p: "p = \<lparr>pl_spec = spec, pl_format = j_output_format j, pl_incremental = j_incremental j,
      pl_callback = j_callback_url j, pl_failed = j_pages_failed j\<rparr>" by simp
  have plan: "finalise_plan D (w_db w) i = Inr (Inr p)" using j spec by (auto simp: finalise_plan_go p)
  obtain emitted v db2 where m: "finalise_merge D now (w_db w) i p results (kept_rows (dedupe rows spec))
      = Inr (emitted, v, db2)" using snap by (auto simp: finalise_merge_def p Let_def)
  note f = finalise_merge_frame [OF m]
  have j2: "get_job db2 i = Some j" using f(1) j(1) by (simp add: get_job_def)
  obtain s' where s': "put_bytes (storage D) (result_key_of i (j_output_format j)) (payload_of p emitted)
      (if j_output_format j = ''csv'' then ''text/csv'' else ''application/json'') (w_objects w)
      = Inr (length (payload_of p emitted), s')" using put by blast
  have "can_transition RUNNING (fst (final_state v (pl_failed p)))" by (rule final_state_reachable)
  then obtain db4 where wr: "finalise_write now db2 i (result_key_of i (j_output_format j))
      (length (payload_of p emitted)) (int (length emitted)) (final_state v (pl_failed p)) = Inr (Some db4)"
    "job_pages db4 = job_pages db2"
    using j2 j(2) by (auto simp: finalise_write_def transition_def Let_def assert_transition_def frame)
  have "w_db (notify p i st n x) = w_db x" for st n and x :: "('a, 'b) world"
    by (simp add: notify_def split: option.splits)
  with plan rows m s' wr f(2) show ?thesis
    by (simp add: finalise_job_def p Let_def)
qed

text \<open>A job that no task has touched.\<close>

definition fresh_job :: "db \<Rightarrow> uuid \<Rightarrow> job \<Rightarrow> bool" where
  "fresh_job db i j \<longleftrightarrow> get_job db i = Some j \<and> j_state j = PENDING \<and> j_pages_done j = 0
     \<and> j_pages_failed j = 0 \<and> 1 \<le> j_max_pages j \<and> (\<forall>p. \<not> page_recorded db i p)"

lemma page_yields_fetcher:
  assumes site: "\<And>url x. page_url spec p base = Inr url \<Longrightarrow> run_fetcher W spec p url = Inr x \<Longrightarrow> ft_rows x = rows"
  shows "page_yields c W R S fuel clock spec base p rows"
  unfolding page_yields_def
proof (intro allI impI)
  fix r x r' gs
  assume run: "fetch_one c W R S fuel clock spec p base r = Some (Inr x, r', gs)"
  obtain url d r2 waited where url: "page_url spec p base = Inr url"
    and x: "(Inr x, r') = after_request c R url waited (run_fetcher W spec p url) (sr_during S r2)"
    using fetch_one_request [OF run fetch_one_success [OF run]] by metis
  from x obtain y where "run_fetcher W spec p url = Inr y" "ft_rows x = ft_rows y"
    by (auto simp: after_request_def split: sum.splits prod.splits)
  with site url show "ft_rows x = rows" by simp
qed

lemma fresh_crawl:
  assumes fresh: "fresh_job (w_db w) i j" and spec: "spec_of D (j_target j) = Inr spec"
    and crawl: "crawl_job D now i w = (out, w1)"
  shows "out = Inr (CrawlFannedOut (nat (j_max_pages j)))"
    and "w_sent w1 = w_sent w @ [ChordMsg i [1..j_max_pages j] (j_start_url j)
      (if t_fetcher spec = Browser then ''browser'' else ''default'')]"
    and "get_job (w_db w1) i = Some (begun_row now j)"
    and "job_pages (w_db w1) = job_pages (w_db w)" "w_objects w1 = w_objects w"
    and "target_snapshots (w_db w1) = target_snapshots (w_db w)"
    and "drift_baselines (w_db w1) = drift_baselines (w_db w)"
proof -
  have j: "get_job (w_db w) i = Some j" "j_state j = PENDING \<or> j_state j = PAUSED"
    using fresh by (simp_all add: fresh_job_def)
  from begin_crawl_first [OF j, of "cfg D" now] obtain db' where
    b: "begin_crawl (cfg D) now (w_db w) i = Inr (Inr (plan_for (w_db w) j), db')"
      "get_job db' = (get_job (w_db w))(i \<mapsto> begun_row now j)" "job_pages db' = job_pages (w_db w)" by blast
  have "completed_pages (w_db w) i = {}"
    using fresh by (auto simp: fresh_job_def completed_pages_def page_recorded_def)
  then have plan: "cp_pending (plan_for (w_db w) j) = [1..j_max_pages j]" "cp_target (plan_for (w_db w) j) = j_target j"
    "cp_base (plan_for (w_db w) j) = j_start_url j"
    using get_job_id [OF j(1)] by (simp_all add: plan_for_def pages_to_fetch_def)
  have ne: "[1..j_max_pages j] \<noteq> []" using fresh by (simp add: fresh_job_def)
  have run: "out = Inr (CrawlFannedOut (nat (j_max_pages j)))"
    "w1 = send (ChordMsg i [1..j_max_pages j] (j_start_url j)
      (if t_fetcher spec = Browser then ''browser'' else ''default'')) (w\<lparr>w_db := db'\<rparr>)"
    using crawl b plan spec ne by (auto simp: crawl_job_def Let_def)
  note frame = begin_crawl_frame [OF b(1)]
  show "out = Inr (CrawlFannedOut (nat (j_max_pages j)))" by (rule run)
  show "w_sent w1 = w_sent w @ [ChordMsg i [1..j_max_pages j] (j_start_url j)
      (if t_fetcher spec = Browser then ''browser'' else ''default'')]"
    "get_job (w_db w1) i = Some (begun_row now j)" "job_pages (w_db w1) = job_pages (w_db w)"
    "w_objects w1 = w_objects w" "target_snapshots (w_db w1) = target_snapshots (w_db w)"
    "drift_baselines (w_db w1) = drift_baselines (w_db w)"
    using b frame by (simp_all add: run(2))
qed

lemma begun_plan: "job_plan (begun_row now j) = (RUNNING, j_target j, j_output_format j, j_incremental j, j_callback_url j)"
  "j_pages_done (begun_row now j) = j_pages_done j" "j_pages_failed (begun_row now j) = j_pages_failed j"
  by (simp_all add: job_plan_def begun_row_def)


text \<open>A site that lets its first page be fetched and forbids the second.\<close>

definition first_page :: string where
  "first_page = ''https://a.gov/s?rows=25&q=x&p=1#top''"

definition half_open_web :: "unit web" where
  "half_open_web = sample_web\<lparr>wb_robots := (\<lambda>url agent. Inr (url = first_page))\<rparr>"

definition fresh_db :: db where
  "fresh_db = empty_db\<lparr>jobs := [new_job 0 ''j1''
     (sample_fields\<lparr>n_start_url := t_start_url sample_spec, n_max_pages := 2\<rparr>)]\<rparr>"

definition fresh_row :: job where
  "fresh_row = new_job 0 ''j1'' (sample_fields\<lparr>n_start_url := t_start_url sample_spec, n_max_pages := 2\<rparr>)"

lemma fresh_sample: "fresh_job (w_db (sample_world fresh_db)) ''j1'' fresh_row"
  by (simp add: fresh_job_def fresh_db_def fresh_row_def get_job_def new_job_def sample_fields_def empty_db_def
      page_recorded_def stored_page_def)

lemma half_open_sel:
  "wb_dns half_open_web = sample_dns" "wb_robots half_open_web url agent = Inr (url = first_page)"
  "http_request half_open_web = http_request sample_web" "wb_html half_open_web = wb_html sample_web"
  by (simp_all add: half_open_web_def http_request_def fun_eq_iff)

lemma half_open_rows:
  "http_fetch half_open_web sample_spec p url = Inr \<lparr>ft_page = p, ft_url = url, ft_rows = sample_rows_fetched,
     ft_status = Some 200, ft_bytes_in = 60, ft_allowed = 0, ft_blocked = 0, ft_waited = 0\<rparr>"
proof -
  have "contains ''json'' ''application/json''" "status_error 200 url = None"
    "rows_from_json sample_page sample_spec = sample_rows_fetched" "t_method sample_spec = GET"
    unfolding status_error_def by code_simp+
  then show ?thesis
    by (simp add: http_fetch_def half_open_sel http_request_def sample_web_def)
qed

lemma half_open_fetches:
  "page_url sample_spec 2 (Some (t_start_url sample_spec)) = Inr ''https://a.gov/s?rows=25&q=x&p=2#top''"
  "page_url sample_spec 1 (Some (t_start_url sample_spec)) = Inr first_page"
  "domain_of first_page = Inr ''a.gov''" "t_respect_robots sample_spec" "t_rate_per_second sample_spec = 1"
  "t_fetcher sample_spec \<noteq> Browser" "''https://a.gov/s?rows=25&q=x&p=2#top'' \<noteq> first_page"
  by code_simp+

lemma page_2_allowed:
  "assert_allowed sample_dns ''https://a.gov/s?rows=25&q=x&p=2#top'' [''a.gov''] True
     = Inr ''https://a.gov/s?rows=25&q=x&p=2#top''"
  "assert_allowed sample_dns first_page [''a.gov''] True = Inr first_page"
proof -
  let ?u = "\<lambda>q. \<lparr>u_scheme = ''https'', u_netloc = ''a.gov'', u_path = ''/s'', u_params = [],
    u_query = q, u_fragment = ''top''\<rparr>"
  have "hostname (?u q) = Some ''a.gov''" "port (?u q) = Inr None" "lower ''a.gov'' = ''a.gov''" for q
    by code_simp+
  moreover have "urlparse ''https://a.gov/s?rows=25&q=x&p=2#top'' = Inr (?u ''rows=25&q=x&p=2'')"
    "urlparse first_page = Inr (?u ''rows=25&q=x&p=1'')" by code_simp+
  moreover have "\<not> non_public (V4 (quad 8 8 8 8))"
    by (simp add: ipv4_ranges between_def quad_def)
  ultimately show
    "assert_allowed sample_dns ''https://a.gov/s?rows=25&q=x&p=2#top'' [''a.gov''] True
     = Inr ''https://a.gov/s?rows=25&q=x&p=2#top''"
    "assert_allowed sample_dns first_page [''a.gov''] True = Inr first_page"
    by (simp_all add: assert_allowed_Inr assert_public_Inr allowed_schemes_def sample_dns_def)
qed

lemma half_open_one:
  "\<exists>r'. fetch_one sample_settings half_open_web mem_redis alone 2 0 sample_spec 2 (Some (t_start_url sample_spec)) r
     = Some (Inl (PermanentFetchError ''robots.txt disallows https://a.gov/s?rows=25&q=x&p=2#top''), r, [CheckUrl, AskRobots])"
  "\<exists>r' x gs. fetch_one sample_settings half_open_web mem_redis alone 2 0 sample_spec 1 (Some (t_start_url sample_spec))
     mem_empty = Some (Inr x, r', gs) \<and> ft_rows x = sample_rows_fetched"
proof -
  obtain r2 where slot: "wait_for_slot 2 mem_redis (\<lambda>_ r. r) limiter_prefix (domain_bucket ''a.gov'')
      1 120 1 0 0 0 mem_empty = Some (Inr 0, r2)" using sample_slot by blast
  have closed: "assert_closed mem_redis first_page mem_empty = (Inr CLOSED, mem_empty)"
    by (simp add: assert_closed_def circuit_state_of_def half_open_fetches mem_redis_def mem_live_def
        mem_empty_def still_live_def ttl_of_def)
  show "\<exists>r'. fetch_one sample_settings half_open_web mem_redis alone 2 0 sample_spec 2 (Some (t_start_url sample_spec)) r
     = Some (Inl (PermanentFetchError ''robots.txt disallows https://a.gov/s?rows=25&q=x&p=2#top''), r, [CheckUrl, AskRobots])"
    by (simp add: fetch_one_def half_open_fetches page_2_allowed robots_check_def half_open_sel Let_def)
  show "\<exists>r' x gs. fetch_one sample_settings half_open_web mem_redis alone 2 0 sample_spec 1 (Some (t_start_url sample_spec))
     mem_empty = Some (Inr x, r', gs) \<and> ft_rows x = sample_rows_fetched"
    using slot closed
    by (simp add: fetch_one_def half_open_fetches page_2_allowed Let_def robots_check_def half_open_sel
        run_fetcher_def half_open_rows after_request_def record_success_def alone_def)
qed

lemma half_open_pages:
  assumes "get_job (w_db w) ''j1'' = Some (begun_row 1 fresh_row)" "w_redis w = mem_empty"
    "job_pages (w_db w) = []" "w_objects w = empty_store"
  shows "\<exists>results w2. page_tasks (\<lambda>p. fetch_page sample_deployment half_open_web mem_redis alone (\<lambda>w. w) 2 5 0 0 ''j1'' p
      (Some (t_start_url sample_spec))) [2, 1] w = Some (results, w2)
    \<and> map pr_page (filter page_done results) = [1]"
proof -
  let ?task = "\<lambda>p. fetch_page sample_deployment half_open_web mem_redis alone (\<lambda>w. w) 2 5 0 0 ''j1'' p
      (Some (t_start_url sample_spec))"
  have j: "j_target (begun_row 1 fresh_row) = ''grants''" "j_state (begun_row 1 fresh_row) \<noteq> CANCELLED"
    by (simp_all add: fresh_row_def new_job_def sample_fields_def)
  obtain db1 where rec: "record_failure_row 5 ''j1'' 2 (failure_url sample_spec (Some (t_start_url sample_spec)))
    (PermanentFetchError ''robots.txt disallows https://a.gov/s?rows=25&q=x&p=2#top'') 0 (w_db w) = Inr db1"
    using assms(1) by (simp add: record_failure_row_def record_failed_page_def Let_def)
  let ?w1 = "w\<lparr>w_db := db1\<rparr>"
  have p2: "?task 2 w = Some (Inr (failed_result 2), ?w1)"
    using assms(1,2) half_open_one(1) [of "w_redis w"] rec j
    by (simp add: fetch_page_def fail_page_def handle_failure_def)
  obtain j1 where j1: "get_job db1 ''j1'' = Some j1" "job_plan j1 = job_plan (begun_row 1 fresh_row)"
    using record_failure_fields(1) [OF rec assms(1)] by blast
  have "\<not> page_recorded db1 ''j1'' 1"
    using record_failure_fields(2) [OF rec assms(1)] assms(3) by (simp add: page_recorded_def stored_page_def)
  moreover obtain x r' gs where x: "fetch_one sample_settings half_open_web mem_redis alone 2 0 sample_spec 1
     (Some (t_start_url sample_spec)) mem_empty = Some (Inr x, r', gs)" "ft_rows x = sample_rows_fetched"
    using half_open_one(2) by blast
  ultimately obtain db2 where "record_page 5 db1 ''j1'' 1 (ft_url x) PagePARSED 2 None = Inr (True, db2)"
    using j1 by (auto simp: record_page_True)
  then obtain w2 where p1: "?task 1 ?w1 = Some (Inr (done_result 1 2 (page_key ''j1'' 1) False), w2)"
    using x j1 j assms(2,4) by (auto simp: fetch_page_def store_page_def sample_rows_fetched_def Let_def job_plan_def)
  show ?thesis using p2 p1 by (auto simp: page_tasks_Cons)
qed


end
