(* ===== verification/System.thy ===== *)
theory System
  imports Schedule Run
begin

inductive db_step :: "'s deployment \<Rightarrow> db \<Rightarrow> db \<Rightarrow> bool" for D :: "'s deployment" where
  Submitted: "create_job now i n db = Inr (j, db') \<Longrightarrow> n_state n = PENDING \<Longrightarrow>
    db_step D db (db\<lparr>jobs := jobs db @ [j\<lparr>j_celery_task_id := Some i\<rparr>]\<rparr>)"
| Begun: "begin_crawl (cfg D) now db i = Inr (out, db') \<Longrightarrow> db_step D db db'"
| PageStored: "record_page now db i page url PagePARSED (int n) None = Inr (b, db') \<Longrightarrow> db_step D db db'"
| PageFailed: "record_failure_row now i page url e retries db = Inr db' \<Longrightarrow> db_step D db db'"
| Merged: "finalise_merge D now db i p results rows = Inr (emitted, v, db') \<Longrightarrow> db_step D db db'"
| Finalised: "finalise_write now db i key bytes n (final_state v k) = Inr (Some db') \<Longrightarrow> db_step D db db'"
| Cancelled: "get_job db i = Some j \<Longrightarrow>
    transition now db j j CANCELLED (Some ''cancelled by caller'') = Inr (j', db') \<Longrightarrow> db_step D db db'"
| Parked: "park_db now db i why detail payload = Inr db' \<Longrightarrow> db_step D db db'"

abbreviation db_steps :: "'s deployment \<Rightarrow> db \<Rightarrow> db \<Rightarrow> bool" where
  "db_steps D \<equiv> rtranclp (db_step D)"

inductive_cases db_stepE: "db_step D db db'"


definition submission :: "job \<Rightarrow> uuid \<times> string \<times> string \<times> int \<times> string \<times> string option \<times> datetime" where
  "submission j = (j_id j, j_target j, j_start_url j, j_max_pages j, j_api_key_id j,
     j_idempotency_key j, j_created_at j)"

definition outcome :: "job \<Rightarrow> job_state \<times> string option \<times> int option \<times> string option \<times> datetime option" where
  "outcome j = (j_state j, j_result_key j, j_result_bytes j, j_error j, j_finished_at j)"

definition job_follows :: "job \<Rightarrow> job \<Rightarrow> bool" where
  "job_follows j r \<longleftrightarrow> submission r = submission j \<and> evolves (j_state j) (j_state r)
     \<and> (terminal (j_state j) \<longrightarrow> outcome r = outcome j)
     \<and> j_pages_done j \<le> j_pages_done r \<and> j_pages_failed j \<le> j_pages_failed r
     \<and> j_lost_worker_count j \<le> j_lost_worker_count r"

lemma job_follows_refl [simp]: "job_follows j j"
  by (simp add: job_follows_def evolves_refl)

lemma job_follows_trans: "job_follows a b \<Longrightarrow> job_follows b c \<Longrightarrow> job_follows a c"
  using evolves_trans [of "j_state b" "j_state c" "j_state a"]
  by (auto simp: job_follows_def outcome_def)

text \<open>What a job's row is allowed to look like.\<close>

definition row_fits :: "settings \<Rightarrow> job \<Rightarrow> bool" where
  "row_fits c j \<longleftrightarrow> j_state j \<notin> {PAUSED, FAILED}
     \<and> (terminal (j_state j) \<longleftrightarrow> j_finished_at j \<noteq> None)
     \<and> (j_state j \<in> {SUCCEEDED, PARTIAL, SUSPECT} \<longleftrightarrow> j_result_key j \<noteq> None)
     \<and> (j_state j = PENDING \<longrightarrow> j_attempts j = 0 \<and> j_lost_worker_count j = 0)
     \<and> (j_started_at j = None \<longleftrightarrow> j_attempts j = 0)
     \<and> 0 \<le> j_lost_worker_count j \<and> j_lost_worker_count j \<le> max 1 (poison_pill_threshold c)
     \<and> (j_state j = RUNNING \<longrightarrow> j_lost_worker_count j < max 1 (poison_pill_threshold c)
          \<and> j_attempts j = j_lost_worker_count j + 1)"

lemma evolves_one: "can_transition a b \<Longrightarrow> evolves a b"
  by (rule evolves_step [OF evolves_refl])

lemma begun_follows:
  assumes "\<not> terminal (j_state j)"
  shows "job_follows j (begun_row now j)"
proof -
  have "evolves (j_state j) RUNNING" using assms by (cases "j_state j") (simp_all add: evolves_one evolves_refl)
  with assms show ?thesis
    by (simp add: job_follows_def submission_def begun_row_def evolves_refl)
qed

lemma poisoned_follows: "j_state j = RUNNING \<Longrightarrow> job_follows j (poisoned_row now j)"
  by (simp add: job_follows_def submission_def poisoned_row_def evolves_one)

text \<open>Rows of jobs before and after.\<close>

definition accepted_row :: "job \<Rightarrow> bool" where
  "accepted_row j \<longleftrightarrow> j_state j = PENDING \<and> \<not> too_long j \<and> 0 < j_max_pages j \<and> j_max_pages j \<le> 2147483647"

definition moves :: "(job \<Rightarrow> job \<Rightarrow> bool) \<Rightarrow> db \<Rightarrow> db \<Rightarrow> bool" where
  "moves P db db' \<longleftrightarrow> (\<forall>i j. get_job db i = Some j \<longrightarrow> (\<exists>r. get_job db' i = Some r \<and> (r = j \<or> P j r)))
     \<and> (\<forall>i r. get_job db i = None \<longrightarrow> get_job db' i = Some r \<longrightarrow>
          (\<exists>now n. r = (new_job now i n)\<lparr>j_celery_task_id := Some i\<rparr> \<and> accepted_row (new_job now i n)))"

lemma moves_old: "moves P db db' \<Longrightarrow> get_job db i = Some j \<Longrightarrow> \<exists>r. get_job db' i = Some r \<and> (r = j \<or> P j r)"
  unfolding moves_def by blast

lemma moves_new: "moves P db db' \<Longrightarrow> get_job db i = None \<Longrightarrow> get_job db' i = Some r \<Longrightarrow>
    \<exists>now n. r = (new_job now i n)\<lparr>j_celery_task_id := Some i\<rparr> \<and> accepted_row (new_job now i n)"
  unfolding moves_def by blast

lemma moves_same: "get_job db' = get_job db \<Longrightarrow> moves P db db'"
  by (simp add: moves_def)

lemma moves_upd:
  "get_job db i = Some j \<Longrightarrow> get_job db' = (get_job db)(i \<mapsto> r) \<Longrightarrow> r = j \<or> P j r \<Longrightarrow> moves P db db'"
  by (auto simp: moves_def)

text \<open>A row of a job may be changed by a session in these ways.\<close>

inductive row_step :: "settings \<Rightarrow> job \<Rightarrow> job \<Rightarrow> bool" for c :: settings where
  Begin: "\<not> terminal (j_state j) \<Longrightarrow>
    (j_state j = RUNNING \<longrightarrow> j_lost_worker_count j + 1 < poison_pill_threshold c) \<Longrightarrow>
    row_step c j (begun_row now j)"
| Poison: "j_state j = RUNNING \<Longrightarrow> poison_pill_threshold c \<le> j_lost_worker_count j + 1 \<Longrightarrow>
    row_step c j (poisoned_row now j)"
| Count: "a \<ge> 0 \<Longrightarrow> f \<ge> 0 \<Longrightarrow>
    row_step c j (j\<lparr>j_pages_done := j_pages_done j + a, j_pages_failed := j_pages_failed j + f,
      j_rows := rows, j_updated_at := now\<rparr>)"
| Finish: "can_transition (j_state j) (fst st) \<Longrightarrow> fst st \<in> {SUCCEEDED, PARTIAL, SUSPECT} \<Longrightarrow>
    row_step c j ((transition_cols now (fst st) (snd st)
      (j\<lparr>j_result_key := Some key, j_result_bytes := Some bytes, j_rows := n\<rparr>))\<lparr>j_updated_at := now\<rparr>)"
| Stop: "can_transition (j_state j) t \<Longrightarrow> t \<in> {CANCELLED, DEAD_LETTER} \<Longrightarrow>
    row_step c j ((transition_cols now t err j)\<lparr>j_updated_at := now\<rparr>)"

lemma row_step_follows: "row_step c j r \<Longrightarrow> job_follows j r"
proof (induction rule: row_step.induct)
  case (Finish j st now key bytes n)
  then show ?case
    using terminal_no_transition
    by (auto simp: job_follows_def submission_def evolves_one)
next
  case (Stop j t now err)
  then show ?case
    using terminal_no_transition
    by (auto simp: job_follows_def submission_def evolves_one)
qed (auto simp: begun_follows poisoned_follows, auto simp: job_follows_def submission_def outcome_def evolves_refl)

lemma row_step_fits: "row_step c j r \<Longrightarrow> row_fits c j \<Longrightarrow> row_fits c r"
proof (induction rule: row_step.induct)
  case (Begin j now)
  then show ?case
    by (cases "j_state j") (auto simp: row_fits_def begun_row_def transition_cols_def)
next
  case (Poison j now)
  then show ?case by (auto simp: row_fits_def poisoned_row_def transition_cols_def)
next
  case (Finish j st now key bytes n)
  then show ?case
    using terminal_no_transition [of "j_state j"]
    by (cases "j_state j") (auto simp: row_fits_def transition_cols_def)
next
  case (Stop j t now err)
  then show ?case
    using terminal_no_transition [of "j_state j"]
    by (cases "j_state j") (auto simp: row_fits_def transition_cols_def)
qed (simp add: row_fits_def)

lemma moves_flush:
  assumes j: "get_job db i = Some j" and i: "j_id j' = i" and row: "(flush_cols j j' j) = j'"
    and step: "row_step c j (j'\<lparr>j_updated_at := now\<rparr>)"
  shows "moves (row_step c) db (flush_job now j j' db)"
proof (cases "j' = j")
  case True
  then show ?thesis by (simp add: flush_job_def moves_same)
next
  case False
  have id: "j_id j = i" using get_job_id [OF j] .
  have "get_job (flush_job now j j' db) = (get_job db)(i \<mapsto> j'\<lparr>j_updated_at := now\<rparr>)"
    using get_job_flush_own [of db j j now j'] j False by (simp add: id row)
  from moves_upd [OF j this] step show ?thesis by blast
qed

lemma moves_count:
  assumes "\<And>j. f j = j\<lparr>j_pages_done := j_pages_done j + a, j_pages_failed := j_pages_failed j + b,
      j_rows := g j\<rparr>" and "0 \<le> a" "0 \<le> b" and db: "get_job db0 = get_job db"
  shows "moves (row_step c) db (update_job now i f db0)"
proof -
  have "get_job (update_job now i f db0) k =
      (if k = i then map_option (\<lambda>j. (f j)\<lparr>j_updated_at := now\<rparr>) (get_job db k) else get_job db k)" for k
    by (subst get_job_update) (simp_all add: assms(1) db)
  moreover have "row_step c j ((f j)\<lparr>j_updated_at := now\<rparr>)" for j
    unfolding assms(1) using row_step.Count [OF assms(2,3), of c j now "g j"] by simp
  ultimately show ?thesis by (auto simp: moves_def)
qed

lemma flush_cols_transition [simp]: "flush_cols j (transition_cols now t e j) j = transition_cols now t e j"
  by (simp add: flush_cols_def transition_cols_def)

lemma db_step_moves: "db_step D db db' \<Longrightarrow> moves (row_step (cfg D)) db db'"
proof (induction rule: db_step.induct)
  case (Submitted now i n db j db')
  then have j: "j = new_job now i n" and new: "get_job db i = None" and acc: "accepted_row (new_job now i n)"
    by (auto simp: create_job_Inr accepted_row_def) (simp add: new_job_def)
  have id: "j_id (j\<lparr>j_celery_task_id := Some i\<rparr>) = i" by (simp add: j new_job_def)
  have "\<exists>now n. j\<lparr>j_celery_task_id := Some i\<rparr> = (new_job now i n)\<lparr>j_celery_task_id := Some i\<rparr>
      \<and> accepted_row (new_job now i n)"
    using j acc by blast
  with id new show ?case
    by (auto simp: moves_def get_job_append split: option.splits if_splits)
next
  case (Begun now db i out db')
  then show ?case
  proof (cases rule: begin_crawl_cases)
    case idle
    then show ?thesis by (simp add: moves_same)
  next
    case (begun j)
    then show ?thesis using row_step.Begin by (intro moves_upd) auto
  next
    case (poisoned j)
    then show ?thesis using row_step.Poison by (intro moves_upd) auto
  qed
next
  case (PageStored now db i page url n b db')
  show ?case
  proof (cases b)
    case True
    with PageStored show ?thesis
      by (auto simp: record_page_True intro!: moves_count [where a = 1 and b = 0 and g = "\<lambda>j. j_rows j + int n"])
  next
    case False
    with PageStored show ?thesis by (simp add: record_page_False moves_same)
  qed
next
  case (PageFailed now i page url e retries db db')
  then show ?case
    by (auto simp: record_failure_row_def record_failed_page_def Let_def fun_eq_iff split: if_splits
        intro!: moves_count [where a = 0 and b = 1 and g = j_rows])
next
  case (Merged now db i p results rows emitted v db')
  from finalise_merge_frame(1) [OF this] show ?case by (intro moves_same) (simp add: get_job_def fun_eq_iff)
next
  case (Finalised now db i key bytes n v k db')
  let ?st = "final_state v k"
  obtain j where j: "get_job db i = Some j" "can_transition (j_state j) (fst ?st)"
    and db': "db' = flush_job now j (transition_cols now (fst ?st) (snd ?st)
       (j\<lparr>j_result_key := Some key, j_result_bytes := Some (int bytes), j_rows := n\<rparr>)) db"
    using Finalised by (auto simp: finalise_write_def bindE_Inr_iff transition_Inr split: option.splits)
  have "fst ?st \<in> {SUCCEEDED, PARTIAL, SUSPECT}" by (auto simp: final_state_def)
  from row_step.Finish [OF j(2) this] show ?case unfolding db' using get_job_id [OF j(1)]
    by (intro moves_flush [OF j(1)]) (simp_all add: flush_cols_def transition_cols_def)
next
  case (Cancelled db i j now j' db')
  then have "can_transition (j_state j) CANCELLED"
    "db' = flush_job now j (transition_cols now CANCELLED (Some ''cancelled by caller'') j) db"
    by (simp_all add: transition_Inr)
  with row_step.Stop [of j CANCELLED] show ?case using get_job_id [OF Cancelled(1)]
    by (simp add: moves_flush [OF Cancelled(1)])
next
  case (Parked now db i why detail payload db')
  show ?case
  proof (cases "get_job db i")
    case None
    with Parked show ?thesis by (simp add: park_db_def moves_same)
  next
    case (Some j)
    obtain db1 where db1: "park_dead_letter now db i why detail (case payload of None \<Rightarrow> [] | Some p \<Rightarrow> p) = Inr db1"
      and rest: "(if j_state j = DEAD_LETTER then Inr db1
          else bindE (transition now db1 j j DEAD_LETTER (Some detail)) (\<lambda>(_, db2). Inr db2)) = Inr db'"
      using Parked Some by (auto simp: park_db_def bindE_Inr_iff)
    have same: "get_job db1 = get_job db" using db1 by (auto simp: park_dead_letter_def fun_eq_iff split: if_splits)
    show ?thesis
    proof (cases "j_state j = DEAD_LETTER")
      case True
      with rest same show ?thesis by (simp add: moves_same)
    next
      case False
      with rest have can: "can_transition (j_state j) DEAD_LETTER"
        "db' = flush_job now j (transition_cols now DEAD_LETTER (Some detail) j) db1"
        by (auto simp: bindE_Inr_iff transition_Inr)
      have j1: "get_job db1 i = Some j" using Some same by simp
      have "moves (row_step (cfg D)) db1 db'" unfolding can(2)
        using row_step.Stop [OF can(1)] get_job_id [OF j1] by (intro moves_flush [OF j1]) simp_all
      then show ?thesis by (simp add: moves_def same)
    qed
  qed
qed

lemma store_ok_begin:
  assumes "begin_crawl c now db i = Inr (out, db')" and ok: "store_ok db"
  shows "store_ok db'"
proof -
  have start: "store_ok (snd (start_job now d j j1))" if "store_ok d" for d j j1
    unfolding start_job_def Let_def snd_conv using that by (rule store_ok_flush) simp_all
  show ?thesis
  proof (cases "get_job db i")
    case None
    with assms show ?thesis by (simp add: begin_crawl_def)
  next
    case (Some j)
    consider "terminal (j_state j)" | "\<not> terminal (j_state j)" "j_state j = RUNNING"
      | "\<not> terminal (j_state j)" "j_state j \<noteq> RUNNING" by blast
    then show ?thesis
    proof cases
      case 1
      with assms Some show ?thesis by (simp add: begin_crawl_def)
    next
      case 2
      obtain lost db1 where bump: "bump_lost_worker now db i = Inr (lost, db1)"
        using Some by (simp add: bump_lost_worker_def)
      note ok1 = store_ok_bump [OF ok bump]
      show ?thesis
      proof (cases "poison_pill_threshold c \<le> lost")
        case True
        with assms(1) Some 2 bump obtain j2 db2 where
          t: "transition now db1 j j DEAD_LETTER (Some ''poison pill'') = Inr (j2, db2)"
          and p: "park_dead_letter now db2 i ''poison_pill'' (''redelivered '' @ dec_int lost @ '' times'') [] = Inr db'"
          by (auto simp: begin_crawl_def bindE_Inr_iff)
        show ?thesis by (rule store_ok_park [OF store_ok_transition [OF ok1 t] p])
      next
        case False
        then have "db' = snd (start_job now db1 j j)"
          using assms(1) Some 2 bump by (auto simp: begin_crawl_def split: prod.splits)
        then show ?thesis using start [OF ok1] by simp
      qed
    next
      case 3
      obtain j1 db1 where t: "transition now db j j RUNNING None = Inr (j1, db1)"
        and "db' = snd (start_job now db1 j j1)"
        using assms(1) Some 3 by (auto simp: begin_crawl_def bindE_Inr_iff case_prod_beta)
      then show ?thesis using start [OF store_ok_transition [OF ok t]] by simp
    qed
  qed
qed

lemma store_ok_submit:
  assumes create: "create_job now i n db = Inr (j, db')" and ok: "store_ok db"
  shows "store_ok (db\<lparr>jobs := jobs db @ [j\<lparr>j_celery_task_id := Some i\<rparr>]\<rparr>)"
proof -
  have j: "j = new_job now i n" and db': "db' = db\<lparr>jobs := jobs db @ [j]\<rparr>" and new: "i \<notin> j_id ` set (jobs db)"
    using create by (simp_all add: create_job_Inr get_job_None)
  have old: "map (\<lambda>k. if j_id k = i then (k\<lparr>j_celery_task_id := Some i\<rparr>)\<lparr>j_updated_at := now\<rparr> else k) (jobs db)
      = jobs db"
    using new by (intro map_idI) auto
  have "update_job now i (\<lambda>k. k\<lparr>j_celery_task_id := Some i\<rparr>) db' =
      db\<lparr>jobs := jobs db @ [j\<lparr>j_celery_task_id := Some i\<rparr>]\<rparr>"
    using old by (simp add: update_job_def db' j new_job_def)
  moreover have "store_ok (update_job now i (\<lambda>k. k\<lparr>j_celery_task_id := Some i\<rparr>) db')"
    using store_ok_create [OF ok create] by (intro store_ok_update) (simp_all add: keeps_identity_def counts_ok_def)
  ultimately show ?thesis by simp
qed

lemma db_step_store_ok: "db_step D db db' \<Longrightarrow> store_ok db \<Longrightarrow> store_ok db'"
proof (induction rule: db_step.induct)
  case (Submitted now i n db j db')
  then show ?case by (intro store_ok_submit)
next
  case (Begun now db i out db')
  then show ?case by (rule store_ok_begin)
next
  case (PageStored now db i page url n b db')
  then show ?case by (rule store_ok_record_page [rotated])
next
  case (PageFailed now i page url e retries db db')
  then show ?case by (simp add: record_failure_row_def store_ok_record_failed_page)
next
  case (Merged now db i p results rows emitted v db')
  then show ?case by (rule store_ok_merge)
next
  case (Finalised now db i key bytes n v k db')
  then show ?case by (rule store_ok_write)
next
  case (Cancelled db i j now j' db')
  then show ?case by (auto intro: store_ok_transition)
next
  case (Parked now db i why detail payload db')
  then show ?case
    by (auto simp: park_db_def bindE_Inr_iff split: option.splits if_splits
        intro: store_ok_park store_ok_transition)
qed

text \<open>What holds in every database the program reaches.\<close>

definition rows_fit :: "settings \<Rightarrow> db \<Rightarrow> bool" where
  "rows_fit c db \<longleftrightarrow> (\<forall>i j. get_job db i = Some j \<longrightarrow> row_fits c j)"

lemma new_row_fits: "accepted_row (new_job now i n) \<Longrightarrow> row_fits c ((new_job now i n)\<lparr>j_celery_task_id := Some i\<rparr>)"
  by (simp add: row_fits_def new_job_def accepted_row_def)

lemma moves_rows_fit:
  assumes "moves (row_step c) db db'" and "rows_fit c db"
  shows "rows_fit c db'"
  unfolding rows_fit_def
proof (intro allI impI)
  fix i r assume r: "get_job db' i = Some r"
  show "row_fits c r"
  proof (cases "get_job db i")
    case None
    from moves_new [OF assms(1) this r] show ?thesis using new_row_fits by blast
  next
    case (Some j)
    then have "row_fits c j" using assms(2) by (simp add: rows_fit_def)
    moreover have "r = j \<or> row_step c j r" using moves_old [OF assms(1) Some] r by simp
    ultimately show ?thesis using row_step_fits by blast
  qed
qed


lemma steps_follow:
  assumes "db_steps D db db'" and "get_job db i = Some j"
  shows "\<exists>r. get_job db' i = Some r \<and> job_follows j r"
  using assms(1)
proof (induction rule: rtranclp_induct)
  case base
  show ?case using assms(2) by simp
next
  case (step db1 db2)
  then obtain r where r: "get_job db1 i = Some r" "job_follows j r" by blast
  from moves_old [OF db_step_moves [OF step(2)] r(1)] obtain r' where "get_job db2 i = Some r'"
    "r' = r \<or> row_step (cfg D) r r'" by blast
  with r(2) show ?case using job_follows_trans row_step_follows by blast
qed


text \<open>
  The rest of the system, between two sessions of an operation, may do any steps of its own.
\<close>

definition steady :: "'s deployment \<Rightarrow> (('s, 'r) world \<Rightarrow> ('s, 'r) world) \<Rightarrow> bool" where
  "steady D env \<longleftrightarrow> (\<forall>w. db_steps D (w_db w) (w_db (env w)))"

lemma steadyD: "steady D env \<Longrightarrow> w_db w = db \<Longrightarrow> db_steps D db (w_db (env w))"
  unfolding steady_def by blast

lemma steady_same: "steady D (\<lambda>w. w)"
  by (simp add: steady_def)

lemma db_step_once: "db_step D db db' \<Longrightarrow> db_steps D db db'"
  by (rule r_into_rtranclp)

lemmas db_step_intros = db_step.intros [THEN db_step_once]

inductive operation :: "'s deployment \<Rightarrow> 'n web \<Rightarrow> ('s, 'r) world \<Rightarrow> ('s, 'r) world \<Rightarrow> bool"
  for D :: "'s deployment" and W :: "'n web" where
  Submit: "submit_job D dns depth (\<lambda>w. w) now i p key payload w = (res1, w') \<Longrightarrow> operation D W w w'"
| Schedule: "steady D env \<Longrightarrow> submit_scheduled_job D dns env now i name job w = (res2, w') \<Longrightarrow> operation D W w w'"
| Retry: "retry_job (\<lambda>w. w) now k p i w = (res3, w') \<Longrightarrow> operation D W w w'"
| Cancel: "cancel_job now p i w = (res4, w') \<Longrightarrow> operation D W w w'"
| Crawl: "crawl_job D now i w = (res5, w') \<Longrightarrow> operation D W w w'"
| Page: "steady D env \<Longrightarrow>
    fetch_page D W R S env fuel now clock retries i page base w = Some (res6, w') \<Longrightarrow> operation D W w w'"
| Assemble: "(\<And>n. steady D (env n)) \<Longrightarrow> assemble_job D env now results i w = (res7, w') \<Longrightarrow> operation D W w w'"
| Park: "park now i why detail dump w = (res8, w') \<Longrightarrow> operation D W w w'"

lemma submit_steps:
  assumes "submit_job D dns depth (\<lambda>w. w) now i p key payload w = (res, w')"
  shows "db_steps D (w_db w) (w_db w')"
proof (cases "\<exists>a. res = Inr a \<and> \<not> ja_replay a")
  case True
  then obtain a where a: "res = Inr a" "\<not> ja_replay a" by blast
  from submit_fresh [OF assms [unfolded a] a(2)] obtain fetcher url n j where
    n: "n = fields_of (sha256 D) payload fetcher url p key"
    and c: "create_job now i n (w_db w) = Inr (j, (w_db w)\<lparr>jobs := jobs (w_db w) @ [j]\<rparr>)"
    and w': "w_db w' = (w_db w)\<lparr>jobs := jobs (w_db w) @ [j\<lparr>j_celery_task_id := Some i\<rparr>]\<rparr>" by metis
  have "n_state n = PENDING" by (simp add: n fields_of_def)
  from db_step.Submitted [OF c this] show ?thesis unfolding w' by (rule r_into_rtranclp)
next
  case False
  with assms have "w' = w" by (auto simp: submit_job_def Let_def split: sum.splits)
  then show ?thesis by simp
qed

lemma scheduled_steps:
  assumes "steady D env" and "submit_scheduled_job D dns env now i name job w = (res, w')"
  shows "db_steps D (w_db w) (w_db w')"
proof (cases "scheduled_fields D dns name job")
  case (Inl e)
  with assms(2) show ?thesis by (simp add: submit_scheduled_job_def)
next
  case (Inr n)
  show ?thesis
  proof (cases "create_job now i n (w_db w)")
    case (Inl e)
    with Inr assms(2) show ?thesis by (simp add: submit_scheduled_job_def)
  next
    case c: (Inr jd)
    obtain j db' where jd: "jd = (j, db')" by (rule prod.exhaust)
    let ?db = "(w_db w)\<lparr>jobs := jobs (w_db w) @ [j\<lparr>j_celery_task_id := Some i\<rparr>]\<rparr>"
    have "w_db w' = w_db (env (w\<lparr>w_db := ?db\<rparr>))"
      using assms(2) Inr c jd by (auto simp: submit_scheduled_job_def Let_def)
    then have "db_steps D ?db (w_db w')" using steadyD [OF assms(1), of "w\<lparr>w_db := ?db\<rparr>"] by simp
    moreover have "n_state n = PENDING" using Inr by (auto simp: scheduled_fields_def bindE_Inr_iff)
    ultimately show ?thesis
      by - (rule converse_rtranclp_into_rtranclp, rule db_step.Submitted [OF c [unfolded jd]])
  qed
qed

lemma retry_steps:
  assumes "retry_job (\<lambda>w. w) now k p i w = (res, w')"
  shows "db_steps D (w_db w) (w_db w')"
proof (cases res)
  case (Inl e)
  with assms have "w' = w"
    by (auto simp: retry_job_def Let_def split: sum.splits if_splits)
  then show ?thesis by simp
next
  case (Inr a)
  obtain old where old: "bindE (require_scope Write p) (\<lambda>_. find_visible p i (w_db w)) = Inr old"
    and t: "terminal (j_state old)"
    using assms Inr by (auto simp: retry_job_def split: sum.splits if_splits)
  obtain jd where c: "create_job now k (retry_fields old) (w_db w) = Inr jd"
    using assms Inr old t by (auto simp: retry_job_def split: sum.splits)
  obtain j db' where jd: "jd = (j, db')" by (rule prod.exhaust)
  have w': "w_db w' = (w_db w)\<lparr>jobs := jobs (w_db w) @ [j\<lparr>j_celery_task_id := Some k\<rparr>]\<rparr>"
    using assms old t c jd by (auto simp: retry_job_def Let_def)
  have "n_state (retry_fields old) = PENDING" by (simp add: retry_fields_def)
  from db_step.Submitted [OF c [unfolded jd] this] show ?thesis unfolding w' by (rule r_into_rtranclp)
qed

lemma cancel_steps:
  assumes "cancel_job now p i w = (res, w')"
  shows "db_steps D (w_db w) (w_db w')"
proof (cases "bindE (require_scope Write p) (\<lambda>_. find_visible p i (w_db w))")
  case (Inl e)
  with assms show ?thesis by (simp add: cancel_job_def)
next
  case (Inr j)
  then have j: "get_job (w_db w) i = Some j"
    by (auto simp: bindE_Inr_iff find_visible_def split: option.splits if_splits)
  show ?thesis
  proof (cases "terminal (j_state j)")
    case True
    with assms Inr show ?thesis by (simp add: cancel_job_def)
  next
    case False
    show ?thesis
    proof (cases "transition now (w_db w) j j CANCELLED (Some ''cancelled by caller'')")
      case e: (Inl e)
      with assms Inr False show ?thesis by (auto simp: cancel_job_def Let_def)
    next
      case t: (Inr jd)
      obtain j' db' where jd: "jd = (j', db')" by (rule prod.exhaust)
      have "w_db w' = db'" using assms Inr False t jd by (auto simp: cancel_job_def Let_def)
      with db_step_intros(7) [OF j t [unfolded jd], of D] show ?thesis by simp
    qed
  qed
qed

lemma crawl_steps:
  assumes "crawl_job D now i w = (res, w')"
  shows "db_steps D (w_db w) (w_db w')"
proof (cases "begin_crawl (cfg D) now (w_db w) i")
  case (Inl e)
  with assms show ?thesis by (simp add: crawl_job_def)
next
  case (Inr od)
  obtain out db' where od: "od = (out, db')" by (rule prod.exhaust)
  have "w_db w' = db'"
    using assms Inr od by (cases out) (auto simp: crawl_job_def Let_def split: sum.splits if_splits)
  with db_step.Begun [OF Inr [unfolded od]] show ?thesis by (simp add: r_into_rtranclp)
qed

lemma park_steps: "park now i why detail dump w = (res, w') \<Longrightarrow> db_steps D (w_db w) (w_db w')"
  by (auto simp: park_def split: sum.splits intro: db_step_intros(8))

text \<open>
  A relation between worlds that every session of the page and assemble tasks respects, and with
  it the whole task, whatever related changes come in between.
\<close>

locale task_sessions =
  fixes D :: "'s deployment" and P :: "('s, 'r) world \<Rightarrow> ('s, 'r) world \<Rightarrow> bool"
  assumes same: "P w w"
    and after: "P w1 w2 \<Longrightarrow> P w2 w3 \<Longrightarrow> P w1 w3"
    and redis_change: "P w (w\<lparr>w_redis := r\<rparr>)"
    and object_change: "P w (w\<lparr>w_objects := s\<rparr>)"
    and page_recorded: "record_page now (w_db w) i page url PagePARSED (int n) None = Inr (b, db') \<Longrightarrow>
      P w (w\<lparr>w_db := db'\<rparr>)"
    and failure_recorded: "record_failure_row now i page url e retries (w_db w) = Inr db' \<Longrightarrow>
      P w (w\<lparr>w_db := db'\<rparr>)"
    and merged: "finalise_merge D now (w_db w) i p results rows = Inr (emitted, v, db') \<Longrightarrow>
      P w (w\<lparr>w_db := db'\<rparr>)"
    and written: "finalise_write now (w_db w) i key bytes n (final_state v k) = Inr (Some db') \<Longrightarrow>
      P w (w\<lparr>w_db := db'\<rparr>)"
    and notified: "P w (notify p i st n w)"
begin

lemma store_related: "store_page D now i page x w = (res, w') \<Longrightarrow> P w w'"
  using object_change [of w] after [OF object_change page_recorded]
  by (auto simp: store_page_def Let_def same split: sum.splits)

lemma fail_related: "fail_page c now i page url e retries w = (res, w') \<Longrightarrow> P w w'"
  using failure_recorded by (auto simp: fail_page_def same split: sum.splits failure_handling.splits)

lemma page_related:
  assumes env: "\<And>w. P w (env w)"
    and run: "fetch_page D W R S env fuel now clock retries i page base w = Some (res, w')"
  shows "P w w'"
proof (cases "w' = w")
  case False
  then obtain out spec r' where w': "(case out of
          Inr x \<Rightarrow> store_page D now i page x (env (w\<lparr>w_redis := r'\<rparr>))
        | Inl e \<Rightarrow> fail_page (cfg D) now i page (failure_url spec base) e retries (env (w\<lparr>w_redis := r'\<rparr>)))
        = (res, w')"
    using run by (auto simp: fetch_page_def Let_def split: option.splits sum.splits if_splits)
  then have "P (env (w\<lparr>w_redis := r'\<rparr>)) w'"
    by (cases out) (auto intro: store_related fail_related)
  then show ?thesis by (rule after [OF after [OF redis_change env]])
qed (simp add: same)

lemma assemble_related:
  assumes env: "\<And>n w. P w (env n w)" and run: "assemble_job D env now results i w = (res, w')"
  shows "P w w'"
proof (cases "w' = w")
  case False
  then obtain p where p: "finalise_plan D (w_db w) i = Inr (Inr p)"
    using run by (auto simp: assemble_job_def finalise_job_def split: sum.splits)
  note run1 = run [unfolded assemble_job_def finalise_job_def p sum.case Let_def]
  let ?w1 = "env 0 w"
  note s1 = env [of w 0]
  show ?thesis
  proof (cases "load_rows D (w_objects ?w1) results")
    case (Inl e)
    with run1 s1 show ?thesis by simp
  next
    case rows: (Inr rows)
    let ?merge = "finalise_merge D now (w_db ?w1) i p results (kept_rows (dedupe rows (pl_spec p)))"
    show ?thesis
    proof (cases ?merge)
      case (Inl e)
      with run1 s1 rows show ?thesis by simp
    next
      case (Inr m)
      obtain emitted v db2 where m: "m = (emitted, v, db2)" by (cases m)
      note run2 = run1 [unfolded rows sum.case Inr m prod.case]
      let ?w2 = "env 1 (?w1\<lparr>w_db := db2\<rparr>)"
      have s2: "P w ?w2" by (rule after [OF after [OF s1 merged [OF Inr [unfolded m]]] env])
      let ?key = "result_key_of i (pl_format p)"
      let ?put = "put_bytes (storage D) ?key (payload_of p emitted)
        (if pl_format p = ''csv'' then ''text/csv'' else ''application/json'') (w_objects ?w2)"
      show ?thesis
      proof (cases ?put)
        case (Inl e)
        with run2 s2 show ?thesis by simp
      next
        case put: (Inr bs)
        obtain bytes s' where bs: "bs = (bytes, s')" by (rule prod.exhaust)
        note run3 = run2 [unfolded put bs sum.case prod.case]
        let ?w3 = "env 2 (?w2\<lparr>w_objects := s'\<rparr>)"
        have s3: "P w ?w3" by (rule after [OF after [OF s2 object_change] env])
        let ?wr = "finalise_write now (w_db ?w3) i ?key bytes (int (length emitted)) (final_state v (pl_failed p))"
        show ?thesis
        proof (cases "\<exists>db4. ?wr = Inr (Some db4)")
          case True
          then obtain db4 where wr: "?wr = Inr (Some db4)" ..
          with run3 have "w' = notify p i (fst (final_state v (pl_failed p))) (int (length emitted)) (?w3\<lparr>w_db := db4\<rparr>)"
            by auto
          then show ?thesis using after [OF after [OF s3 written [OF wr]] notified] by simp
        next
          case False
          then have "w' = ?w3" using run3 by (auto split: sum.splits option.splits)
          then show ?thesis using s3 by simp
        qed
      qed
    qed
  qed
qed (simp add: same)

end

lemma notify_db [simp]: "w_db (notify p i st n w) = w_db w"
  by (simp add: notify_def split: option.splits)

interpretation db_sessions: task_sessions D "\<lambda>w w'. db_steps D (w_db w) (w_db w')" for D
  by unfold_locales (auto intro: db_step_intros rtranclp_trans)

lemma page_steps:
  assumes "steady D env" and "fetch_page D W R S env fuel now clock retries i page base w = Some (res, w')"
  shows "db_steps D (w_db w) (w_db w')"
  using assms(1) db_sessions.page_related [OF _ assms(2)] by (simp add: steady_def)

lemma assemble_steps:
  assumes "\<And>n. steady D (env n)" and "assemble_job D env now results i w = (res, w')"
  shows "db_steps D (w_db w) (w_db w')"
  using assms(1) db_sessions.assemble_related [OF _ assms(2)] by (simp add: steady_def)

text \<open>
  C3. Every task and request handler of the program (submit, scheduled submit, retry, cancel,
  crawl, page, assemble, park), interleaved with anything the rest of the system does between
  its sessions, changes the database only by a sequence of the steps of the abstract transition
  system.
\<close>

theorem operations_are_steps:
  assumes "operation D W w w'"
  shows "db_steps D (w_db w) (w_db w')"
  using assms
  by (induction rule: operation.induct)
     (auto intro: submit_steps scheduled_steps retry_steps cancel_steps crawl_steps page_steps
       assemble_steps park_steps)

text \<open>The first two steps of a job: it is submitted, and a worker takes it.\<close>

definition submitted_db :: db where
  "submitted_db = empty_db\<lparr>jobs := [(new_job 0 ''j1'' sample_fields)\<lparr>j_celery_task_id := Some ''j1''\<rparr>]\<rparr>"

lemma submitted_job: "get_job submitted_db ''j1'' = Some ((new_job 0 ''j1'' sample_fields)\<lparr>j_celery_task_id := Some ''j1''\<rparr>)"
  by (simp add: submitted_db_def get_job_def new_job_def)

lemma sample_submitted: "db_step sample_deployment empty_db submitted_db"
proof -
  have c: "create_job 0 ''j1'' sample_fields empty_db
      = Inr (new_job 0 ''j1'' sample_fields, empty_db\<lparr>jobs := [new_job 0 ''j1'' sample_fields]\<rparr>)"
    by (simp add: create_job_def Let_def get_job_def idempotency_clash_def empty_db_def new_job_def
        sample_fields_def too_long_def)
  have "n_state sample_fields = PENDING" by (simp add: sample_fields_def)
  from db_step.Submitted [OF c this, of sample_deployment] show ?thesis
    by (simp add: submitted_db_def empty_db_def)
qed

lemma sample_begun:
  "\<exists>db r. db_step sample_deployment submitted_db db \<and> get_job db ''j1'' = Some r \<and> j_state r = RUNNING
    \<and> (\<exists>plan. begin_crawl (cfg sample_deployment) 1 submitted_db ''j1'' = Inr (Inr plan, db))"
proof -
  let ?j = "(new_job 0 ''j1'' sample_fields)\<lparr>j_celery_task_id := Some ''j1''\<rparr>"
  have "j_state ?j = PENDING \<or> j_state ?j = PAUSED" by (simp add: new_job_def sample_fields_def)
  from begin_crawl_first [OF submitted_job this, of "cfg sample_deployment" 1] obtain db where
    db: "begin_crawl (cfg sample_deployment) 1 submitted_db ''j1'' = Inr (Inr (plan_for submitted_db ?j), db)"
      "get_job db = (get_job submitted_db)(''j1'' \<mapsto> begun_row 1 ?j)" by blast
  have "get_job db ''j1'' = Some (begun_row 1 ?j)" "j_state (begun_row 1 ?j) = RUNNING" by (simp_all add: db)
  with db_step.Begun [OF db(1)] db(1) show ?thesis by blast
qed



theorem operations_are_steps_witness:
  "\<exists>w'. operation sample_deployment sample_web (sample_world submitted_db) w'
    \<and> db_steps sample_deployment submitted_db (w_db w') \<and> w_db w' \<noteq> submitted_db"
proof -
  let ?w = "sample_world submitted_db"
  obtain db r plan where db: "get_job db ''j1'' = Some r" "j_state r = RUNNING"
    "begin_crawl (cfg sample_deployment) 1 submitted_db ''j1'' = Inr (Inr plan, db)" using sample_begun by blast
  obtain res w' where run: "crawl_job sample_deployment 1 ''j1'' ?w = (res, w')" by (rule prod.exhaust)
  have "w_db w' = db" using run db(3) by (auto simp: crawl_job_def Let_def split: sum.splits if_splits)
  moreover have "db \<noteq> submitted_db" using db(1,2) submitted_job by (auto simp: new_job_def sample_fields_def)
  moreover have op: "operation sample_deployment sample_web ?w w'" using run by (rule operation.Crawl)
  ultimately show ?thesis using operations_are_steps [OF op] by auto
qed

end
