(* ===== verification/Schema.thy ===== *)
theory Schema
  imports Store Dedupe
begin

text \<open>
  The storage schema twice: as the classes of \<^verbatim>\<open>db/tables.py\<close> declare it and as the migration
  creates it.  \<^verbatim>\<open>ddl\<close> lists the statements of the migration.  Types, names and referential
  actions are those of the source; Python-side defaults and relationships leave no trace in the
  database and are left out.
\<close>

subsection \<open>Tables, indexes and statements\<close>

datatype sql_type = VarChar nat | SqlText | SqlInteger | SqlBoolean | SqlUuid | SqlJsonb | SqlTimestamptz

record column =
  co_name :: string
  co_type :: sql_type
  co_nullable :: bool
  co_server_now :: bool
  co_autoincrement :: bool

record foreign_key =
  fk_column :: string
  fk_table :: string
  fk_target :: string
  fk_ondelete :: string

record table_def =
  td_columns :: "column list"
  td_primary :: "string list"
  td_foreign :: "foreign_key list"
  td_unique :: "(string \<times> string list) list"
  td_checks :: "(string \<times> string) list"

record index_def =
  ix_table :: string
  ix_columns :: "string list"
  ix_unique :: bool
  ix_where :: "string option"

datatype ddl =
    CreateTable string table_def
  | CreateIndex string index_def
  | DropIndex string string
  | DropTable string

definition sa_column :: "string \<Rightarrow> sql_type \<Rightarrow> bool \<Rightarrow> column" where
  "sa_column name ty nullable = \<lparr>co_name = name, co_type = ty, co_nullable = nullable,
     co_server_now = False, co_autoincrement = False\<rparr>"

definition index_on :: "string \<Rightarrow> string list \<Rightarrow> bool \<Rightarrow> string option \<Rightarrow> index_def" where
  "index_on table cols unique cond =
     \<lparr>ix_table = table, ix_columns = cols, ix_unique = unique, ix_where = cond\<rparr>"

subsection \<open>The migration\<close>

definition create_drift_baselines :: ddl where
  "create_drift_baselines = CreateTable ''drift_baselines''
     \<lparr>td_columns =
        [sa_column ''target'' (VarChar 64) False,
         sa_column ''rows_per_page'' SqlInteger False,
         sa_column ''samples'' SqlInteger False,
         (sa_column ''updated_at'' SqlTimestamptz False)\<lparr>co_server_now := True\<rparr>],
      td_primary = [''target''],
      td_foreign = [],
      td_unique = [],
      td_checks = []\<rparr>"

definition create_jobs :: ddl where
  "create_jobs = CreateTable ''jobs''
     \<lparr>td_columns =
        [sa_column ''id'' SqlUuid False,
         sa_column ''state'' (VarChar 16) False,
         sa_column ''target'' (VarChar 64) False,
         sa_column ''fetcher'' (VarChar 16) False,
         sa_column ''start_url'' SqlText False,
         sa_column ''max_pages'' SqlInteger False,
         sa_column ''output_format'' (VarChar 8) False,
         sa_column ''incremental'' SqlBoolean False,
         sa_column ''params'' SqlJsonb False,
         sa_column ''api_key_id'' (VarChar 64) False,
         sa_column ''idempotency_key'' (VarChar 128) True,
         sa_column ''callback_url'' SqlText True,
         sa_column ''celery_task_id'' (VarChar 64) True,
         sa_column ''attempts'' SqlInteger False,
         sa_column ''lost_worker_count'' SqlInteger False,
         sa_column ''pages_total'' SqlInteger True,
         sa_column ''pages_done'' SqlInteger False,
         sa_column ''pages_failed'' SqlInteger False,
         sa_column ''rows'' SqlInteger False,
         sa_column ''result_key'' SqlText True,
         sa_column ''result_bytes'' SqlInteger True,
         sa_column ''error'' SqlText True,
         (sa_column ''created_at'' SqlTimestamptz False)\<lparr>co_server_now := True\<rparr>,
         (sa_column ''updated_at'' SqlTimestamptz False)\<lparr>co_server_now := True\<rparr>,
         sa_column ''started_at'' SqlTimestamptz True,
         sa_column ''finished_at'' SqlTimestamptz True],
      td_primary = [''id''],
      td_foreign = [],
      td_unique = [],
      td_checks = [(''ck_jobs_max_pages_positive'', ''max_pages > 0'')]\<rparr>"

definition create_dead_letters :: ddl where
  "create_dead_letters = CreateTable ''dead_letters''
     \<lparr>td_columns =
        [(sa_column ''id'' SqlInteger False)\<lparr>co_autoincrement := True\<rparr>,
         sa_column ''job_id'' SqlUuid False,
         sa_column ''reason'' (VarChar 32) False,
         sa_column ''detail'' SqlText False,
         sa_column ''payload'' SqlJsonb False,
         (sa_column ''parked_at'' SqlTimestamptz False)\<lparr>co_server_now := True\<rparr>,
         sa_column ''resolved_at'' SqlTimestamptz True],
      td_primary = [''id''],
      td_foreign = [\<lparr>fk_column = ''job_id'', fk_table = ''jobs'', fk_target = ''id'', fk_ondelete = ''CASCADE''\<rparr>],
      td_unique = [],
      td_checks = []\<rparr>"

definition create_failed_pages :: ddl where
  "create_failed_pages = CreateTable ''failed_pages''
     \<lparr>td_columns =
        [(sa_column ''id'' SqlInteger False)\<lparr>co_autoincrement := True\<rparr>,
         sa_column ''job_id'' SqlUuid False,
         sa_column ''page'' SqlInteger False,
         sa_column ''url'' SqlText False,
         sa_column ''attempts'' SqlInteger False,
         sa_column ''error_type'' (VarChar 64) False,
         sa_column ''error'' SqlText False,
         sa_column ''traceback'' SqlText True,
         (sa_column ''last_attempt_at'' SqlTimestamptz False)\<lparr>co_server_now := True\<rparr>],
      td_primary = [''id''],
      td_foreign = [\<lparr>fk_column = ''job_id'', fk_table = ''jobs'', fk_target = ''id'', fk_ondelete = ''CASCADE''\<rparr>],
      td_unique = [(''uq_failed_pages_job_page'', [''job_id'', ''page''])],
      td_checks = []\<rparr>"

definition create_job_pages :: ddl where
  "create_job_pages = CreateTable ''job_pages''
     \<lparr>td_columns =
        [(sa_column ''id'' SqlInteger False)\<lparr>co_autoincrement := True\<rparr>,
         sa_column ''job_id'' SqlUuid False,
         sa_column ''page'' SqlInteger False,
         sa_column ''url'' SqlText False,
         sa_column ''state'' (VarChar 16) False,
         sa_column ''rows'' SqlInteger False,
         sa_column ''content_hash'' (VarChar 64) True,
         sa_column ''attempts'' SqlInteger False,
         sa_column ''fetched_at'' SqlTimestamptz True],
      td_primary = [''id''],
      td_foreign = [\<lparr>fk_column = ''job_id'', fk_table = ''jobs'', fk_target = ''id'', fk_ondelete = ''CASCADE''\<rparr>],
      td_unique = [(''uq_job_pages_job_page'', [''job_id'', ''page''])],
      td_checks = []\<rparr>"

definition create_target_snapshots :: ddl where
  "create_target_snapshots = CreateTable ''target_snapshots''
     \<lparr>td_columns =
        [(sa_column ''id'' SqlInteger False)\<lparr>co_autoincrement := True\<rparr>,
         sa_column ''target'' (VarChar 64) False,
         sa_column ''row_key'' (VarChar 128) False,
         sa_column ''content_hash'' (VarChar 64) False,
         sa_column ''job_id'' SqlUuid True,
         (sa_column ''seen_at'' SqlTimestamptz False)\<lparr>co_server_now := True\<rparr>],
      td_primary = [''id''],
      td_foreign = [\<lparr>fk_column = ''job_id'', fk_table = ''jobs'', fk_target = ''id'', fk_ondelete = ''SET NULL''\<rparr>],
      td_unique = [(''uq_target_snapshots_row'', [''target'', ''row_key''])],
      td_checks = []\<rparr>"

definition upgrade :: "ddl list" where
  "upgrade =
     [create_drift_baselines,
      create_jobs,
      CreateIndex ''ix_jobs_api_key_id'' (index_on ''jobs'' [''api_key_id''] False None),
      CreateIndex ''ix_jobs_celery_task_id'' (index_on ''jobs'' [''celery_task_id''] False None),
      CreateIndex ''ix_jobs_state'' (index_on ''jobs'' [''state''] False None),
      CreateIndex ''ix_jobs_state_created'' (index_on ''jobs'' [''state'', ''created_at''] False None),
      CreateIndex ''ix_jobs_target'' (index_on ''jobs'' [''target''] False None),
      CreateIndex ''uq_jobs_idempotency_key'' (index_on ''jobs'' [''api_key_id'', ''idempotency_key''] True
        (Some ''idempotency_key IS NOT NULL'')),
      create_dead_letters,
      CreateIndex ''ix_dead_letters_job_id'' (index_on ''dead_letters'' [''job_id''] False None),
      CreateIndex ''ix_dead_letters_reason'' (index_on ''dead_letters'' [''reason''] False None),
      create_failed_pages,
      CreateIndex ''ix_failed_pages_error_type'' (index_on ''failed_pages'' [''error_type''] False None),
      CreateIndex ''ix_failed_pages_job_id'' (index_on ''failed_pages'' [''job_id''] False None),
      create_job_pages,
      CreateIndex ''ix_job_pages_hash'' (index_on ''job_pages'' [''content_hash''] False None),
      CreateIndex ''ix_job_pages_job_id'' (index_on ''job_pages'' [''job_id''] False None),
      create_target_snapshots,
      CreateIndex ''ix_target_snapshots_target'' (index_on ''target_snapshots'' [''target''] False None)]"

definition downgrade :: "ddl list" where
  "downgrade =
     [DropIndex ''ix_target_snapshots_target'' ''target_snapshots'',
      DropTable ''target_snapshots'',
      DropIndex ''ix_job_pages_job_id'' ''job_pages'',
      DropIndex ''ix_job_pages_hash'' ''job_pages'',
      DropTable ''job_pages'',
      DropIndex ''ix_failed_pages_job_id'' ''failed_pages'',
      DropIndex ''ix_failed_pages_error_type'' ''failed_pages'',
      DropTable ''failed_pages'',
      DropIndex ''ix_dead_letters_reason'' ''dead_letters'',
      DropIndex ''ix_dead_letters_job_id'' ''dead_letters'',
      DropTable ''dead_letters'',
      DropIndex ''uq_jobs_idempotency_key'' ''jobs'',
      DropIndex ''ix_jobs_target'' ''jobs'',
      DropIndex ''ix_jobs_state_created'' ''jobs'',
      DropIndex ''ix_jobs_state'' ''jobs'',
      DropIndex ''ix_jobs_celery_task_id'' ''jobs'',
      DropIndex ''ix_jobs_api_key_id'' ''jobs'',
      DropTable ''jobs'',
      DropTable ''drift_baselines'']"

subsection \<open>The declared classes\<close>

text \<open>
  One \<^verbatim>\<open>mapped_column\<close>: its type (given or read off the annotation), whether the annotation
  is optional, and the arguments that reach the database.
\<close>

record mapped_column =
  m_name :: string
  m_type :: sql_type
  m_optional :: bool
  m_primary :: bool
  m_index :: bool
  m_references :: "(string \<times> string \<times> string) option"
  m_server_now :: bool
  m_autoincrement :: bool

record orm_class =
  oc_table :: string
  oc_columns :: "mapped_column list"
  oc_unique :: "(string \<times> string list) list"
  oc_checks :: "(string \<times> string) list"
  oc_indexes :: "(string \<times> string list \<times> bool \<times> string option) list"

definition mapped :: "string \<Rightarrow> sql_type \<Rightarrow> bool \<Rightarrow> mapped_column" where
  "mapped name ty optional = \<lparr>m_name = name, m_type = ty, m_optional = optional, m_primary = False,
     m_index = False, m_references = None, m_server_now = False, m_autoincrement = False\<rparr>"

definition job_model :: orm_class where
  "job_model =
     \<lparr>oc_table = ''jobs'',
      oc_columns =
       [(mapped ''id'' SqlUuid False)\<lparr>m_primary := True\<rparr>,
        (mapped ''state'' (VarChar 16) False)\<lparr>m_index := True\<rparr>,
        (mapped ''target'' (VarChar 64) False)\<lparr>m_index := True\<rparr>,
        mapped ''fetcher'' (VarChar 16) False,
        mapped ''start_url'' SqlText False,
        mapped ''max_pages'' SqlInteger False,
        mapped ''output_format'' (VarChar 8) False,
        mapped ''incremental'' SqlBoolean False,
        mapped ''params'' SqlJsonb False,
        (mapped ''api_key_id'' (VarChar 64) False)\<lparr>m_index := True\<rparr>,
        mapped ''idempotency_key'' (VarChar 128) True,
        mapped ''callback_url'' SqlText True,
        (mapped ''celery_task_id'' (VarChar 64) True)\<lparr>m_index := True\<rparr>,
        mapped ''attempts'' SqlInteger False,
        mapped ''lost_worker_count'' SqlInteger False,
        mapped ''pages_total'' SqlInteger True,
        mapped ''pages_done'' SqlInteger False,
        mapped ''pages_failed'' SqlInteger False,
        mapped ''rows'' SqlInteger False,
        mapped ''result_key'' SqlText True,
        mapped ''result_bytes'' SqlInteger True,
        mapped ''error'' SqlText True,
        (mapped ''created_at'' SqlTimestamptz False)\<lparr>m_server_now := True\<rparr>,
        (mapped ''updated_at'' SqlTimestamptz False)\<lparr>m_server_now := True\<rparr>,
        mapped ''started_at'' SqlTimestamptz True,
        mapped ''finished_at'' SqlTimestamptz True],
      oc_unique = [], oc_checks = [(''ck_jobs_max_pages_positive'', ''max_pages > 0'')],
      oc_indexes = [(''uq_jobs_idempotency_key'', [''api_key_id'', ''idempotency_key''], True, Some ''idempotency_key''),
        (''ix_jobs_state_created'', [''state'', ''created_at''], False, None)]\<rparr>"

definition job_page_model :: orm_class where
  "job_page_model =
     \<lparr>oc_table = ''job_pages'',
      oc_columns =
       [(mapped ''id'' SqlInteger False)\<lparr>m_primary := True, m_autoincrement := True\<rparr>,
        (mapped ''job_id'' SqlUuid False)\<lparr>m_index := True, m_references := Some (''jobs'', ''id'', ''CASCADE'')\<rparr>,
        mapped ''page'' SqlInteger False,
        mapped ''url'' SqlText False,
        mapped ''state'' (VarChar 16) False,
        mapped ''rows'' SqlInteger False,
        mapped ''content_hash'' (VarChar 64) True,
        mapped ''attempts'' SqlInteger False,
        mapped ''fetched_at'' SqlTimestamptz True],
      oc_unique = [(''uq_job_pages_job_page'', [''job_id'', ''page''])], oc_checks = [],
      oc_indexes = [(''ix_job_pages_hash'', [''content_hash''], False, None)]\<rparr>"

definition failed_page_model :: orm_class where
  "failed_page_model =
     \<lparr>oc_table = ''failed_pages'',
      oc_columns =
       [(mapped ''id'' SqlInteger False)\<lparr>m_primary := True, m_autoincrement := True\<rparr>,
        (mapped ''job_id'' SqlUuid False)\<lparr>m_index := True, m_references := Some (''jobs'', ''id'', ''CASCADE'')\<rparr>,
        mapped ''page'' SqlInteger False,
        mapped ''url'' SqlText False,
        mapped ''attempts'' SqlInteger False,
        (mapped ''error_type'' (VarChar 64) False)\<lparr>m_index := True\<rparr>,
        mapped ''error'' SqlText False,
        mapped ''traceback'' SqlText True,
        (mapped ''last_attempt_at'' SqlTimestamptz False)\<lparr>m_server_now := True\<rparr>],
      oc_unique = [(''uq_failed_pages_job_page'', [''job_id'', ''page''])], oc_checks = [],
      oc_indexes = []\<rparr>"

definition dead_letter_model :: orm_class where
  "dead_letter_model =
     \<lparr>oc_table = ''dead_letters'',
      oc_columns =
       [(mapped ''id'' SqlInteger False)\<lparr>m_primary := True, m_autoincrement := True\<rparr>,
        (mapped ''job_id'' SqlUuid False)\<lparr>m_index := True, m_references := Some (''jobs'', ''id'', ''CASCADE'')\<rparr>,
        (mapped ''reason'' (VarChar 32) False)\<lparr>m_index := True\<rparr>,
        mapped ''detail'' SqlText False,
        mapped ''payload'' SqlJsonb False,
        (mapped ''parked_at'' SqlTimestamptz False)\<lparr>m_server_now := True\<rparr>,
        mapped ''resolved_at'' SqlTimestamptz True],
      oc_unique = [], oc_checks = [],
      oc_indexes = []\<rparr>"

definition target_snapshot_model :: orm_class where
  "target_snapshot_model =
     \<lparr>oc_table = ''target_snapshots'',
      oc_columns =
       [(mapped ''id'' SqlInteger False)\<lparr>m_primary := True, m_autoincrement := True\<rparr>,
        (mapped ''target'' (VarChar 64) False)\<lparr>m_index := True\<rparr>,
        mapped ''row_key'' (VarChar 128) False,
        mapped ''content_hash'' (VarChar 64) False,
        (mapped ''job_id'' SqlUuid True)\<lparr>m_references := Some (''jobs'', ''id'', ''SET NULL'')\<rparr>,
        (mapped ''seen_at'' SqlTimestamptz False)\<lparr>m_server_now := True\<rparr>],
      oc_unique = [(''uq_target_snapshots_row'', [''target'', ''row_key''])], oc_checks = [],
      oc_indexes = []\<rparr>"

definition drift_baseline_model :: orm_class where
  "drift_baseline_model =
     \<lparr>oc_table = ''drift_baselines'',
      oc_columns =
       [(mapped ''target'' (VarChar 64) False)\<lparr>m_primary := True\<rparr>,
        mapped ''rows_per_page'' SqlInteger False,
        mapped ''samples'' SqlInteger False,
        (mapped ''updated_at'' SqlTimestamptz False)\<lparr>m_server_now := True\<rparr>],
      oc_unique = [], oc_checks = [],
      oc_indexes = []\<rparr>"

definition metadata :: "orm_class list" where
  "metadata = [job_model, job_page_model, failed_page_model, dead_letter_model, target_snapshot_model, drift_baseline_model]"

text \<open>
  What a declaration means for the database: a column is nullable when its annotation is
  optional, \<^verbatim>\<open>index=True\<close> creates an index named after the table and the column, and the
  last component of an index is the column its partial condition tests.
\<close>

definition column_of :: "mapped_column \<Rightarrow> column" where
  "column_of m = \<lparr>co_name = m_name m, co_type = m_type m, co_nullable = m_optional m,
     co_server_now = m_server_now m, co_autoincrement = m_autoincrement m\<rparr>"

definition foreign_key_of :: "mapped_column \<Rightarrow> foreign_key list" where
  "foreign_key_of m = (case m_references m of None \<Rightarrow> []
     | Some (table, target, action) \<Rightarrow> [\<lparr>fk_column = m_name m, fk_table = table, fk_target = target,
         fk_ondelete = action\<rparr>])"

definition table_of :: "orm_class \<Rightarrow> string \<times> table_def" where
  "table_of c = (oc_table c,
     \<lparr>td_columns = map column_of (oc_columns c),
      td_primary = map m_name (filter m_primary (oc_columns c)),
      td_foreign = concat (map foreign_key_of (oc_columns c)),
      td_unique = oc_unique c, td_checks = oc_checks c\<rparr>)"

definition indexes_of :: "orm_class \<Rightarrow> (string \<times> index_def) list" where
  "indexes_of c =
     map (\<lambda>m. (''ix_'' @ oc_table c @ ''_'' @ m_name m, index_on (oc_table c) [m_name m] False None))
       (filter m_index (oc_columns c))
     @ map (\<lambda>(name, cols, unique, cond). (name, index_on (oc_table c) cols unique
         (map_option (\<lambda>col. col @ '' IS NOT NULL'') cond))) (oc_indexes c)"

record catalog =
  cat_tables :: "(string \<times> table_def) list"
  cat_indexes :: "(string \<times> index_def) list"

definition empty_catalog :: catalog where
  "empty_catalog = \<lparr>cat_tables = [], cat_indexes = []\<rparr>"

definition declared :: catalog where
  "declared = \<lparr>cat_tables = map table_of metadata, cat_indexes = concat (map indexes_of metadata)\<rparr>"

text \<open>The same tables and indexes, in whatever order they were created.\<close>

definition same_schema :: "catalog \<Rightarrow> catalog \<Rightarrow> bool" where
  "same_schema c d \<longleftrightarrow> map_of (cat_tables c) = map_of (cat_tables d)
     \<and> map_of (cat_indexes c) = map_of (cat_indexes d)"

subsection \<open>Running statements\<close>

text \<open>When a statement is accepted, and what it does to the catalogue of the server.\<close>

fun ddl_ok :: "ddl \<Rightarrow> catalog \<Rightarrow> bool" where
  "ddl_ok (CreateTable t d) c \<longleftrightarrow> map_of (cat_tables c) t = None
     \<and> (\<forall>fk \<in> set (td_foreign d). \<exists>d' \<in> set_option (map_of (cat_tables c) (fk_table fk)).
          td_primary d' = [fk_target fk])"
| "ddl_ok (CreateIndex n x) c \<longleftrightarrow> map_of (cat_indexes c) n = None
     \<and> (\<exists>d \<in> set_option (map_of (cat_tables c) (ix_table x)). set (ix_columns x) \<subseteq> co_name ` set (td_columns d))"
| "ddl_ok (DropIndex n t) c \<longleftrightarrow> (\<exists>x \<in> set_option (map_of (cat_indexes c) n). ix_table x = t)"
| "ddl_ok (DropTable t) c \<longleftrightarrow> map_of (cat_tables c) t \<noteq> None
     \<and> (\<forall>(t', d) \<in> set (cat_tables c). t' \<noteq> t \<longrightarrow> t \<notin> fk_table ` set (td_foreign d))"

fun ddl_effect :: "ddl \<Rightarrow> catalog \<Rightarrow> catalog" where
  "ddl_effect (CreateTable t d) c = c\<lparr>cat_tables := (t, d) # cat_tables c\<rparr>"
| "ddl_effect (CreateIndex n x) c = c\<lparr>cat_indexes := (n, x) # cat_indexes c\<rparr>"
| "ddl_effect (DropIndex n t) c = c\<lparr>cat_indexes := filter (\<lambda>(m, _). m \<noteq> n) (cat_indexes c)\<rparr>"
| "ddl_effect (DropTable t) c = c\<lparr>cat_tables := filter (\<lambda>(m, _). m \<noteq> t) (cat_tables c),
     cat_indexes := filter (\<lambda>(_, x). ix_table x \<noteq> t) (cat_indexes c)\<rparr>"

fun all_ok :: "ddl list \<Rightarrow> catalog \<Rightarrow> bool" where
  "all_ok [] c = True"
| "all_ok (op # ops) c = (ddl_ok op c \<and> all_ok ops (ddl_effect op c))"

text \<open>A script stops at the first statement the server refuses.\<close>

fun run_ddl :: "(ddl \<Rightarrow> 's \<Rightarrow> 's option) \<Rightarrow> ddl list \<Rightarrow> 's \<Rightarrow> 's option" where
  "run_ddl exec [] s = Some s"
| "run_ddl exec (op # ops) s = (case exec op s of None \<Rightarrow> None | Some s' \<Rightarrow> run_ddl exec ops s')"

locale ddl_server =
  fixes exec :: "ddl \<Rightarrow> 's \<Rightarrow> 's option" and catalog_of :: "'s \<Rightarrow> catalog"
  assumes exec_ok: "ddl_ok op (catalog_of s) \<Longrightarrow>
    \<exists>s'. exec op s = Some s' \<and> catalog_of s' = ddl_effect op (catalog_of s)"
begin

lemma run_all: "all_ok ops (catalog_of s) \<Longrightarrow>
    \<exists>s'. run_ddl exec ops s = Some s' \<and> catalog_of s' = fold ddl_effect ops (catalog_of s)"
proof (induction ops arbitrary: s)
  case (Cons op ops)
  then obtain s1 where "exec op s = Some s1" "catalog_of s1 = ddl_effect op (catalog_of s)"
    using exec_ok [of op s] by auto
  with Cons.IH [of s1] Cons.prems show ?case by simp
qed simp

end

definition catalog_exec :: "ddl \<Rightarrow> catalog \<Rightarrow> catalog option" where
  "catalog_exec op c = (if ddl_ok op c then Some (ddl_effect op c) else None)"

interpretation catalog_server: ddl_server catalog_exec "\<lambda>c. c"
  by unfold_locales (simp add: catalog_exec_def)

subsection \<open>The migration against the declarations\<close>

lemma upgrade_ok: "all_ok upgrade empty_catalog"
  by code_simp

lemma downgrade_ok: "all_ok downgrade (fold ddl_effect upgrade empty_catalog)"
  by code_simp

lemma downgrade_result: "fold ddl_effect downgrade (fold ddl_effect upgrade empty_catalog) = empty_catalog"
  by code_simp

definition deployed :: catalog where
  "deployed = fold ddl_effect upgrade empty_catalog"

lemma deployed_declared: "same_schema deployed declared"
proof -
  have "distinct (map fst (cat_tables deployed))" "distinct (map fst (cat_tables declared))"
    "set (cat_tables deployed) = set (cat_tables declared)"
    "distinct (map fst (cat_indexes deployed))" "distinct (map fst (cat_indexes declared))"
    "set (cat_indexes deployed) = set (cat_indexes declared)"
    by code_simp+
  then show ?thesis by (simp add: same_schema_def map_of_inject_set)
qed

text \<open>
  C37. Run on an empty database of any server that executes the statements as documented, the
  upgrade of the migration succeeds and builds exactly the tables, columns, keys, checks and
  indexes the table classes declare, and the downgrade then runs and leaves the database empty.
\<close>

theorem migration_builds_schema:
  assumes "ddl_server exec catalog_of" and "catalog_of s = empty_catalog"
  shows "\<exists>s1 s2. run_ddl exec upgrade s = Some s1 \<and> same_schema (catalog_of s1) declared
    \<and> run_ddl exec downgrade s1 = Some s2 \<and> catalog_of s2 = empty_catalog"
proof -
  obtain s1 where s1: "run_ddl exec upgrade s = Some s1" "catalog_of s1 = deployed"
    using ddl_server.run_all [OF assms(1), of upgrade s] upgrade_ok assms(2) by (auto simp: deployed_def)
  obtain s2 where "run_ddl exec downgrade s1 = Some s2" "catalog_of s2 = empty_catalog"
    using ddl_server.run_all [OF assms(1), of downgrade s1] downgrade_ok downgrade_result s1(2)
    by (auto simp: deployed_def)
  with s1 deployed_declared show ?thesis by auto
qed

theorem migration_builds_schema_witness:
  "\<exists>s1 s2. run_ddl catalog_exec upgrade empty_catalog = Some s1 \<and> same_schema s1 declared
    \<and> run_ddl catalog_exec downgrade s1 = Some s2 \<and> s2 = empty_catalog"
  using migration_builds_schema [OF catalog_server.ddl_server_axioms refl] by blast

subsection \<open>Column widths\<close>

definition column_type :: "string \<Rightarrow> string \<Rightarrow> sql_type option" where
  "column_type table name =
     (case map_of (cat_tables deployed) table of None \<Rightarrow> None
      | Some d \<Rightarrow> map_of (map (\<lambda>c. (co_name c, co_type c)) (td_columns d)) name)"

definition text_fits :: "string \<Rightarrow> string \<times> string option \<Rightarrow> bool" where
  "text_fits table v = (case v of (name, Some s) \<Rightarrow>
      (case column_type table name of Some (VarChar n) \<Rightarrow> length s \<le> n | Some SqlText \<Rightarrow> True | _ \<Rightarrow> False)
    | (name, None) \<Rightarrow> True)"

definition job_texts :: "job \<Rightarrow> (string \<times> string option) list" where
  "job_texts j =
     [(''state'', Some (state_str (j_state j))), (''target'', Some (j_target j)),
      (''fetcher'', Some (j_fetcher j)), (''start_url'', Some (j_start_url j)),
      (''output_format'', Some (j_output_format j)), (''api_key_id'', Some (j_api_key_id j)),
      (''idempotency_key'', j_idempotency_key j), (''callback_url'', j_callback_url j),
      (''celery_task_id'', j_celery_task_id j), (''result_key'', j_result_key j), (''error'', j_error j)]"

fun page_state_str :: "page_state \<Rightarrow> string" where
  "page_state_str PagePENDING = ''PENDING''"
| "page_state_str PageFETCHED = ''FETCHED''"
| "page_state_str PagePARSED = ''PARSED''"
| "page_state_str PageFAILED = ''FAILED''"

definition page_texts :: "job_page \<Rightarrow> (string \<times> string option) list" where
  "page_texts p = [(''url'', Some (p_url p)), (''state'', Some (page_state_str (p_state p))),
     (''content_hash'', p_content_hash p)]"

definition failure_texts :: "failed_page \<Rightarrow> (string \<times> string option) list" where
  "failure_texts f = [(''url'', Some (f_url f)), (''error_type'', Some (f_error_type f)),
     (''error'', Some (f_error f)), (''traceback'', f_traceback f)]"

definition letter_texts :: "dead_letter \<Rightarrow> (string \<times> string option) list" where
  "letter_texts d = [(''reason'', Some (d_reason d)), (''detail'', Some (d_detail d))]"

definition snapshot_texts :: "target_snapshot \<Rightarrow> (string \<times> string option) list" where
  "snapshot_texts s = [(''target'', Some (s_target s)), (''row_key'', Some (s_row_key s)),
     (''content_hash'', Some (s_content_hash s))]"

lemma column_types:
  "map (column_type ''jobs'') [''state'', ''target'', ''fetcher'', ''start_url'', ''output_format'', ''api_key_id'',
      ''idempotency_key'', ''callback_url'', ''celery_task_id'', ''result_key'', ''error'']
    = map Some [VarChar 16, VarChar 64, VarChar 16, SqlText, VarChar 8, VarChar 64, VarChar 128, SqlText, VarChar 64,
      SqlText, SqlText]"
  "map (column_type ''job_pages'') [''url'', ''state'', ''content_hash''] = map Some [SqlText, VarChar 16, VarChar 64]"
  "map (column_type ''failed_pages'') [''url'', ''error_type'', ''error'', ''traceback'']
    = map Some [SqlText, VarChar 64, SqlText, SqlText]"
  "map (column_type ''dead_letters'') [''reason'', ''detail''] = map Some [VarChar 32, SqlText]"
  "map (column_type ''target_snapshots'') [''target'', ''row_key'', ''content_hash'']
    = map Some [VarChar 64, VarChar 128, VarChar 64]"
  by code_simp+

lemma state_str_short: "length (state_str s) \<le> 16" "length (page_state_str p) \<le> 16"
  by (cases s; simp) (cases p; simp)

lemma job_texts_fit:
  "list_all (text_fits ''jobs'') (job_texts j) \<longleftrightarrow> \<not> too_long j
     \<and> (\<forall>t. j_celery_task_id j = Some t \<longrightarrow> length t \<le> 64)"
  using column_types(1) state_str_short(1) [of "j_state j"]
  by (auto simp: job_texts_def text_fits_def too_long_def not_less split: option.splits)

lemma other_texts_fit:
  "list_all (text_fits ''job_pages'') (page_texts p) \<longleftrightarrow> (\<forall>h. p_content_hash p = Some h \<longrightarrow> length h \<le> 64)"
  "list_all (text_fits ''failed_pages'') (failure_texts f) \<longleftrightarrow> length (f_error_type f) \<le> 64"
  "list_all (text_fits ''dead_letters'') (letter_texts d) \<longleftrightarrow> length (d_reason d) \<le> 32"
  "list_all (text_fits ''target_snapshots'') (snapshot_texts s) \<longleftrightarrow> \<not> snapshot_too_long s"
  using column_types(2-5) state_str_short(2) [of "p_state p"]
  by (auto simp: page_texts_def failure_texts_def letter_texts_def snapshot_texts_def text_fits_def
      snapshot_too_long_def not_less split: option.splits)

end
