(* ===== verification/Columns.thy ===== *)
theory Columns
  imports System Schema
begin

text \<open>
  Every row the program writes fits the columns the migration gives its table.
\<close>

definition columns_fit :: "db \<Rightarrow> bool" where
  "columns_fit db \<longleftrightarrow>
     (\<forall>j \<in> set (jobs db). 0 < j_max_pages j \<and> j_max_pages j \<le> 2147483647
        \<and> (length (j_id j) \<le> 64 \<longrightarrow> list_all (text_fits ''jobs'') (job_texts j)))
     \<and> (\<forall>p \<in> set (job_pages db). list_all (text_fits ''job_pages'') (page_texts p))
     \<and> (\<forall>f \<in> set (failed_pages db). list_all (text_fits ''failed_pages'') (failure_texts f))
     \<and> (\<forall>d \<in> set (dead_letters db). list_all (text_fits ''dead_letters'') (letter_texts d))
     \<and> (\<forall>s \<in> set (target_snapshots db). list_all (text_fits ''target_snapshots'') (snapshot_texts s))"

definition job_typed :: "job \<Rightarrow> bool" where
  "job_typed j \<longleftrightarrow> \<not> too_long j \<and> j_celery_task_id j \<in> {None, Some (j_id j)}
     \<and> 0 < j_max_pages j \<and> j_max_pages j \<le> 2147483647"

lemma row_step_typed: "row_step c j r \<Longrightarrow> job_typed j \<Longrightarrow> job_typed r"
  by (induction rule: row_step.induct)
    (auto simp: job_typed_def too_long_def begun_row_def poisoned_row_def transition_cols_def split: option.splits)

lemma new_job_typed: "accepted_row (new_job now i n) \<Longrightarrow> job_typed ((new_job now i n)\<lparr>j_celery_task_id := Some i\<rparr>)"
  by (auto simp: job_typed_def accepted_row_def too_long_def new_job_def split: option.splits)

lemma moves_typed:
  assumes "moves (row_step c) db db'" and "\<forall>i j. get_job db i = Some j \<longrightarrow> job_typed j"
    and r: "get_job db' i = Some r"
  shows "job_typed r"
proof (cases "get_job db i")
  case None
  from moves_new [OF assms(1) this r] show ?thesis using new_job_typed by blast
next
  case (Some j)
  then show ?thesis using moves_old [OF assms(1) Some] r assms(2) row_step_typed by fastforce
qed

text \<open>The other tables.\<close>

definition others_typed :: "db \<Rightarrow> bool" where
  "others_typed db \<longleftrightarrow> (\<forall>p \<in> set (job_pages db). p_content_hash p = None)
     \<and> (\<forall>f \<in> set (failed_pages db). length (f_error_type f) \<le> 64)
     \<and> (\<forall>d \<in> set (dead_letters db). length (d_reason d) \<le> 32)
     \<and> (\<forall>s \<in> set (target_snapshots db). \<not> snapshot_too_long s)"

lemma others_frame:
  "job_pages db' = job_pages db \<Longrightarrow> failed_pages db' = failed_pages db \<Longrightarrow> dead_letters db' = dead_letters db \<Longrightarrow>
    target_snapshots db' = target_snapshots db \<Longrightarrow> others_typed db' = others_typed db"
  by (simp add: others_typed_def)

lemma others_flush [simp]: "others_typed (flush_job now j j' db) = others_typed db"
  by (rule others_frame) (simp_all add: frame)

lemma others_update [simp]: "others_typed (update_job now i f db) = others_typed db"
  by (rule others_frame) (simp_all add: frame)

lemma others_park: "park_dead_letter now db i why detail p = Inr db' \<Longrightarrow> others_typed db \<Longrightarrow> others_typed db'"
  by (auto simp: park_dead_letter_def others_typed_def split: if_splits)

lemma others_transition: "transition now db j j' t e = Inr (r, db') \<Longrightarrow> others_typed db' = others_typed db"
  by (auto simp: transition_Inr)

lemma others_begin: "begin_crawl c now db i = Inr (out, db') \<Longrightarrow> others_typed db \<Longrightarrow> others_typed db'"
  by (auto simp: begin_crawl_def bindE_Inr_iff bump_lost_worker_def start_job_def transition_def Let_def
      split: option.splits if_splits prod.splits intro: others_park)

lemma set_upsert: "s \<in> set (upsert_snapshot v xs) \<Longrightarrow> \<not> snapshot_too_long v \<Longrightarrow>
    \<forall>s \<in> set xs. \<not> snapshot_too_long s \<Longrightarrow> \<not> snapshot_too_long s"
  by (auto simp: upsert_snapshot_def snapshot_too_long_def split: if_splits)

lemma others_upserts: "\<forall>v \<in> set vs. \<not> snapshot_too_long v \<Longrightarrow> \<forall>s \<in> set xs. \<not> snapshot_too_long s \<Longrightarrow>
    s \<in> set (fold upsert_snapshot vs xs) \<Longrightarrow> \<not> snapshot_too_long s"
  by (induction vs arbitrary: xs) (auto dest: set_upsert)

lemma others_merge: "finalise_merge D now db i p results rows = Inr (emitted, v, db') \<Longrightarrow> others_typed db \<Longrightarrow>
    others_typed db'"
proof -
  assume m: "finalise_merge D now db i p results rows = Inr (emitted, v, db')" and ok: "others_typed db"
  then obtain db1 where st: "store_snapshot (sha256 D) now db (pl_spec p) rows i = Inr db1"
    and db': "target_snapshots db' = target_snapshots db1"
    by (auto simp: finalise_merge_def bindE_Inr_iff Let_def update_baseline_def split: option.splits if_splits)
  let ?vs = "map (snapshot_row (sha256 D) now (pl_spec p) i) rows"
  have "\<not> snapshot_too_long s" if "s \<in> set (target_snapshots db1)" for s
  proof (cases "rows = []")
    case True
    with st ok that show ?thesis by (simp add: store_snapshot_def others_typed_def)
  next
    case False
    with st have "\<not> list_ex snapshot_too_long ?vs" "target_snapshots db1 = fold upsert_snapshot ?vs (target_snapshots db)"
      by (auto simp: store_snapshot_def Let_def simp del: list_ex_iff list.pred_map split: if_splits)
    with that ok others_upserts [of ?vs "target_snapshots db" s] show ?thesis
      by (simp add: others_typed_def list_ex_iff)
  qed
  with finalise_merge_frame [OF m] db' ok show ?thesis by (simp add: others_typed_def)
qed

lemma others_step: "db_step D db db' \<Longrightarrow> others_typed db \<Longrightarrow> others_typed db'"
proof (induction rule: db_step.induct)
  case (Submitted now i n db j db')
  then show ?case by (simp add: others_typed_def)
next
  case (Begun now db i out db')
  then show ?case by (rule others_begin)
next
  case (PageStored now db i page url n b db')
  then show ?case
    by (cases b) (auto simp: record_page_True record_page_False, auto simp: others_typed_def)
next
  case (PageFailed now i page url e retries db db')
  then show ?case
    by (auto simp: record_failure_row_def record_failed_page_def Let_def split: if_splits)
       (auto simp: others_typed_def)
next
  case (Merged now db i p results rows emitted v db')
  then show ?case by (rule others_merge)
next
  case (Finalised now db i key bytes n v k db')
  then show ?case
    by (auto simp: finalise_write_def bindE_Inr_iff split: option.splits dest: others_transition)
next
  case (Cancelled db i j now j' db')
  then show ?case by (simp add: others_transition)
next
  case (Parked now db i why detail payload db')
  then show ?case
    by (auto simp: park_db_def bindE_Inr_iff others_transition split: option.splits if_splits intro: others_park)
qed

lemma reachable_typed:
  assumes "db_steps D empty_db db"
  shows "(\<forall>i j. get_job db i = Some j \<longrightarrow> job_typed j) \<and> others_typed db \<and> store_ok db"
  using assms
proof (induction rule: rtranclp_induct)
  case base
  show ?case using store_ok_empty by (simp add: get_job_def others_typed_def empty_db_def)
next
  case (step db1 db2)
  with moves_typed [OF db_step_moves [OF step(2)]] others_step [OF step(2)] db_step_store_ok [OF step(2)] show ?case by blast
qed



end
