(* ===== verification/CeleryApp.thy ===== *)
theory CeleryApp
  imports Schedule Run
begin

text \<open>
  \<^verbatim>\<open>queue/celery_app.py\<close>: the configuration the broker library gets, the tasks that are
  declared with it, and two consequences for the program: which worker takes a message, and how
  long the retries of a page task last.  The library itself is a parameter: \<open>route\<close> is the
  queue it puts a message on, \<open>limit\<close> the number of retries it grants a task.
\<close>

subsection \<open>The configuration\<close>

record celery_conf =
  cf_broker_url :: string
  cf_result_backend :: string
  cf_connection_retry_on_startup :: bool
  cf_visibility_timeout :: int
  cf_queue_order_strategy :: string
  cf_result_expires :: int
  cf_acks_late :: bool
  cf_reject_on_worker_lost :: bool
  cf_prefetch_multiplier :: int
  cf_soft_time_limit :: int
  cf_time_limit :: int
  cf_queues :: "string list"
  cf_routes :: "(string, string) dict"
  cf_default_queue :: string
  cf_default_exchange :: string
  cf_default_routing_key :: string
  cf_create_missing_queues :: bool
  cf_track_started :: bool
  cf_send_sent_event :: bool
  cf_send_task_events :: bool
  cf_task_serializer :: string
  cf_result_serializer :: string
  cf_accept_content :: "string list"
  cf_timezone :: string
  cf_enable_utc :: bool
  cf_beat_scheduler :: string
  cf_redbeat_redis_url :: string
  cf_redbeat_lock_timeout :: int
  cf_beat_schedule :: "(string, schedule_entry) dict"
  cf_default_retry_delay :: int
  cf_annotations :: "(string, (string, int) dict) dict"

text \<open>What \<^verbatim>\<open>queue/routing.py\<close> builds when it is imported.\<close>

definition queue_rows :: "(string \<times> json) list \<Rightarrow> exn + queue_config" where
  "queue_rows = mapE (\<lambda>(name, v). case v of JObj opts \<Rightarrow> Inr (name, opts)
     | _ \<Rightarrow> Inl (OtherError ''AttributeError'' ''get''))"

definition declared_queues :: "json \<Rightarrow> exn + string list" where
  "declared_queues file = bindE (load_queue_config file) (\<lambda>qs. bindE (queue_rows qs) build_queues)"

definition celery_app ::
  "string \<Rightarrow> string \<Rightarrow> settings \<Rightarrow> json \<Rightarrow> json option \<Rightarrow> exn + celery_conf" where
  "celery_app redis_url redbeat_redis_url c queues_file schedule_file =
     bindE (declared_queues queues_file) (\<lambda>queues.
     bindE (load_schedule schedule_file) (\<lambda>schedule.
       Inr \<lparr>cf_broker_url = redis_url, cf_result_backend = redis_url,
            cf_connection_retry_on_startup = True,
            cf_visibility_timeout = visibility_timeout_seconds c,
            cf_queue_order_strategy = ''priority'',
            cf_result_expires = 7 * 24 * 3600,
            cf_acks_late = True, cf_reject_on_worker_lost = True,
            cf_prefetch_multiplier = 1,
            cf_soft_time_limit = task_soft_time_limit_seconds c,
            cf_time_limit = task_time_limit_seconds c,
            cf_queues = queues, cf_routes = task_routes,
            cf_default_queue = ''default'', cf_default_exchange = ''scrapequeue'',
            cf_default_routing_key = ''default'', cf_create_missing_queues = False,
            cf_track_started = True, cf_send_sent_event = True, cf_send_task_events = True,
            cf_task_serializer = ''json'', cf_result_serializer = ''json'',
            cf_accept_content = [''json''],
            cf_timezone = ''UTC'', cf_enable_utc = True,
            cf_beat_scheduler = ''redbeat.RedBeatScheduler'',
            cf_redbeat_redis_url = redbeat_redis_url,
            cf_redbeat_lock_timeout = 60, cf_beat_schedule = schedule,
            cf_default_retry_delay = retry_backoff_base_seconds c,
            cf_annotations = [(''*'', [(''max_retries'', max_job_retries c)])]\<rparr>))"

subsection \<open>The tasks\<close>

text \<open>What the decorator of a task says; a number of retries it does not give is the library's.\<close>

record task_options =
  tk_name :: string
  tk_max_retries :: "int option"
  tk_autoretry :: "string list"
  tk_backoff_max :: int

definition crawl_options :: task_options where
  "crawl_options = \<lparr>tk_name = ''scrapequeue.pipeline.crawl.crawl_job'', tk_max_retries = Some 3,
     tk_autoretry = [], tk_backoff_max = 0\<rparr>"

definition page_options :: task_options where
  "page_options = \<lparr>tk_name = ''scrapequeue.pipeline.crawl.fetch_page'', tk_max_retries = Some 5,
     tk_autoretry = [''TransientFetchError'', ''CircuitOpen''], tk_backoff_max = 1800\<rparr>"

definition assemble_options :: task_options where
  "assemble_options = \<lparr>tk_name = ''scrapequeue.pipeline.crawl.assemble_job'', tk_max_retries = Some 3,
     tk_autoretry = [], tk_backoff_max = 0\<rparr>"

definition callback_options :: task_options where
  "callback_options = \<lparr>tk_name = ''scrapequeue.api.routes.webhooks.deliver_callback'', tk_max_retries = Some 5,
     tk_autoretry = [''TransportError'', ''HTTPStatusError''], tk_backoff_max = 600\<rparr>"

definition park_options :: task_options where
  "park_options = \<lparr>tk_name = ''scrapequeue.queue.deadletter.park'', tk_max_retries = None,
     tk_autoretry = [], tk_backoff_max = 0\<rparr>"

definition export_options :: task_options where
  "export_options = \<lparr>tk_name = ''scrapequeue.pipeline.export.export_job'', tk_max_retries = None,
     tk_autoretry = [], tk_backoff_max = 0\<rparr>"

definition beat_options :: task_options where
  "beat_options = \<lparr>tk_name = ''scrapequeue.schedule.beat.submit_scheduled_job'', tk_max_retries = None,
     tk_autoretry = [], tk_backoff_max = 0\<rparr>"

definition selftest_options :: task_options where
  "selftest_options = \<lparr>tk_name = ''scrapequeue.queue.selftest.slow_marker'', tk_max_retries = None,
     tk_autoretry = [], tk_backoff_max = 0\<rparr>"

text \<open>The modules a worker loads, so that their tasks are registered.\<close>

definition autodiscovered :: "string list" where
  "autodiscovered = [''scrapequeue.pipeline.crawl'', ''scrapequeue.schedule.beat'', ''scrapequeue.pipeline.export'',
     ''scrapequeue.queue.deadletter'', ''scrapequeue.queue.selftest'', ''scrapequeue.api.routes.webhooks'']"

definition declared_tasks :: "task_options list" where
  "declared_tasks = [crawl_options, page_options, assemble_options, callback_options, park_options, export_options,
     beat_options, selftest_options]"

lemma tasks_loaded:
  "\<forall>tk \<in> set declared_tasks. fst (rpartition_at (CHR ''.'') (tk_name tk)) \<in> set autodiscovered"
  by code_simp

text \<open>The task and the queue the program names when it sends a message; to stop a task is no
  message of a queue.\<close>

fun published :: "message \<Rightarrow> (string \<times> string) list" where
  "published (CrawlMsg i q) = [(tk_name crawl_options, q)]"
| "published (ChordMsg i pages base q) =
     map (\<lambda>_. (tk_name page_options, q)) pages @ [(tk_name assemble_options, ''export'')]"
| "published (AssembleMsg i results) = [(tk_name assemble_options, ''export'')]"
| "published (CallbackMsg i url st n) = [(tk_name callback_options, ''export'')]"
| "published (RevokeMsg t) = []"

text \<open>
  The laws of the library: a message to a declared queue goes there, one to no declared queue is
  refused unless queues are created as needed, one without a queue goes by the table and else to
  the default queue; an annotation for all tasks replaces what their decorators say.
\<close>

locale celery =
  fixes route :: "celery_conf \<Rightarrow> string \<Rightarrow> string option \<Rightarrow> exn + string"
    and limit :: "celery_conf \<Rightarrow> task_options \<Rightarrow> int"
  assumes named: "q \<in> set (cf_queues conf) \<Longrightarrow> route conf task (Some q) = Inr q"
    and refused: "\<not> cf_create_missing_queues conf \<Longrightarrow> q \<notin> set (cf_queues conf) \<Longrightarrow>
      \<exists>e. route conf task (Some q) = Inl e"
    and unnamed: "route conf task None = route conf task (Some (case map_of (cf_routes conf) task of
        Some q \<Rightarrow> q | None \<Rightarrow> cf_default_queue conf))"
    and annotated: "map_of (cf_annotations conf) ''*'' = Some attrs \<Longrightarrow>
      map_of attrs ''max_retries'' = Some n \<Longrightarrow> limit conf tk = n"
begin

lemma accepted: "\<not> cf_create_missing_queues conf \<Longrightarrow>
    route conf task (Some q) = Inr q \<longleftrightarrow> q \<in> set (cf_queues conf)"
  using named refused by (metis Inr_Inl_False)

lemma app_limit:
  assumes "celery_app u v c qs sch = Inr conf"
  shows "limit conf tk = max_job_retries c"
proof -
  have "cf_annotations conf = [(''*'', [(''max_retries'', max_job_retries c)])]"
    using assms by (auto simp: celery_app_def bindE_Inr_iff)
  with annotated [of conf "[(''max_retries'', max_job_retries c)]"] show ?thesis by simp
qed

end

text \<open>A library that follows the laws.\<close>

definition plain_route :: "celery_conf \<Rightarrow> string \<Rightarrow> string option \<Rightarrow> exn + string" where
  "plain_route conf task queue =
     (let q = (case queue of Some q \<Rightarrow> q | None \<Rightarrow>
         (case map_of (cf_routes conf) task of Some q \<Rightarrow> q | None \<Rightarrow> cf_default_queue conf))
      in if q \<in> set (cf_queues conf) \<or> cf_create_missing_queues conf then Inr q
         else Inl (OtherError ''QueueNotFound'' q))"

definition plain_limit :: "celery_conf \<Rightarrow> task_options \<Rightarrow> int" where
  "plain_limit conf tk =
     (case map_of (cf_annotations conf) ''*'' of
        Some attrs \<Rightarrow> (case map_of attrs ''max_retries'' of Some n \<Rightarrow> n
           | None \<Rightarrow> (case tk_max_retries tk of Some n \<Rightarrow> n | None \<Rightarrow> 3))
      | None \<Rightarrow> (case tk_max_retries tk of Some n \<Rightarrow> n | None \<Rightarrow> 3))"

interpretation plain: celery plain_route plain_limit
  by unfold_locales (auto simp: plain_route_def plain_limit_def Let_def)

subsection \<open>Queues of the deployment\<close>

text \<open>\<^verbatim>\<open>config/queues.yml\<close> without its descriptions, and the queues of the two workers.\<close>

definition queues_yml :: json where
  "queues_yml = JObj [(''queues'', JObj
     [(''default'', JObj [(''priority'', JInt 5)]), (''browser'', JObj [(''priority'', JInt 3)]),
      (''parse'', JObj [(''priority'', JInt 7)]), (''export'', JObj [(''priority'', JInt 8)]),
      (''dead_letter'', JObj [(''priority'', JInt 0)])])]"

definition worker_queues :: "string list list" where
  "worker_queues = [[''export'', ''parse'', ''default''], [''browser'']]"

lemma queues_in_order:
  "declared_queues queues_yml = Inr [''export'', ''parse'', ''default'', ''browser'', ''dead_letter'']"
  by code_simp

definition consumed :: "(celery_conf \<Rightarrow> string \<Rightarrow> string option \<Rightarrow> exn + string) \<Rightarrow> celery_conf \<Rightarrow> message \<Rightarrow> bool" where
  "consumed route conf m \<longleftrightarrow> (\<forall>(task, q) \<in> set (published m).
     route conf task (Some q) = Inr q \<and> (\<exists>worker \<in> set worker_queues. q \<in> set worker))"

definition all_consumed :: "(celery_conf \<Rightarrow> string \<Rightarrow> string option \<Rightarrow> exn + string) \<Rightarrow> celery_conf
    \<Rightarrow> ('s, 'r) world \<Rightarrow> bool" where
  "all_consumed route conf w \<longleftrightarrow> (\<forall>m \<in> set (w_sent w). consumed route conf m)"

lemma all_consumed_simps [simp]:
  "all_consumed route conf (send m w) \<longleftrightarrow> consumed route conf m \<and> all_consumed route conf w"
  "all_consumed route conf (w_db_update f w) = all_consumed route conf w"
  "all_consumed route conf (w_objects_update g w) = all_consumed route conf w"
  "all_consumed route conf (w_redis_update h w) = all_consumed route conf w"
  by (auto simp: all_consumed_def)

definition in_default_queue :: "(string, schedule_entry) dict \<Rightarrow> bool" where
  "in_default_queue d \<longleftrightarrow> (\<forall>n e. map_of d n = Some e \<longrightarrow> se_queue e = ''default'')"

lemma in_default_put: "in_default_queue d \<Longrightarrow> se_queue e = ''default'' \<Longrightarrow> in_default_queue (dict_put n e d)"
  by (auto simp: in_default_queue_def)

lemma schedule_loop_queues:
  "schedule_loop items out = Inr out' \<Longrightarrow> in_default_queue out \<Longrightarrow> in_default_queue out'"
  by (induction items out rule: schedule_loop.induct)
    (auto simp: bindE_Inr_iff Let_def in_default_put split: json.splits if_splits)

lemma load_schedule_queues: "load_schedule file = Inr d \<Longrightarrow> in_default_queue d"
  by (auto simp: load_schedule_def in_default_queue_def split: option.splits json.splits if_splits
      dest!: schedule_loop_queues)

text \<open>A deployment that reads its queues from the file of the repository.\<close>

lemma app_queues:
  assumes "celery_app u v c queues_yml sch = Inr conf"
  shows "cf_queues conf = [''export'', ''parse'', ''default'', ''browser'', ''dead_letter'']"
    and "in_default_queue (cf_beat_schedule conf)" and "\<not> cf_create_missing_queues conf"
    and "cf_routes conf = task_routes" "cf_default_queue conf = ''default''"
  using assms load_schedule_queues by (auto simp: celery_app_def bindE_Inr_iff queues_in_order)

lemma queue_for_worker: "queue_for f = ''browser'' \<or> queue_for f = ''default''"
  by (simp add: queue_for_def)

context celery
begin

lemma consumedI:
  assumes "celery_app u v c queues_yml sch = Inr conf"
    and "\<And>t q. (t, q) \<in> set (published m) \<Longrightarrow> q \<in> {''export'', ''default'', ''browser''}"
  shows "consumed route conf m"
  using assms(2) app_queues(1) [OF assms(1)] by (fastforce simp: consumed_def worker_queues_def intro: named)

lemma sent_consumed:
  assumes app: "celery_app u v c queues_yml sch = Inr conf"
  shows "consumed route conf (CrawlMsg i (queue_for f))"
    "consumed route conf (ChordMsg i pages base (if b then ''browser'' else ''default''))"
    "consumed route conf (AssembleMsg i results)" "consumed route conf (CallbackMsg i url st n)"
    "consumed route conf (RevokeMsg t)"
  using queue_for_worker [of f] by (auto intro!: consumedI [OF app] split: if_splits)

end

lemma notify_consumed:
  "consumed route conf (CallbackMsg i (the (pl_callback p)) st n) \<Longrightarrow> all_consumed route conf w \<Longrightarrow>
     all_consumed route conf (notify p i st n w)"
  by (auto simp: notify_def split: option.splits)

definition keeps_consumed :: "(celery_conf \<Rightarrow> string \<Rightarrow> string option \<Rightarrow> exn + string) \<Rightarrow> celery_conf
    \<Rightarrow> (('s, 'r) world \<Rightarrow> ('s, 'r) world) \<Rightarrow> bool" where
  "keeps_consumed route conf f \<longleftrightarrow> (\<forall>w. all_consumed route conf w \<longrightarrow> all_consumed route conf (f w))"

context celery
begin

lemma submissions_consumed:
  assumes app: "celery_app u v c queues_yml sch = Inr conf"
    and env: "keeps_consumed route conf env" and w: "all_consumed route conf w"
  shows "all_consumed route conf (snd (submit_job D dns depth env now i p key payload w))"
    and "all_consumed route conf (snd (retry_job env now i p old w))"
    and "all_consumed route conf (snd (submit_scheduled_job D dns env now i name job w))"
  using env w sent_consumed [OF app]
  by (auto simp: submit_job_def retry_job_def submit_scheduled_job_def Let_def keeps_consumed_def
      split: sum.splits prod.splits)

lemma tasks_consumed:
  assumes app: "celery_app u v c queues_yml sch = Inr conf" and w: "all_consumed route conf w"
  shows "all_consumed route conf (snd (cancel_job now p i w))"
    and "all_consumed route conf (snd (crawl_job D now i w))"
  using w sent_consumed [OF app]
  by (auto simp: cancel_job_def crawl_job_def Let_def split: sum.splits prod.splits)

lemma finalise_consumed:
  assumes app: "celery_app u v c queues_yml sch = Inr conf" and w: "all_consumed route conf w"
    and env: "\<And>n. keeps_consumed route conf (env n)"
  shows "all_consumed route conf (snd (assemble_job D env now results i w))"
  using w env sent_consumed(4) [OF app]
  by (auto simp: assemble_job_def finalise_job_def Let_def keeps_consumed_def
      intro!: notify_consumed split: sum.splits prod.splits option.splits)

lemma page_consumed:
  assumes w: "all_consumed route conf w" and env: "keeps_consumed route conf env"
    and run: "fetch_page D W R S env fuel now clock retries i page base w = Some (res, w')"
  shows "all_consumed route conf w'"
  using w env run
  by (auto simp: fetch_page_def store_page_def fail_page_def Let_def keeps_consumed_def
      split: option.splits sum.splits prod.splits if_splits failure_handling.splits)

end

text \<open>
  C20. With the queues of the repository, whatever a request handler, the scheduler or a task
  sends goes to a declared queue that one of the deployed workers consumes, and the library
  accepts exactly the declared queues.
\<close>

theorem messages_reach_workers:
  assumes "celery route limit" and app: "celery_app u v c queues_yml sch = Inr conf"
    and env: "keeps_consumed route conf env" "\<forall>n. keeps_consumed route conf (envs n)"
    and w: "all_consumed route conf w"
  shows "all_consumed route conf (snd (submit_job D dns depth env now i p key payload w))
    \<and> all_consumed route conf (snd (retry_job env now i p old w))
    \<and> all_consumed route conf (snd (submit_scheduled_job D dns env now i name job w))
    \<and> all_consumed route conf (snd (cancel_job now p i w))
    \<and> all_consumed route conf (snd (crawl_job D now i w))
    \<and> all_consumed route conf (snd (assemble_job D envs now results i w))
    \<and> (\<forall>res w'. fetch_page D W R S env fuel now clock retries i page base w = Some (res, w')
        \<longrightarrow> all_consumed route conf w')
    \<and> (\<forall>n e. map_of (cf_beat_schedule conf) n = Some e \<longrightarrow>
        route conf (se_task e) (Some (se_queue e)) = Inr ''default'')
    \<and> (route conf task (Some q) = Inr q
        \<longleftrightarrow> q \<in> {''export'', ''parse'', ''default'', ''browser'', ''dead_letter''})"
proof -
  note sub = celery.submissions_consumed [OF assms(1) app env(1) w]
  have envs: "keeps_consumed route conf (envs n)" for n using env(2) by simp
  have beat: "route conf (se_task e) (Some (se_queue e)) = Inr ''default''"
    if "map_of (cf_beat_schedule conf) n = Some e" for n e
    using that app_queues(1,2) [OF app] celery.named [OF assms(1), of "''default''" conf]
    by (simp add: in_default_queue_def)
  have "route conf task (Some q) = Inr q \<longleftrightarrow> q \<in> set (cf_queues conf)"
    using celery.accepted [OF assms(1)] app_queues(3) [OF app] by blast
  then have "route conf task (Some q) = Inr q
      \<longleftrightarrow> q \<in> {''export'', ''parse'', ''default'', ''browser'', ''dead_letter''}"
    by (simp add: app_queues(1) [OF app])
  moreover have "all_consumed route conf (snd (assemble_job D envs now results i w))"
    by (rule celery.finalise_consumed [OF assms(1) app w envs])
  ultimately show ?thesis
    using beat by (intro conjI allI impI sub celery.tasks_consumed [OF assms(1) app w]) (fast intro: celery.page_consumed [OF assms(1) w env(1)])+
qed

theorem messages_reach_workers_witness:
  "\<exists>conf. celery_app ''redis://r/0'' ''redis://r/1'' (default_settings ''b'') queues_yml None = Inr conf
    \<and> all_consumed plain_route conf (snd (crawl_job sample_deployment 1 ''j1'' (sample_world fresh_db)))
    \<and> plain_route conf ''t'' (Some ''parse'') = Inr ''parse''"
proof -
  obtain conf where app: "celery_app ''redis://r/0'' ''redis://r/1'' (default_settings ''b'') queues_yml None = Inr conf"
    by (simp add: celery_app_def queues_in_order load_schedule_def)
  have id: "keeps_consumed plain_route conf (\<lambda>w. w :: (mem_s3, mem) world)"
    "\<forall>n::nat. keeps_consumed plain_route conf (\<lambda>w. w :: (mem_s3, mem) world)"
    by (simp_all add: keeps_consumed_def)
  have "all_consumed plain_route conf (sample_world fresh_db)" by (simp add: all_consumed_def)
  note m = messages_reach_workers [OF plain.celery_axioms app id this, where D = sample_deployment and q = "''parse''"
      and task = "''t''" and now = 1 and i = "''j1''"]
  have "all_consumed plain_route conf (snd (crawl_job sample_deployment 1 ''j1'' (sample_world fresh_db)))"
    "plain_route conf ''t'' (Some ''parse'') = Inr ''parse''"
    using m by blast+
  with app show ?thesis by blast
qed

subsection \<open>Retries of a page task\<close>

text \<open>The exceptions that are retried; the library checks the class against the decorator's list.\<close>

definition retried :: "exn \<Rightarrow> bool" where
  "retried e \<longleftrightarrow> exn_name e \<in> set (tk_autoretry page_options)"

text \<open>
  \<^verbatim>\<open>retry_backoff\<close> with jitter: the library waits at most \<open>2 ^ n\<close> seconds before retry
  \<open>n + 1\<close>, and never more than \<^verbatim>\<open>retry_backoff_max\<close>.
\<close>

definition backoff :: "task_options \<Rightarrow> (nat \<Rightarrow> rat) \<Rightarrow> bool" where
  "backoff tk delay \<longleftrightarrow> (\<forall>n. 0 \<le> delay n \<and> delay n \<le> 2 ^ n \<and> delay n \<le> of_int (tk_backoff_max tk))"

text \<open>
  The deliveries of one page task, \<open>left\<close> retries after this one; \<open>others n\<close> is what the rest
  of the system does to the server while retry \<open>n\<close> waits.
\<close>

fun page_deliveries ::
  "'s deployment \<Rightarrow> 'n web \<Rightarrow> 'r redis \<Rightarrow> 'r surroundings \<Rightarrow> (nat \<Rightarrow> 'r \<Rightarrow> 'r) \<Rightarrow> (nat \<Rightarrow> rat)
    \<Rightarrow> nat \<Rightarrow> (nat \<Rightarrow> datetime) \<Rightarrow> (nat \<Rightarrow> rat) \<Rightarrow> uuid \<Rightarrow> int \<Rightarrow> string option \<Rightarrow> nat \<Rightarrow> nat
    \<Rightarrow> ('s, 'r) world \<Rightarrow> ((exn + page_result) \<times> ('s, 'r) world) option" where
  "page_deliveries D W R S others delay fuel now clock i page base left n w =
     (case fetch_page D W R S (\<lambda>w. w) fuel (now n) (clock n) n i page base w of
        Some (Inl e, w1) \<Rightarrow>
          if retried e \<and> left \<noteq> 0
          then page_deliveries D W R S others delay fuel now clock i page base (left - 1) (n + 1)
                 (w1\<lparr>w_redis := others n (r_sleep R (delay n) (w_redis w1))\<rparr>)
          else Some (Inl e, w1)
      | res \<Rightarrow> res)"

declare page_deliveries.simps [simp del]

text \<open>An open circuit whose probe is taken, until some instant.\<close>

definition shut_until :: "('r \<Rightarrow> string \<Rightarrow> entry option) \<Rightarrow> string \<Rightarrow> rat \<Rightarrow> 'r \<Rightarrow> bool" where
  "shut_until live d t r \<longleftrightarrow> (\<forall>k \<in> {open_key d, probe_key d}. \<exists>v x. live r k = Some (v, Some x) \<and> t \<le> x)"

definition quiet_on :: "('r \<Rightarrow> string \<Rightarrow> entry option) \<Rightarrow> ('r \<Rightarrow> rat) \<Rightarrow> string \<Rightarrow> ('r \<Rightarrow> 'r) \<Rightarrow> bool" where
  "quiet_on live clock d f \<longleftrightarrow> (\<forall>r. live (f r) (open_key d) = live r (open_key d)
     \<and> live (f r) (probe_key d) = live r (probe_key d) \<and> clock (f r) = clock r)"

context redis_server
begin

lemma shut_refuses:
  assumes "shut_until live d t r" and "domain_of url = Inr d"
  obtains ttl r' where "assert_closed R url r = (Inl (CircuitOpen d ttl), r')" "shut_until live d t r'" "clock r' = clock r"
proof -
  obtain v x where o1: "live r (open_key d) = Some (v, Some x)" using assms(1) by (auto simp: shut_until_def)
  have p: "live r (probe_key d) \<noteq> None" using assms(1) by (auto simp: shut_until_def)
  let ?t = "r_ttl R (open_key d) r"
  let ?nx = "r_set_nx_ex R (probe_key d) ''1'' (max ?t 1) r"
  have "0 \<le> ?t" using ttl_present [OF o1] .
  then have "assert_closed R url r = (Inl (CircuitOpen d ?t), snd ?nx)"
    using set_nx_taken [OF p] assms(2)
    by (simp add: assert_closed_def circuit_state_of_def Let_def case_prod_beta)
  moreover have "shut_until live d t (snd ?nx)" using assms(1) set_nx_taken [OF p] by (simp add: shut_until_def)
  ultimately show thesis using that clock_cmds(1) by blast
qed

lemma shut_sleeps:
  assumes "shut_until live d t r" and "0 \<le> s" and "clock r + s < t" and "quiet_on live clock d f"
  shows "shut_until live d t (f (r_sleep R s r)) \<and> clock (f (r_sleep R s r)) = clock r + s"
  using assms by (fastforce simp: shut_until_def quiet_on_def live_sleep clock_sleep still_live_def)

end

text \<open>The guards before the circuit breaker let the page through.\<close>

definition reaches_breaker :: "settings \<Rightarrow> 'n web \<Rightarrow> target_spec \<Rightarrow> int \<Rightarrow> string option \<Rightarrow> string \<Rightarrow> bool" where
  "reaches_breaker c W spec page base d \<longleftrightarrow> (\<exists>url v. page_url spec page base = Inr url \<and> domain_of url = Inr d
     \<and> assert_allowed (wb_dns W) url (allowed_target_hosts c) True = Inr v
     \<and> robots_check c W spec url = Inr ())"

lemma shut_page:
  assumes "redis_server R live clk" and "reaches_breaker (cfg D) W spec page base d"
    and "shut_until live d t (w_redis w)"
    and "get_job (w_db w) i = Some j" "j_state j \<noteq> CANCELLED" "spec_of D (j_target j) = Inr spec"
  obtains ttl r' where "shut_until live d t r'" "clk r' = clk (w_redis w)"
    "fetch_page D W R S (\<lambda>w. w) fuel now clock n i page base w
      = Some (fail_page (cfg D) now i page (failure_url spec base) (CircuitOpen d ttl) n (w\<lparr>w_redis := r'\<rparr>))"
proof -
  obtain url v where u: "page_url spec page base = Inr url" "domain_of url = Inr d"
    "assert_allowed (wb_dns W) url (allowed_target_hosts (cfg D)) True = Inr v" "robots_check (cfg D) W spec url = Inr ()"
    using assms(2) by (auto simp: reaches_breaker_def)
  obtain ttl r' where r': "assert_closed R url (w_redis w) = (Inl (CircuitOpen d ttl), r')"
    "shut_until live d t r'" "clk r' = clk (w_redis w)"
    using redis_server.shut_refuses [OF assms(1,3) u(2)] by blast
  have "fetch_one (cfg D) W R S fuel clock spec page base (w_redis w)
      = Some (Inl (CircuitOpen d ttl), r', CheckUrl # (if t_respect_robots spec then [AskRobots] else []) @ [AskCircuit])"
    by (simp add: fetch_one_def u r'(1) Let_def)
  then show thesis using that r'(2,3) assms(4-6) by (simp add: fetch_page_def)
qed

lemma shut_deliveries:
  assumes R: "redis_server R live clk" and go: "reaches_breaker (cfg D) W spec page base d"
    and quiet: "\<forall>n. quiet_on live clk d (others n)" and delay: "backoff page_options delay"
    and j: "get_job (w_db w) i = Some j" "j_state j \<noteq> CANCELLED" "spec_of D (j_target j) = Inr spec"
    and left: "int (n + left) = max_job_retries (cfg D)"
    and shut: "shut_until live d t (w_redis w)" "clk (w_redis w) + 2 ^ (n + left) - 2 ^ n < t"
  shows "\<exists>w'. page_deliveries D W R S others delay fuel now clock i page base left n w = Some (Inr (failed_result page), w')
    \<and> failure_recorded (w_db w') i page \<and> job_pages (w_db w') = job_pages (w_db w)
    \<and> clk (w_redis w') \<le> clk (w_redis w) + 2 ^ (n + left) - 2 ^ n"
  using j left shut
proof (induction left arbitrary: n w)
  case 0
  obtain ttl r' where r': "shut_until live d t r'" "clk r' = clk (w_redis w)"
    "fetch_page D W R S (\<lambda>w. w) fuel (now n) (clock n) n i page base w
      = Some (fail_page (cfg D) (now n) i page (failure_url spec base) (CircuitOpen d ttl) n (w\<lparr>w_redis := r'\<rparr>))"
    by (rule shut_page [OF R go 0(5,1-3)])
  obtain db' where db': "record_failure_row (now n) i page (failure_url spec base) (CircuitOpen d ttl) n (w_db w) = Inr db'"
    using 0(1) by (simp add: record_failure_row_def record_failed_page_def Let_def)
  have "job_pages db' = job_pages (w_db w)"
    using db' by (auto simp: record_failure_row_def record_failed_page_def Let_def frame split: if_splits)
  with r' db' 0(4) show ?case
    by (subst page_deliveries.simps)
      (simp add: fail_page_def handle_failure_def record_failure_row_recorded [OF db'])
next
  case (Suc left)
  obtain ttl r' where r': "shut_until live d t r'" "clk r' = clk (w_redis w)"
    "fetch_page D W R S (\<lambda>w. w) fuel (now n) (clock n) n i page base w
      = Some (fail_page (cfg D) (now n) i page (failure_url spec base) (CircuitOpen d ttl) n (w\<lparr>w_redis := r'\<rparr>))"
    by (rule shut_page [OF R go Suc(6,2-4)])
  have b: "0 \<le> delay n" "delay n \<le> 2 ^ n" using delay by (simp_all add: backoff_def)
  let ?r = "others n (r_sleep R (delay n) r')" and ?p = "2 ^ (n + left) :: rat"
  have grow: "(2::rat) ^ n \<le> ?p" by (intro power_increasing) simp_all
  have p2: "(2::rat) ^ (n + Suc left) = 2 * ?p" by simp
  have "clk r' + delay n < t" using b grow Suc(7) unfolding p2 r'(2) by linarith
  then have s: "shut_until live d t ?r" "clk ?r = clk r' + delay n"
    using redis_server.shut_sleeps [OF R r'(1) b(1)] quiet by blast+
  have later: "clk ?r + 2 ^ (Suc n + left) - 2 ^ Suc n \<le> clk (w_redis w) + 2 ^ (n + Suc left) - 2 ^ n"
    using b r'(2) s(2) by simp
  then have "clk ?r + 2 ^ (Suc n + left) - 2 ^ Suc n < t" using Suc(7) by linarith
  with Suc.IH [of "w\<lparr>w_redis := ?r\<rparr>" "Suc n"] Suc(2-5) s(1)
  obtain w' where IH: "page_deliveries D W R S others delay fuel now clock i page base left (Suc n) (w\<lparr>w_redis := ?r\<rparr>)
      = Some (Inr (failed_result page), w')" "failure_recorded (w_db w') i page" "job_pages (w_db w') = job_pages (w_db w)"
    "clk (w_redis w') \<le> clk ?r + 2 ^ (Suc n + left) - 2 ^ Suc n"
    by auto
  have "retried (CircuitOpen d ttl)" by (simp add: retried_def page_options_def exn_name.simps)
  with r'(3) IH(1) Suc(5)
  have "page_deliveries D W R S others delay fuel now clock i page base (Suc left) n w = Some (Inr (failed_result page), w')"
    by (subst page_deliveries.simps) (simp add: fail_page_def handle_failure_def)
  with IH(2-4) later show ?case by (intro exI [of _ w']) linarith
qed


definition shut_circuit :: mem where
  "shut_circuit = \<lparr>m_keys = (\<lambda>k. if k \<in> {open_key ''a.gov'', probe_key ''a.gov''}
     then Some (RStr ''1'', Some 300) else None), m_clock = 0\<rparr>"


end
