(* ===== verification/Broker.thy ===== *)
theory Broker
  imports System Columns CeleryApp
begin

text \<open>
  The tasks and the broker together.  A task is delivered at least once: its message leaves the
  queue when the task has returned or raised, so a worker that dies has changed the database and
  the message is still there.  A chord keeps the pages whose task has not returned and the results
  of the others; when none is left, the assemble task is sent, and when a page task raises for
  good, it never is.
\<close>

subsection \<open>What every task leaves of the list of jobs\<close>

definition job_ids :: "db \<Rightarrow> uuid list" where
  "job_ids db = map j_id (jobs db)"

lemma job_ids_known: "get_job db i = None \<longleftrightarrow> i \<notin> set (job_ids db)"
  by (simp add: get_job_None job_ids_def)

lemma job_ids_update [simp]:
  "(\<And>j. j_id (f j) = j_id j) \<Longrightarrow> job_ids (update_job now i f db) = job_ids db"
  by (simp add: job_ids_def update_job_def)

lemma job_ids_flush [simp]: "job_ids (flush_job now j j' db) = job_ids db"
  by (simp add: flush_job_def flush_cols_def)

lemma job_ids_tables [simp]:
  "job_ids (job_pages_update f db) = job_ids db" "job_ids (failed_pages_update g db) = job_ids db"
  "job_ids (dead_letters_update h db) = job_ids db"
  by (simp_all add: job_ids_def)

lemma job_ids_transition: "transition now db l j t err = Inr (j', db') \<Longrightarrow> job_ids db' = job_ids db"
  by (auto simp: transition_Inr)

lemma job_ids_park: "park_dead_letter now db i why detail payload = Inr db' \<Longrightarrow> job_ids db' = job_ids db"
  by (auto simp: park_dead_letter_def split: if_splits)

lemma job_ids_begin: "begin_crawl c now db i = Inr (out, db') \<Longrightarrow> job_ids db' = job_ids db"
  by (auto simp: begin_crawl_def bump_lost_worker_def start_job_def bindE_Inr_iff Let_def
      dest!: job_ids_transition job_ids_park split: option.splits if_splits prod.splits)

lemma job_ids_record: "record_page now db i page url st n h = Inr (b, db') \<Longrightarrow> job_ids db' = job_ids db"
  by (cases b) (auto simp: record_page_True record_page_False)

lemma job_ids_failure: "record_failure_row now i page url e n db = Inr db' \<Longrightarrow> job_ids db' = job_ids db"
  by (auto simp: record_failure_row_def record_failed_page_def Let_def split: if_splits)

lemma job_ids_merge: "finalise_merge D now db i p results rows = Inr (emitted, v, db') \<Longrightarrow> job_ids db' = job_ids db"
  by (simp add: job_ids_def finalise_merge_frame)

lemma job_ids_write: "finalise_write now db i key bytes n st = Inr (Some db') \<Longrightarrow> job_ids db' = job_ids db"
  by (auto simp: finalise_write_def bindE_Inr_iff dest!: job_ids_transition split: option.splits)

lemmas job_ids_ops = job_ids_transition job_ids_park job_ids_begin job_ids_record job_ids_failure
  job_ids_merge job_ids_write

subsection \<open>What an operation leaves to the broker\<close>

text \<open>
  A change of the world that forgets no job: messages are only added, each new job has its crawl
  message among them, and a task is stopped only when its job has ended.
\<close>

definition ended :: "db \<Rightarrow> uuid \<Rightarrow> bool" where
  "ended db i \<longleftrightarrow> (\<exists>r. get_job db i = Some r \<and> terminal (j_state r))"

definition entered :: "message list \<Rightarrow> uuid \<Rightarrow> bool" where
  "entered ms i \<longleftrightarrow> (\<exists>q. CrawlMsg i q \<in> set ms)"

definition added :: "('s, 'r) world \<Rightarrow> ('s, 'r) world \<Rightarrow> message list \<Rightarrow> bool" where
  "added w w' ms \<longleftrightarrow> w_sent w' = w_sent w @ ms
     \<and> (\<forall>i \<in> set (job_ids (w_db w')). i \<in> set (job_ids (w_db w)) \<or> entered ms i)
     \<and> (\<forall>t. RevokeMsg t \<in> set ms \<longrightarrow> ended (w_db w') t)"

definition joined :: "'s deployment \<Rightarrow> ('s, 'r) world \<Rightarrow> ('s, 'r) world \<Rightarrow> bool" where
  "joined D w w' \<longleftrightarrow> db_steps D (w_db w) (w_db w') \<and> (\<exists>ms. added w w' ms)"

lemma ended_steps: "ended db i \<Longrightarrow> db_steps D db db' \<Longrightarrow> ended db' i"
  using evolves_from_terminal by (fastforce simp: ended_def job_follows_def dest: steps_follow)

lemma joined_same [simp]: "joined D w w"
  by (auto simp: joined_def added_def intro!: exI [of _ "[]"])

lemma joined_trans:
  assumes "joined D w1 w2" "joined D w2 w3"
  shows "joined D w1 w3"
proof -
  from assms obtain ms1 ms2 where a: "added w1 w2 ms1" "added w2 w3 ms2"
    and s: "db_steps D (w_db w1) (w_db w2)" "db_steps D (w_db w2) (w_db w3)" by (auto simp: joined_def)
  have "added w1 w3 (ms1 @ ms2)"
    using a ended_steps [OF _ s(2)] by (fastforce simp: added_def entered_def)
  with rtranclp_trans [OF s] show ?thesis by (auto simp: joined_def)
qed

lemma joined_db:
  assumes "db_steps D (w_db w) db'" and "job_ids db' = job_ids (w_db w)"
  shows "joined D w (w\<lparr>w_db := db'\<rparr>)"
  using assms by (auto simp: joined_def added_def intro!: exI [of _ "[]"])

lemma joined_frame:
  assumes "joined D w w1" "w_db w' = w_db w1" "w_sent w' = w_sent w1"
  shows "joined D w w'"
  using assms by (simp add: joined_def added_def)

lemma joined_send: "(\<And>t. m \<noteq> RevokeMsg t) \<Longrightarrow> joined D w (send m w)"
  by (auto simp: joined_def added_def intro!: exI [of _ "[m]"])

interpretation broker_sessions: task_sessions D "joined D" for D
proof unfold_locales
  show "joined D w (notify p i st n w)" for p i st n and w :: "('a, 'b) world"
    by (simp add: notify_def joined_send split: option.splits)
qed (auto intro: joined_trans joined_frame [OF joined_same] joined_db db_step_intros job_ids_record
    job_ids_failure job_ids_merge job_ids_write)

lemma crawl_ids: "crawl_job D now i w = (res, w') \<Longrightarrow> job_ids (w_db w') = job_ids (w_db w)"
  by (auto simp: crawl_job_def Let_def dest!: job_ids_begin split: sum.splits if_splits)

lemma crawl_joined:
  assumes run: "crawl_job D now i w = (res, w')"
  shows "joined D w w'"
proof -
  have "\<exists>ms. w_sent w' = w_sent w @ ms \<and> (\<forall>t. RevokeMsg t \<notin> set ms)"
    using run by (auto simp: crawl_job_def Let_def split: sum.splits if_splits)
  with crawl_steps [OF run] crawl_ids [OF run] show ?thesis by (auto simp: joined_def added_def)
qed

lemma cancel_ids: "cancel_job now p i w = (res, w') \<Longrightarrow> job_ids (w_db w') = job_ids (w_db w)"
  by (auto simp: cancel_job_def Let_def dest!: job_ids_transition split: sum.splits if_splits prod.splits)

lemma cancel_joined:
  assumes run: "cancel_job now p i w = (res, w')" and typed: "\<And>i j. get_job (w_db w) i = Some j \<Longrightarrow> job_typed j"
  shows "joined D w w'"
proof (cases "w' = w")
  case False
  with run obtain j where f: "bindE (require_scope Write p) (\<lambda>_. find_visible p i (w_db w)) = Inr j"
    and live: "\<not> terminal (j_state j)"
    by (auto simp: cancel_job_def split: sum.splits if_splits)
  then have j: "get_job (w_db w) i = Some j" and p: "visible p j" "pc_scope p \<noteq> Read"
    by (auto simp: bindE_Inr_iff find_visible_def require_scope_def allows_def split: option.splits if_splits)
  from cancel_job_own [OF j live p, of now] run obtain r where r: "get_job (w_db w') i = Some r" "j_state r = CANCELLED"
    and m: "w_sent w' = w_sent w @ [RevokeMsg (case j_celery_task_id j of
                       Some t \<Rightarrow> if t \<noteq> [] then t else j_id j | None \<Rightarrow> j_id j)]" by auto
  have "w_sent w' = w_sent w @ [RevokeMsg i]"
    using m typed [OF j] get_job_id [OF j] by (auto simp: job_typed_def)
  with r cancel_steps [OF run] cancel_ids [OF run] show ?thesis
    by (auto simp: joined_def added_def ended_def)
qed simp

lemma created_ids: "create_job now i n db = Inr (j, db') \<Longrightarrow>
    job_ids (db\<lparr>jobs := jobs db @ [j\<lparr>j_celery_task_id := t\<rparr>]\<rparr>) = job_ids db @ [i]"
  by (auto simp: create_job_Inr job_ids_def new_job_def)

lemma submit_joined:
  assumes run: "submit_job D dns depth (\<lambda>w. w) now i p key payload w = (res, w')"
  shows "joined D w w'"
proof (cases "w' = w")
  case False
  then obtain a where a: "res = Inr a" "\<not> ja_replay a"
    using run by (auto simp: submit_job_def Let_def split: sum.splits)
  obtain q j db1 where c: "create_job now i q (w_db w) = Inr (j, db1)"
    and m: "w_sent w' = w_sent w @ [CrawlMsg i (queue_for (n_fetcher q))]"
    and db: "w_db w' = (w_db w)\<lparr>jobs := jobs (w_db w) @ [j\<lparr>j_celery_task_id := Some i\<rparr>]\<rparr>"
    by (rule submit_freshE [OF run [unfolded a] a(2)]) (simp add: that fields_of_def)
  have "added w w' [CrawlMsg i (queue_for (n_fetcher q))]"
    using m created_ids [OF c] db by (auto simp: added_def entered_def)
  with submit_steps [OF run] show ?thesis by (auto simp: joined_def)
qed simp

lemma retry_joined:
  assumes run: "retry_job (\<lambda>w. w) now k p i w = (res, w')"
  shows "joined D w w'"
proof (cases "w' = w")
  case False
  with run obtain old j db1 where c: "create_job now k (retry_fields old) (w_db w) = Inr (j, db1)"
    and m: "w_sent w' = w_sent w @ [CrawlMsg k (queue_for (j_fetcher old))]"
    and db: "w_db w' = (w_db w)\<lparr>jobs := jobs (w_db w) @ [j\<lparr>j_celery_task_id := Some k\<rparr>]\<rparr>"
    by (auto simp: retry_job_def Let_def split: sum.splits if_splits)
  have "added w w' [CrawlMsg k (queue_for (j_fetcher old))]"
    using m created_ids [OF c] db by (auto simp: added_def entered_def)
  with retry_steps [OF run] show ?thesis by (auto simp: joined_def)
qed simp

lemma scheduled_joined:
  assumes env: "\<And>w. joined D w (env w)" and run: "submit_scheduled_job D dns env now i name job w = (res, w')"
  shows "joined D w w'"
proof (cases "w' = w")
  case False
  with run obtain q j db1 where n: "scheduled_fields D dns name job = Inr q"
    and c: "create_job now i q (w_db w) = Inr (j, db1)"
    and w': "w' = send (CrawlMsg i (queue_for (n_fetcher q)))
      (env (w\<lparr>w_db := (w_db w)\<lparr>jobs := jobs (w_db w) @ [j\<lparr>j_celery_task_id := Some i\<rparr>]\<rparr>\<rparr>))"
    by (auto simp: submit_scheduled_job_def Let_def split: sum.splits)
  let ?w1 = "w\<lparr>w_db := (w_db w)\<lparr>jobs := jobs (w_db w) @ [j\<lparr>j_celery_task_id := Some i\<rparr>]\<rparr>\<rparr>"
  have "steady D env" using env by (auto simp: steady_def joined_def)
  from scheduled_steps [OF this run] have s: "db_steps D (w_db w) (w_db w')" .
  from env [of ?w1] obtain ms where "added ?w1 (env ?w1) ms" by (auto simp: joined_def)
  with created_ids [OF c] have "added w w' (ms @ [CrawlMsg i (queue_for (n_fetcher q))])"
    by (fastforce simp: added_def entered_def w')
  with s show ?thesis by (auto simp: joined_def)
qed simp

lemma park_joined: "park now i why detail dump w = (res, w') \<Longrightarrow> joined D w w'"
proof -
  assume run: "park now i why detail dump w = (res, w')"
  then have "job_ids (w_db w') = job_ids (w_db w)" "w_sent w' = w_sent w"
    by (auto simp: park_def park_db_def bindE_Inr_iff dest!: job_ids_park job_ids_transition
        split: sum.splits option.splits if_splits)
  with park_steps [OF run] show ?thesis by (auto simp: joined_def added_def)
qed

lemmas request_joined = submit_joined retry_joined cancel_joined park_joined

text \<open>What the results of the tasks say about the job.\<close>

lemma crawl_result:
  assumes "crawl_job D now i w = (Inr out, w')" and "get_job (w_db w') i = Some r" "\<not> terminal (j_state r)"
  shows "\<exists>m. w_sent w' = w_sent w @ [m] \<and> (m = AssembleMsg i [] \<or> (\<exists>pages base q. m = ChordMsg i pages base q))"
proof -
  obtain o1 db' where b: "begin_crawl (cfg D) now (w_db w) i = Inr (o1, db')"
    using assms(1) by (cases "begin_crawl (cfg D) now (w_db w) i") (auto simp: crawl_job_def)
  from assms(1) b have db': "w_db w' = db'"
    by (auto simp: crawl_job_def Let_def split: sum.splits if_splits)
  from b show ?thesis
  proof (cases rule: begin_crawl_cases)
    case idle
    with assms(2,3) db' show ?thesis by auto
  next
    case (begun j)
    with assms(1) b show ?thesis by (auto simp: crawl_job_def Let_def split: sum.splits if_splits)
  next
    case (poisoned j)
    with assms(2,3) db' show ?thesis by (auto simp: poisoned_row_def transition_cols_def)
  qed
qed

lemma assemble_result:
  assumes run: "assemble_job D env now results i w = (Inr final, w')"
    and r: "get_job (w_db w') i = Some r"
  shows "terminal (j_state r)"
proof -
  obtain out where plan: "finalise_plan D (w_db w) i = Inr out"
    using run by (cases "finalise_plan D (w_db w) i") (auto simp: assemble_job_def finalise_job_def)
  show ?thesis
  proof (cases out)
    case (Inl stop)
    with plan run have w': "w' = w" by (simp add: assemble_job_def finalise_job_def)
    from plan Inl r show ?thesis unfolding w'
      by (auto simp: finalise_plan_def bindE_Inr_iff split: if_splits)
  next
    case (Inr p)
    have "(\<exists>v k key bytes n. finalise_write now (w_db w') i key bytes n (final_state v k) = Inr None)
        \<or> (\<exists>v k key bytes n db3. finalise_write now db3 i key bytes n (final_state v k) = Inr (Some (w_db w')))"
      using run plan Inr
      by (auto simp: assemble_job_def finalise_job_def Let_def split: sum.splits prod.splits option.splits)
    then show ?thesis
    proof
      assume "\<exists>v k key bytes n. finalise_write now (w_db w') i key bytes n (final_state v k) = Inr None"
      with r show ?thesis by (auto simp: finalise_write_def bindE_Inr_iff split: option.splits)
    next
      assume "\<exists>v k key bytes n db3. finalise_write now db3 i key bytes n (final_state v k) = Inr (Some (w_db w'))"
      then obtain v k key bytes n db3 where w: "finalise_write now db3 i key bytes n (final_state v k) = Inr (Some (w_db w'))"
        by blast
      let ?t = "fst (final_state v k)" and ?e = "snd (final_state v k)"
      from w obtain j where j: "get_job db3 i = Some j" and can: "can_transition (j_state j) ?t"
        and db: "w_db w' = flush_job now j (transition_cols now ?t ?e
          (j\<lparr>j_result_key := Some key, j_result_bytes := Some (int bytes), j_rows := n\<rparr>)) db3"
        by (auto simp: finalise_write_def bindE_Inr_iff transition_Inr split: option.splits)
      have t: "?t \<noteq> j_state j" using can terminal_no_transition [of "j_state j" "j_state j"]
        by (cases "j_state j") (auto simp: final_state_def split: if_splits)
      obtain j' where j': "j' = transition_cols now ?t ?e
          (j\<lparr>j_result_key := Some key, j_result_bytes := Some (int bytes), j_rows := n\<rparr>)" by blast
      then have s: "j_state j' = ?t" by (simp add: transition_cols_def)
      with t have ne: "j' \<noteq> j" "j_state j' \<noteq> j_state j" by auto
      from db j' have "w_db w' = flush_job now j j' db3" by simp
      with ne r j get_job_id [OF j] s have "j_state r = ?t"
        by (auto simp: get_job_flush flushed_def flush_cols_def)
      then show ?thesis by (auto simp: final_state_def)
    qed
  qed
qed

subsection \<open>The broker\<close>

text \<open>
  A chord: the pages of a fan-out in the order they were sent, each with the retries of its task
  so far and the result once it has returned.
\<close>

record chord =
  ch_job :: uuid
  ch_base :: string
  ch_slots :: "(int \<times> nat \<times> page_result option) list"

definition new_chord :: "uuid \<Rightarrow> int list \<Rightarrow> string \<Rightarrow> chord" where
  "new_chord i pages base = \<lparr>ch_job = i, ch_base = base, ch_slots = map (\<lambda>p. (p, 0, None)) pages\<rparr>"

text \<open>
  The ways a job can be left without a task: its message was delivered before the row was
  committed, the scheduler died before it sent the message, its task was stopped by a cancellation
  whose commit failed, or a task of it raised and is not retried, a time limit being one such
  exception.
\<close>

datatype mishap = Overtaken | Unsent | Stopped | GaveUp exn | TimedOut

record ('s, 'r) broker =
  br_world :: "('s, 'r) world"
  br_chords :: "chord list"
  br_lost :: "(uuid \<times> mishap) list"

fun job_of :: "message \<Rightarrow> uuid option" where
  "job_of (CrawlMsg i q) = Some i"
| "job_of (ChordMsg i pages base q) = Some i"
| "job_of (AssembleMsg i results) = Some i"
| "job_of (CallbackMsg i url st n) = None"
| "job_of (RevokeMsg t) = None"

definition acked :: "message \<Rightarrow> ('s, 'r) world \<Rightarrow> ('s, 'r) world" where
  "acked m w = w\<lparr>w_sent := remove1 m (w_sent w)\<rparr>"

definition drop_chord :: "nat \<Rightarrow> ('s, 'r) broker \<Rightarrow> ('s, 'r) broker" where
  "drop_chord k b = b\<lparr>br_chords := take k (br_chords b) @ drop (Suc k) (br_chords b)\<rparr>"

definition lose :: "uuid \<Rightarrow> mishap \<Rightarrow> ('s, 'r) broker \<Rightarrow> ('s, 'r) broker" where
  "lose i x b = b\<lparr>br_lost := (i, x) # br_lost b\<rparr>"

definition put_slot :: "nat \<Rightarrow> nat \<Rightarrow> int \<times> nat \<times> page_result option \<Rightarrow> ('s, 'r) broker \<Rightarrow> ('s, 'r) broker" where
  "put_slot k n slot b = b\<lparr>br_chords := (br_chords b)[k := (br_chords b ! k)\<lparr>ch_slots := (ch_slots (br_chords b ! k))[n := slot]\<rparr>]\<rparr>"

text \<open>What a worker that dies half-way, or a second delivery of a message, may have done.\<close>

definition disturbed :: "'s deployment \<Rightarrow> ('s, 'r) world \<Rightarrow> ('s, 'r) world \<Rightarrow> bool" where
  "disturbed D w w' \<longleftrightarrow> db_steps D (w_db w) (w_db w') \<and> job_ids (w_db w') = job_ids (w_db w) \<and> w_sent w' = w_sent w"

definition slot_of :: "('s, 'r) broker \<Rightarrow> nat \<Rightarrow> nat \<Rightarrow> uuid \<Rightarrow> string \<Rightarrow> int \<Rightarrow> nat \<Rightarrow> bool" where
  "slot_of b k n i base page tries \<longleftrightarrow> k < length (br_chords b) \<and> n < length (ch_slots (br_chords b ! k))
     \<and> i = ch_job (br_chords b ! k) \<and> base = ch_base (br_chords b ! k)
     \<and> ch_slots (br_chords b ! k) ! n = (page, tries, None)"

text \<open>
  The steps.  A request sends and commits in one step; the two cases in which that shows are steps
  of their own: the message overtakes the commit, or the commit fails and the message is out.
  Between the sessions of the scheduler and of a task others may do what forgets no job.  A crawl
  or assemble task that raises is not retried, its decorator names no exception for that.
\<close>

inductive broker_step ::
  "'s deployment \<Rightarrow> 'n web \<Rightarrow> ('s, 'r) broker \<Rightarrow> ('s, 'r) broker \<Rightarrow> bool"
  for D :: "'s deployment" and W :: "'n web" where
  Submit: "submit_job D dns depth (\<lambda>w. w) now i p key payload (br_world b) = (res1, w') \<Longrightarrow>
    broker_step D W b (b\<lparr>br_world := w'\<rparr>)"
| Retry: "retry_job (\<lambda>w. w) now i p old (br_world b) = (res2, w') \<Longrightarrow>
    broker_step D W b (b\<lparr>br_world := w'\<rparr>)"
| Cancel: "cancel_job now p i (br_world b) = (res3, w') \<Longrightarrow> broker_step D W b (b\<lparr>br_world := w'\<rparr>)"
| Park: "park now i why detail dump (br_world b) = (res4, w') \<Longrightarrow> broker_step D W b (b\<lparr>br_world := w'\<rparr>)"
| Schedule: "(\<And>w. joined D w (env w)) \<Longrightarrow>
    submit_scheduled_job D dns env now i name job (br_world b) = (res5, w') \<Longrightarrow>
    broker_step D W b (b\<lparr>br_world := w'\<rparr>)"
| SubmitOvertaken: "submit_job D dns depth (\<lambda>w. w) now i p key payload (br_world b) = (Inr a, w') \<Longrightarrow>
    \<not> ja_replay a \<Longrightarrow>
    crawl_job D now' i (br_world b) = (Inr CrawlMissing, br_world b) \<Longrightarrow>
    broker_step D W b (lose i Overtaken (b\<lparr>br_world := acked (CrawlMsg i q) w'\<rparr>))"
| RetryOvertaken: "retry_job (\<lambda>w. w) now i p old (br_world b) = (Inr a, w') \<Longrightarrow>
    crawl_job D now' i (br_world b) = (Inr CrawlMissing, br_world b) \<Longrightarrow>
    broker_step D W b (lose i Overtaken (b\<lparr>br_world := acked (CrawlMsg i q) w'\<rparr>))"
| SubmitNotCommitted: "submit_job D dns depth (\<lambda>w. w) now i p key payload (br_world b) = (res8, w') \<Longrightarrow>
    broker_step D W b (b\<lparr>br_world := w'\<lparr>w_db := w_db (br_world b)\<rparr>\<rparr>)"
| RetryNotCommitted: "retry_job (\<lambda>w. w) now i p old (br_world b) = (res9, w') \<Longrightarrow>
    broker_step D W b (b\<lparr>br_world := w'\<lparr>w_db := w_db (br_world b)\<rparr>\<rparr>)"
| CancelNotCommitted: "cancel_job now p i (br_world b) = (res10, w') \<Longrightarrow>
    broker_step D W b (lose i Stopped (b\<lparr>br_world := w'\<lparr>w_db := w_db (br_world b)\<rparr>\<rparr>))"
| ScheduleDies: "submit_scheduled_job D dns (\<lambda>w. w) now i name job (br_world b) = (Inr i, w') \<Longrightarrow>
    broker_step D W b (lose i Unsent (b\<lparr>br_world := acked (CrawlMsg i q) w'\<rparr>))"
| Crawl: "CrawlMsg i q \<in> set (w_sent (br_world b)) \<Longrightarrow> crawl_job D now i (br_world b) = (Inr out6, w') \<Longrightarrow>
    broker_step D W b (b\<lparr>br_world := acked (CrawlMsg i q) w'\<rparr>)"
| CrawlRaises: "CrawlMsg i q \<in> set (w_sent (br_world b)) \<Longrightarrow> crawl_job D now i (br_world b) = (Inl e, w') \<Longrightarrow>
    broker_step D W b (lose i (GaveUp e) (b\<lparr>br_world := acked (CrawlMsg i q) w'\<rparr>))"
| FanOut: "ChordMsg i pages base q \<in> set (w_sent (br_world b)) \<Longrightarrow>
    broker_step D W b (b\<lparr>br_world := acked (ChordMsg i pages base q) (br_world b),
      br_chords := br_chords b @ [new_chord i pages base]\<rparr>)"
| Page: "slot_of b k n i base page tries \<Longrightarrow> (\<And>w. joined D w (env w)) \<Longrightarrow>
    fetch_page D W R S env fuel now clock tries i page (Some base) (br_world b) = Some (Inr r, w') \<Longrightarrow>
    broker_step D W b (put_slot k n (page, tries, Some r) (b\<lparr>br_world := w'\<rparr>))"
| PageAgain: "slot_of b k n i base page tries \<Longrightarrow> (\<And>w. joined D w (env w)) \<Longrightarrow>
    fetch_page D W R S env fuel now clock tries i page (Some base) (br_world b) = Some (Inl e, w') \<Longrightarrow>
    retried e \<Longrightarrow> int tries < max_job_retries (cfg D) \<Longrightarrow>
    broker_step D W b (put_slot k n (page, Suc tries, None) (b\<lparr>br_world := w'\<rparr>))"
| PageRaises: "slot_of b k n i base page tries \<Longrightarrow> (\<And>w. joined D w (env w)) \<Longrightarrow>
    fetch_page D W R S env fuel now clock tries i page (Some base) (br_world b) = Some (Inl e, w') \<Longrightarrow>
    \<not> (retried e \<and> int tries < max_job_retries (cfg D)) \<Longrightarrow>
    broker_step D W b (lose i (GaveUp e) (drop_chord k (b\<lparr>br_world := w'\<rparr>)))"
| Gather: "k < length (br_chords b) \<Longrightarrow> ch_slots (br_chords b ! k) = map (\<lambda>(p, t, r). (p, t, Some r)) pages \<Longrightarrow>
    broker_step D W b (drop_chord k (b\<lparr>br_world :=
      send (AssembleMsg (ch_job (br_chords b ! k)) (map (\<lambda>(p, t, r). r) pages)) (br_world b)\<rparr>))"
| Assemble: "AssembleMsg i results \<in> set (w_sent (br_world b)) \<Longrightarrow> (\<And>n w. joined D w (env n w)) \<Longrightarrow>
    assemble_job D env now results i (br_world b) = (Inr out7, w') \<Longrightarrow>
    broker_step D W b (b\<lparr>br_world := acked (AssembleMsg i results) w'\<rparr>)"
| AssembleRaises: "AssembleMsg i results \<in> set (w_sent (br_world b)) \<Longrightarrow> (\<And>n w. joined D w (env n w)) \<Longrightarrow>
    assemble_job D env now results i (br_world b) = (Inl e, w') \<Longrightarrow>
    broker_step D W b (lose i (GaveUp e) (b\<lparr>br_world := acked (AssembleMsg i results) w'\<rparr>))"
| Discard: "RevokeMsg i \<in> set (w_sent (br_world b)) \<Longrightarrow>
    broker_step D W b (b\<lparr>br_world := acked (CrawlMsg i q) (br_world b)\<rparr>)"
| Notify: "broker_step D W b (b\<lparr>br_world := acked (CallbackMsg i url st n) (br_world b)\<rparr>)"
| Disturb: "disturbed D (br_world b) w' \<Longrightarrow> broker_step D W b (b\<lparr>br_world := w'\<rparr>)"
| TimeLimit: "m \<in> set (w_sent (br_world b)) \<Longrightarrow> job_of m = Some i \<Longrightarrow> disturbed D (br_world b) w' \<Longrightarrow>
    broker_step D W b (lose i TimedOut (b\<lparr>br_world := acked m w'\<rparr>))"
| PageTimeLimit: "slot_of b k n i base page tries \<Longrightarrow> disturbed D (br_world b) w' \<Longrightarrow>
    broker_step D W b (lose i TimedOut (drop_chord k (b\<lparr>br_world := w'\<rparr>)))"

subsection \<open>No job is lost silently\<close>

definition carried :: "('s, 'r) broker \<Rightarrow> uuid set" where
  "carried b = {i. Some i \<in> job_of ` set (w_sent (br_world b))} \<union> ch_job ` set (br_chords b)"

definition kept :: "'s deployment \<Rightarrow> ('s, 'r) broker \<Rightarrow> bool" where
  "kept D b \<longleftrightarrow> db_steps D empty_db (w_db (br_world b))
     \<and> (\<forall>i \<in> set (job_ids (w_db (br_world b))). ended (w_db (br_world b)) i \<or> i \<in> carried b \<or> i \<in> fst ` set (br_lost b))
     \<and> (\<forall>t. RevokeMsg t \<in> set (w_sent (br_world b)) \<longrightarrow> ended (w_db (br_world b)) t \<or> t \<in> fst ` set (br_lost b))"

lemma kept_joined:
  assumes k: "kept D b" and j: "joined D (br_world b) w'"
  shows "kept D (b\<lparr>br_world := w'\<rparr>)"
proof -
  from j obtain ms where s: "db_steps D (w_db (br_world b)) (w_db w')" and m: "added (br_world b) w' ms"
    by (auto simp: joined_def)
  have "ended (w_db w') i \<or> i \<in> carried (b\<lparr>br_world := w'\<rparr>) \<or> i \<in> fst ` set (br_lost b)"
    if i: "i \<in> set (job_ids (w_db w'))" for i
  proof (cases "entered ms i")
    case True
    with m show ?thesis by (force simp: added_def entered_def carried_def image_def)
  next
    case False
    with i m k have "ended (w_db (br_world b)) i \<or> i \<in> carried b \<or> i \<in> fst ` set (br_lost b)"
      by (auto simp: added_def kept_def)
    with m ended_steps [OF _ s, of i] show ?thesis by (auto simp: added_def carried_def)
  qed
  moreover have "ended (w_db w') t \<or> t \<in> fst ` set (br_lost b)" if t: "RevokeMsg t \<in> set (w_sent w')" for t
  proof -
    from t m have "RevokeMsg t \<in> set (w_sent (br_world b)) \<or> ended (w_db w') t" by (auto simp: added_def)
    with k ended_steps [OF _ s, of t] show ?thesis unfolding kept_def by blast
  qed
  moreover have "db_steps D empty_db (w_db w')" using k s by (auto simp: kept_def)
  ultimately show ?thesis by (auto simp: kept_def)
qed

lemma kept_moved:
  assumes k: "kept D b" and "w_db (br_world b') = w_db (br_world b)"
    and "set (w_sent (br_world b')) \<subseteq> set (w_sent (br_world b)) \<union> {m. job_of m \<noteq> None}"
    and "\<And>i. i \<in> carried b \<union> fst ` set (br_lost b) \<Longrightarrow> i \<in> carried b' \<union> fst ` set (br_lost b')
      \<or> ended (w_db (br_world b)) i \<or> i \<notin> set (job_ids (w_db (br_world b)))"
    and lost: "set (br_lost b) \<subseteq> set (br_lost b')"
  shows "kept D b'"
proof -
  have "ended (w_db (br_world b')) t \<or> t \<in> fst ` set (br_lost b')"
    if "RevokeMsg t \<in> set (w_sent (br_world b'))" for t
  proof -
    from that assms(3) have "RevokeMsg t \<in> set (w_sent (br_world b))" by auto
    with k have "ended (w_db (br_world b)) t \<or> t \<in> fst ` set (br_lost b)" unfolding kept_def by blast
    with image_mono [OF lost, of fst] show ?thesis unfolding assms(2) by (elim disjE) (rule disjI1, assumption, blast)
  qed
  moreover have "ended (w_db (br_world b')) i \<or> i \<in> carried b' \<or> i \<in> fst ` set (br_lost b')"
    if "i \<in> set (job_ids (w_db (br_world b')))" for i
    using that k assms(2) assms(4) [of i] unfolding kept_def Un_iff by metis
  ultimately show ?thesis using k assms(2) by (simp add: kept_def)
qed

lemma kept_lost: "kept D b \<Longrightarrow> kept D (lose i x b)"
  by (rule kept_moved) (auto simp: lose_def carried_def)

text \<open>A message is taken away: its job has ended, is still carried, or is in the log.\<close>

lemma kept_acked:
  assumes k: "kept D (b\<lparr>br_world := w'\<rparr>)"
    and ok: "\<And>i. job_of m = Some i \<Longrightarrow> i \<in> fst ` set (br_lost b) \<or> ended (w_db w') i \<or> i \<notin> set (job_ids (w_db w'))
      \<or> i \<in> carried (b\<lparr>br_world := acked m w'\<rparr>)"
  shows "kept D (b\<lparr>br_world := acked m w'\<rparr>)"
proof (rule kept_moved [OF k])
  fix i
  assume "i \<in> carried (b\<lparr>br_world := w'\<rparr>) \<union> fst ` set (br_lost (b\<lparr>br_world := w'\<rparr>))"
  then consider "i \<in> fst ` set (br_lost b)" | "i \<in> ch_job ` set (br_chords b)"
    | m' where "m' \<in> set (w_sent w')" "job_of m' = Some i" by (auto simp: carried_def)
  then show "i \<in> carried (b\<lparr>br_world := acked m w'\<rparr>) \<union> fst ` set (br_lost (b\<lparr>br_world := acked m w'\<rparr>))
      \<or> ended (w_db (br_world (b\<lparr>br_world := w'\<rparr>))) i \<or> i \<notin> set (job_ids (w_db (br_world (b\<lparr>br_world := w'\<rparr>))))"
  proof cases
    case 3
    show ?thesis
    proof (cases "m' = m")
      case True
      with ok [of i] 3(2) show ?thesis by auto
    next
      case False
      with 3 have "m' \<in> set (w_sent (acked m w'))" by (simp add: acked_def)
      with 3(2) show ?thesis by (force simp: carried_def image_def)
    qed
  qed (auto simp: carried_def)
qed (auto simp: acked_def dest: notin_set_remove1)

text \<open>A chord is taken away.\<close>

lemma kept_dropped:
  assumes k: "kept D b" and ok: "ch_job (br_chords b ! k) \<in> fst ` set (br_lost b) \<union> carried (drop_chord k b)"
    and len: "k < length (br_chords b)"
  shows "kept D (drop_chord k b)"
proof (rule kept_moved [OF k])
  have s: "set (br_chords b) = insert (br_chords b ! k) (set (take k (br_chords b) @ drop (Suc k) (br_chords b)))"
    using id_take_nth_drop [OF len] by (metis (no_types) Un_insert_right list.simps(15) set_append)
  fix i
  assume "i \<in> carried b \<union> fst ` set (br_lost b)"
  then show "i \<in> carried (drop_chord k b) \<union> fst ` set (br_lost (drop_chord k b))
      \<or> ended (w_db (br_world b)) i \<or> i \<notin> set (job_ids (w_db (br_world b)))"
    using ok by (auto simp: carried_def drop_chord_def s)
qed (auto simp: drop_chord_def)

lemma same_jobs: "ch_job c = ch_job (xs ! k) \<Longrightarrow> ch_job ` set (xs[k := c]) = ch_job ` set xs"
  by (metis list.set_map list_update_id map_update)

lemma carried_slot: "carried (put_slot k n slot b) = carried b"
  by (simp add: carried_def put_slot_def same_jobs)

lemma kept_slot: "kept D b \<Longrightarrow> kept D (put_slot k n slot b)"
proof (rule kept_moved)
  fix i
  assume "i \<in> carried b \<union> fst ` set (br_lost b)"
  then show "i \<in> carried (put_slot k n slot b) \<union> fst ` set (br_lost (put_slot k n slot b))
      \<or> ended (w_db (br_world b)) i \<or> i \<notin> set (job_ids (w_db (br_world b)))"
    unfolding carried_slot by (simp add: put_slot_def)
qed (simp_all add: put_slot_def)

lemma kept_typed: "kept D b \<Longrightarrow> get_job (w_db (br_world b)) i = Some j \<Longrightarrow> job_typed j"
  using reachable_typed by (fastforce simp: kept_def)

lemma ended_known: "\<not> ended db i \<Longrightarrow> i \<in> set (job_ids db) \<Longrightarrow> \<exists>r. get_job db i = Some r \<and> \<not> terminal (j_state r)"
  using job_ids_known [of db i] by (auto simp: ended_def)

lemma crawl_keeps:
  assumes k: "kept D b" and run: "crawl_job D now i (br_world b) = (Inr out, w')"
  shows "kept D (b\<lparr>br_world := acked (CrawlMsg i q) w'\<rparr>)"
proof (rule kept_acked [OF kept_joined [OF k crawl_joined [OF run]]])
  fix k
  assume "job_of (CrawlMsg i q) = Some k"
  then have "k = i" by simp
  show "k \<in> fst ` set (br_lost b) \<or> ended (w_db w') k \<or> k \<notin> set (job_ids (w_db w'))
      \<or> k \<in> carried (b\<lparr>br_world := acked (CrawlMsg i q) w'\<rparr>)"
  proof (cases "ended (w_db w') i \<or> i \<notin> set (job_ids (w_db w'))")
    case False
    then obtain r where "get_job (w_db w') i = Some r" "\<not> terminal (j_state r)" using ended_known by blast
    from crawl_result [OF run this] obtain m where "w_sent w' = w_sent (br_world b) @ [m]"
      and "m = AssembleMsg i [] \<or> (\<exists>pages base q. m = ChordMsg i pages base q)" by blast
    then have m: "m \<in> set (w_sent w')" "job_of m = Some i" "m \<noteq> CrawlMsg i q" by auto
    then have "m \<in> set (w_sent (acked (CrawlMsg i q) w'))" by (simp add: acked_def)
    with m(2) \<open>k = i\<close> show ?thesis by (force simp: carried_def image_def)
  qed (use \<open>k = i\<close> in blast)
qed

lemma assemble_keeps:
  assumes k: "kept D b" and env: "\<And>n w. joined D w (env n w)"
    and run: "assemble_job D env now results i (br_world b) = (Inr out, w')"
  shows "kept D (b\<lparr>br_world := acked (AssembleMsg i results) w'\<rparr>)"
proof (rule kept_acked [OF kept_joined [OF k broker_sessions.assemble_related [OF env run]]])
  fix k
  assume "job_of (AssembleMsg i results) = Some k"
  then have "ended (w_db w') k \<or> k \<notin> set (job_ids (w_db w'))"
    using ended_known [of "w_db w'" i] assemble_result [OF run] by auto
  then show "k \<in> fst ` set (br_lost b) \<or> ended (w_db w') k \<or> k \<notin> set (job_ids (w_db w'))
      \<or> k \<in> carried (b\<lparr>br_world := acked (AssembleMsg i results) w'\<rparr>)" by blast
qed

text \<open>The log takes over the job of a message or of a chord.\<close>

lemma lost_acked:
  assumes k: "kept D b" and j: "joined D (br_world b) w'" and m: "job_of m = Some i"
  shows "kept D (lose i x (b\<lparr>br_world := acked m w'\<rparr>))"
proof -
  have "kept D ((lose i x b)\<lparr>br_world := acked m w'\<rparr>)"
  proof (rule kept_acked)
    show "kept D ((lose i x b)\<lparr>br_world := w'\<rparr>)"
      using kept_joined [OF kept_lost [OF k]] j by (simp add: lose_def)
  qed (use m in \<open>auto simp: lose_def\<close>)
  then show ?thesis by (cases b) (simp add: lose_def)
qed

lemma lost_chord:
  assumes k: "kept D b" and j: "joined D (br_world b) w'" and s: "slot_of b n m i base page tries"
  shows "kept D (lose i x (drop_chord n (b\<lparr>br_world := w'\<rparr>)))"
proof -
  have "kept D (drop_chord n (lose i x (b\<lparr>br_world := w'\<rparr>)))"
    using s by (intro kept_dropped kept_lost kept_joined [OF k j]) (auto simp: lose_def slot_of_def)
  then show ?thesis by (cases b) (simp add: lose_def drop_chord_def)
qed

lemma disturbed_joined: "disturbed D w w' \<Longrightarrow> joined D w w'"
  by (auto simp: disturbed_def joined_def added_def)

text \<open>A request whose commit fails has sent its message, and nothing else is left of it.\<close>

lemma submit_sent: "submit_job D dns depth (\<lambda>w. w) now i p key payload w = (res, w') \<Longrightarrow>
    joined D w (w'\<lparr>w_db := w_db w\<rparr>)"
  by (auto simp: submit_job_def joined_def added_def Let_def split: sum.splits)

lemma retry_sent: "retry_job (\<lambda>w. w) now i p old w = (res, w') \<Longrightarrow> joined D w (w'\<lparr>w_db := w_db w\<rparr>)"
  by (auto simp: retry_job_def joined_def added_def Let_def split: sum.splits if_splits)

lemma cancel_sent:
  assumes k: "kept D b" and run: "cancel_job now p i (br_world b) = (res, w')"
  shows "kept D (lose i Stopped (b\<lparr>br_world := w'\<lparr>w_db := w_db (br_world b)\<rparr>\<rparr>))"
proof -
  have "w_sent w' = w_sent (br_world b) \<or> w_sent w' = w_sent (br_world b) @ [RevokeMsg i]"
    using run kept_typed [OF k, of i] get_job_id [of "w_db (br_world b)" i]
    by (auto simp: cancel_job_def find_visible_def bindE_Inr_iff Let_def job_typed_def
        split: sum.splits if_splits option.splits)
  then have s: "set (w_sent w') = set (w_sent (br_world b)) \<or> set (w_sent w') = insert (RevokeMsg i) (set (w_sent (br_world b)))"
    by auto
  then have "carried (lose i Stopped (b\<lparr>br_world := w'\<lparr>w_db := w_db (br_world b)\<rparr>\<rparr>)) = carried b"
    by (auto simp: carried_def lose_def)
  with s k show ?thesis by (auto simp: kept_def lose_def)
qed

lemma kept_step: "broker_step D W b b' \<Longrightarrow> kept D b \<Longrightarrow> kept D b'"
proof (induction rule: broker_step.induct)
  case (Cancel now p i b res3 w')
  then show ?case by (intro kept_joined) (auto intro: cancel_joined kept_typed)
next
  case (FanOut i pages base q b)
  have "kept D (b\<lparr>br_chords := br_chords b @ [new_chord i pages base]\<rparr>)" (is "kept D ?b")
    by (rule kept_moved [OF FanOut(2)]) (auto simp: carried_def)
  then have "kept D (?b\<lparr>br_world := br_world b\<rparr>)" by simp
  then have "kept D (?b\<lparr>br_world := acked (ChordMsg i pages base q) (br_world b)\<rparr>)"
    by (rule kept_acked) (auto simp: carried_def new_chord_def)
  then show ?case by (cases b) simp
next
  case (Gather k b pages)
  let ?i = "ch_job (br_chords b ! k)"
  let ?b = "b\<lparr>br_world := send (AssembleMsg ?i (map (\<lambda>(p, t, r). r) pages)) (br_world b)\<rparr>"
  have "kept D ?b" by (intro kept_joined Gather joined_send) simp
  moreover have "?i \<in> carried (drop_chord k ?b)" by (simp add: carried_def drop_chord_def)
  ultimately show ?case using Gather(1) by (intro kept_dropped) simp_all
next
  case (Discard i b q)
  have "kept D (b\<lparr>br_world := br_world b\<rparr>)" "ended (w_db (br_world b)) i \<or> i \<in> fst ` set (br_lost b)"
    using Discard by (simp_all add: kept_def)
  then show ?case by (intro kept_acked) auto
next
  case (Notify b i url st n)
  then have "kept D (b\<lparr>br_world := br_world b\<rparr>)" by simp
  then show ?case by (rule kept_acked) simp
next
  case (Page b k n i base page tries env R S fuel now clock r w')
  then show ?case
    by (intro kept_slot kept_joined) (auto simp: slot_of_def intro: broker_sessions.page_related)
next
  case (PageAgain b k n i base page tries env R S fuel now clock e w')
  then show ?case
    by (intro kept_slot kept_joined) (auto simp: slot_of_def intro: broker_sessions.page_related)
next
  case (PageRaises b k n i base page tries env R S fuel now clock e w')
  from broker_sessions.page_related [OF PageRaises(2,3)] show ?case
    by (rule lost_chord [OF PageRaises(5) _ PageRaises(1)])
next
  case (AssembleRaises i results b env now e w')
  from broker_sessions.assemble_related [OF AssembleRaises(2,3)] show ?case
    by (rule lost_acked [OF AssembleRaises(4)]) simp
next
  case (Assemble i results b env now out7 w')
  then show ?case by (intro assemble_keeps)
next
  case (CancelNotCommitted now p i b res10 w')
  from cancel_sent [OF CancelNotCommitted(2,1)] show ?case .
next
  case (ScheduleDies dns now i name job b w' q)
  from scheduled_joined [OF joined_same ScheduleDies(1)] show ?case
    by (rule lost_acked [OF ScheduleDies(2)]) simp
qed (auto intro: kept_joined submit_joined retry_joined park_joined scheduled_joined crawl_keeps
    lost_acked crawl_joined disturbed_joined lost_chord submit_sent retry_sent)

definition first_broker :: "('s, 'r) world \<Rightarrow> ('s, 'r) broker" where
  "first_broker w = \<lparr>br_world = w\<lparr>w_db := empty_db, w_sent := []\<rparr>, br_chords = [], br_lost = []\<rparr>"

text \<open>
  The library is a parameter: a relation each of whose steps is one of those above.  It delivers
  in any order, to any worker, and lets any number of workers die.
\<close>

locale at_least_once =
  fixes D :: "'s deployment" and W :: "'n web"
    and run :: "('s, 'r) broker \<Rightarrow> ('s, 'r) broker \<Rightarrow> bool"
  assumes documented: "run b b' \<Longrightarrow> broker_step D W b b'"
begin

lemma run_kept: "rtranclp run (first_broker w) b \<Longrightarrow> kept D b"
proof (induction rule: rtranclp_induct)
  case base
  show ?case by (simp add: kept_def first_broker_def job_ids_def empty_db_def)
qed (rule kept_step [OF documented])

lemma run_accounts:
  assumes "rtranclp run (first_broker w) b" and "get_job (w_db (br_world b)) i = Some j" "\<not> terminal (j_state j)"
  shows "(\<exists>m \<in> set (w_sent (br_world b)). job_of m = Some i) \<or> (\<exists>c \<in> set (br_chords b). ch_job c = i)
    \<or> (\<exists>x. (i, x) \<in> set (br_lost b))"
proof -
  have "i \<in> set (job_ids (w_db (br_world b)))" "\<not> ended (w_db (br_world b)) i"
    using assms(2,3) job_ids_known [of "w_db (br_world b)" i] by (auto simp: ended_def)
  with run_kept [OF assms(1)] show ?thesis by (force simp: kept_def carried_def)
qed

end

interpretation any_order: at_least_once D W "broker_step D W" for D W
  by unfold_locales



end
