(* ===== verification/Service.thy ===== *)
theory Service
  imports Api
begin

text \<open>
  The application as a caller sees it: which endpoint a request names, what its dependencies
  check before its handler runs, the status of the answer, and what the request may change.
  The endpoints are those the decorators of \<^verbatim>\<open>api/routes\<close> declare; matching a path against
  them, and parsing it, is the framework's.
\<close>

datatype endpoint =
    Healthz
  | Readyz
  | MetricsPage
  | PostJob "string option" job_create
  | GetJob uuid
  | DeleteJob uuid
  | GetFailures uuid
  | PostRetry uuid
  | GetResult uuid

text \<open>The routers in the order the application includes them: method, path, status of success.\<close>

definition health_router :: "(string \<times> string \<times> int) list" where
  "health_router = [(''GET'', ''/healthz'', 200), (''GET'', ''/readyz'', 200), (''GET'', ''/metrics'', 200)]"

definition jobs_router :: "(string \<times> string \<times> int) list" where
  "jobs_router = [(''POST'', ''/jobs'', 202), (''GET'', ''/jobs/{job_id}'', 200), (''DELETE'', ''/jobs/{job_id}'', 200),
     (''GET'', ''/jobs/{job_id}/failures'', 200), (''POST'', ''/jobs/{job_id}/retry'', 202)]"

definition results_router :: "(string \<times> string \<times> int) list" where
  "results_router = [(''GET'', ''/jobs/{job_id}/result'', 200)]"

definition included_routes :: "(string \<times> string \<times> int) list" where
  "included_routes = health_router @ jobs_router @ results_router"

fun declared_route :: "endpoint \<Rightarrow> string \<times> string \<times> int" where
  "declared_route Healthz = (''GET'', ''/healthz'', 200)"
| "declared_route Readyz = (''GET'', ''/readyz'', 200)"
| "declared_route MetricsPage = (''GET'', ''/metrics'', 200)"
| "declared_route (PostJob key payload) = (''POST'', ''/jobs'', 202)"
| "declared_route (GetJob i) = (''GET'', ''/jobs/{job_id}'', 200)"
| "declared_route (DeleteJob i) = (''DELETE'', ''/jobs/{job_id}'', 200)"
| "declared_route (GetFailures i) = (''GET'', ''/jobs/{job_id}/failures'', 200)"
| "declared_route (PostRetry i) = (''POST'', ''/jobs/{job_id}/retry'', 202)"
| "declared_route (GetResult i) = (''GET'', ''/jobs/{job_id}/result'', 200)"

lemma route_included: "declared_route e \<in> set included_routes"
  by (cases e) (simp_all add: included_routes_def health_router_def jobs_router_def results_router_def)

lemma routes_distinct: "distinct (map (\<lambda>(m, p, _). (m, p)) included_routes)"
  by (simp add: included_routes_def health_router_def jobs_router_def results_router_def)

definition method_of :: "endpoint \<Rightarrow> string" where
  "method_of e = fst (declared_route e)"

datatype answer =
    Alive "(string, string) dict"
  | Readiness int "(string, json) dict"
  | Exposition
  | Accepted job_accepted
  | JobInfo job_read
  | Failures "failed_page_out list"
  | Link result_link

text \<open>A route whose handler has a principal: it is authenticated before the handler runs.\<close>

definition as_principal :: "'s deployment \<Rightarrow> string \<Rightarrow> (principal \<Rightarrow> ('s, 'r) world \<Rightarrow> (exn + 'a) \<times> ('s, 'r) world)
    \<Rightarrow> ('s, 'r) world \<Rightarrow> (exn + 'a) \<times> ('s, 'r) world" where
  "as_principal D header handler w =
     (case current_principal (sha256 D) (cfg D) header of Inl e \<Rightarrow> (Inl e, w) | Inr p \<Rightarrow> handler p w)"

definition answered :: "('a \<Rightarrow> answer) \<Rightarrow> (exn + 'a) \<times> 'w \<Rightarrow> (exn + answer) \<times> 'w" where
  "answered f r = (map_sum id f (fst r), snd r)"

text \<open>\<open>checks\<close> are the answers of the database, Redis and the workers to a readiness probe.\<close>

definition serve ::
  "'s deployment \<Rightarrow> 'r redis \<Rightarrow> resolver \<Rightarrow> (string \<Rightarrow> int)
    \<Rightarrow> (exn + unit) \<times> (exn + unit) \<times> (exn + string list list) \<Rightarrow> datetime \<Rightarrow> rat \<Rightarrow> uuid \<Rightarrow> string
    \<Rightarrow> endpoint \<Rightarrow> ('s, 'r) world \<Rightarrow> (exn + answer) \<times> ('s, 'r) world" where
  "serve D R dns depth checks now clock fresh header e w = (case e of
     Healthz \<Rightarrow> (Inr (Alive healthz), w)
   | Readyz \<Rightarrow> (case checks of (database, redis, pong) \<Rightarrow>
       (Inr (case readyz database redis pong of (code, body) \<Rightarrow> Readiness code body), w))
   | MetricsPage \<Rightarrow> (Inr Exposition, w)
   | PostJob key payload \<Rightarrow>
       answered Accepted (post_jobs D R dns depth (\<lambda>w. w) now clock fresh header key payload w)
   | GetJob i \<Rightarrow> answered JobInfo (as_principal D header (\<lambda>p w. (read_job p i (w_db w), w)) w)
   | DeleteJob i \<Rightarrow> answered JobInfo (as_principal D header (\<lambda>p. cancel_job now p i) w)
   | GetFailures i \<Rightarrow> answered Failures (as_principal D header (\<lambda>p w. (list_failures p i (w_db w), w)) w)
   | PostRetry i \<Rightarrow> answered Accepted (as_principal D header (\<lambda>p. retry_job (\<lambda>w. w) now fresh p i) w)
   | GetResult i \<Rightarrow> answered Link (as_principal D header (\<lambda>p w. (get_result D p i (w_db w), w)) w))"

text \<open>The status line: what an exception that is no \<open>HTTPException\<close> becomes is a 500.\<close>

definition status_code :: "endpoint \<Rightarrow> exn + answer \<Rightarrow> int" where
  "status_code e res = (case res of
     Inl (HTTPException code detail) \<Rightarrow> code
   | Inl _ \<Rightarrow> 500
   | Inr (Readiness code body) \<Rightarrow> code
   | Inr _ \<Rightarrow> snd (snd (declared_route e)))"

lemma status_http [simp]:
  "status_code e (Inl (HTTPException code detail)) = code"
  "status_code e (Inr (Accepted a)) = snd (snd (declared_route e))"
  by (simp_all add: status_code_def)

definition open_route :: "endpoint \<Rightarrow> bool" where
  "open_route e \<longleftrightarrow> e \<in> {Healthz, Readyz, MetricsPage}"

text \<open>What a request may leave changed: nothing of a job the caller may not see.\<close>

definition own_changes :: "principal \<Rightarrow> uuid \<Rightarrow> db \<Rightarrow> db \<Rightarrow> bool" where
  "own_changes p fresh db db' \<longleftrightarrow>
     (\<forall>k j. get_job db k = Some j \<longrightarrow> \<not> visible p j \<longrightarrow> get_job db' k = Some j)
     \<and> (\<forall>k j. get_job db k = None \<longrightarrow> get_job db' k = Some j \<longrightarrow> k = fresh \<and> visible p j)
     \<and> (\<forall>k. get_job db k \<noteq> None \<longrightarrow> get_job db' k \<noteq> None)
     \<and> job_pages db' = job_pages db \<and> failed_pages db' = failed_pages db \<and> dead_letters db' = dead_letters db
     \<and> target_snapshots db' = target_snapshots db"

definition own_messages :: "principal \<Rightarrow> uuid \<Rightarrow> db \<Rightarrow> message list \<Rightarrow> bool" where
  "own_messages p fresh db ms \<longleftrightarrow>
     (\<forall>m \<in> set ms. (\<exists>q. m = CrawlMsg fresh q) \<or> (\<exists>k j. get_job db k = Some j \<and> visible p j
        \<and> m = RevokeMsg (case j_celery_task_id j of Some t \<Rightarrow> if t \<noteq> [] then t else k | None \<Rightarrow> k)))"

definition confined :: "principal \<Rightarrow> uuid \<Rightarrow> ('s, 'r) world \<Rightarrow> ('s, 'r) world \<Rightarrow> bool" where
  "confined p fresh w w' \<longleftrightarrow> own_changes p fresh (w_db w) (w_db w') \<and> w_objects w' = w_objects w
     \<and> (\<exists>ms. w_sent w' = w_sent w @ ms \<and> own_messages p fresh (w_db w) ms)"

lemma own_same [simp]: "own_changes p fresh db db" "own_messages p fresh db []"
  by (auto simp: own_changes_def own_messages_def)

lemma confined_same: "w_db w' = w_db w \<Longrightarrow> w_sent w' = w_sent w \<Longrightarrow> w_objects w' = w_objects w \<Longrightarrow> confined p fresh w w'"
  by (auto simp: confined_def intro!: exI [of _ "[]"])

lemma own_append:
  assumes "get_job db fresh = None" and "j_id j = fresh" "visible p j"
  shows "own_changes p fresh db (db\<lparr>jobs := jobs db @ [j]\<rparr>)"
  using assms by (auto simp: own_changes_def get_job_append split: option.splits if_splits)

lemma submit_own:
  assumes run: "submit_job D dns depth (\<lambda>w. w) now i p key payload w = (res, w')"
  shows "confined p i w w'"
proof (cases "w' = w")
  case False
  then obtain a where a: "res = Inr a" "\<not> ja_replay a"
    using run by (auto simp: submit_job_def Let_def split: sum.splits)
  show ?thesis
  proof (rule submit_freshE [OF run [unfolded a] a(2)])
    fix spec fetcher url n j
    assume n: "n = fields_of (sha256 D) payload fetcher url p key"
      and c: "create_job now i n (w_db w) = Inr (j, (w_db w)\<lparr>jobs := jobs (w_db w) @ [j]\<rparr>)"
      and w': "w' = (send (CrawlMsg i (queue_for fetcher)) w)\<lparr>w_db :=
       (w_db (send (CrawlMsg i (queue_for fetcher)) w))\<lparr>jobs :=
         jobs (w_db (send (CrawlMsg i (queue_for fetcher)) w)) @ [j\<lparr>j_celery_task_id := Some i\<rparr>]\<rparr>\<rparr>"
    have "get_job (w_db w) i = None" "j_id j = i" "j_api_key_id j = pc_key_id p"
      using c by (auto simp: create_job_Inr new_job_def n fields_of_def)
    then show ?thesis by (auto simp: w' visible_def own_messages_def confined_def intro!: own_append)
  qed
qed (simp add: confined_same)

lemma retry_own:
  assumes run: "retry_job (\<lambda>w. w) now k p i w = (res, w')"
  shows "confined p k w w'"
proof (cases "w' = w")
  case False
  with run obtain old j db1 where v: "find_visible p i (w_db w) = Inr old"
    and c: "create_job now k (retry_fields old) (w_db w) = Inr (j, db1)"
    and w': "w' = (send (CrawlMsg k (queue_for (j_fetcher old))) w)\<lparr>w_db :=
      (w_db w)\<lparr>jobs := jobs (w_db w) @ [j\<lparr>j_celery_task_id := Some k\<rparr>]\<rparr>\<rparr>"
    by (auto simp: retry_job_def bindE_Inr_iff Let_def split: sum.splits if_splits)
  have "visible p old" using v by (auto simp: find_visible_def split: option.splits if_splits)
  moreover have "get_job (w_db w) k = None" "j_id j = k" "j_api_key_id j = j_api_key_id old"
    using c by (auto simp: create_job_Inr new_job_def retry_fields_def)
  ultimately show ?thesis by (auto simp: w' visible_def own_messages_def confined_def intro!: own_append)
qed (simp add: confined_same)

lemma cancel_own:
  assumes run: "cancel_job now p i w = (res, w')"
  shows "confined p k w w'"
proof (cases "w' = w")
  case False
  with run obtain j where v: "bindE (require_scope Write p) (\<lambda>_. find_visible p i (w_db w)) = Inr j"
    and live: "\<not> terminal (j_state j)"
    by (auto simp: cancel_job_def split: sum.splits if_splits)
  then have j: "get_job (w_db w) i = Some j" "visible p j"
    by (auto simp: bindE_Inr_iff find_visible_def split: option.splits if_splits)
  let ?m = "RevokeMsg (case j_celery_task_id j of Some t \<Rightarrow> if t \<noteq> [] then t else j_id j | None \<Rightarrow> j_id j)"
  from run v live have m: "w_sent w' = w_sent w @ [?m]" "w_objects w' = w_objects w"
    and db: "w_db w' = w_db w \<or> (\<exists>j'. transition now (w_db w) j j CANCELLED (Some ''cancelled by caller'') = Inr (j', w_db w'))"
    by (auto simp: cancel_job_def Let_def split: sum.splits)
  have id: "j_id j = i" using get_job_id [OF j(1)] .
  have "own_messages p k (w_db w) [?m]" unfolding own_messages_def using j id by (auto intro!: exI [of _ i] exI [of _ j])
  moreover have "own_changes p k (w_db w) (w_db w')"
    using db j by (auto simp: own_changes_def transition_Inr get_job_flush id frame split: if_splits)
  ultimately show ?thesis using m by (auto simp: confined_def)
qed (simp add: confined_same)

subsection \<open>What a request may do\<close>

definition no_http :: "exn \<Rightarrow> bool" where
  "no_http e \<longleftrightarrow> (\<forall>code d. e \<noteq> HTTPException code d)"

lemma authenticate_loop_error:
  "authenticate_loop sha presented ks = Inl e \<Longrightarrow> e = HTTPException 401 ''invalid API key'' \<or> no_http e"
  by (induction sha presented ks rule: authenticate_loop.induct)
    (auto simp: bindE_Inl_iff compare_digest_def no_http_def split: sum.splits if_splits)

lemma refused_status:
  assumes "current_principal sha c header = Inl e"
  shows "status_code ep (Inl e) = 401 \<or> status_code ep (Inl e) = 500"
proof -
  have "api_key_scopes c = Inl e \<Longrightarrow> no_http e"
    using scopes_loop_error by (fastforce simp: api_key_scopes_def no_http_def)
  then have "(\<exists>d. e = HTTPException 401 d) \<or> no_http e"
    using assms authenticate_loop_error
    by (fastforce simp: current_principal_def authenticate_def bindE_Inl_iff split: if_splits)
  then show ?thesis by (cases e) (auto simp: no_http_def status_code_def)
qed

lemma read_only_scope: "pc_scope p = Read \<Longrightarrow> require_scope Write p = Inl (HTTPException 403 ''scope write required'')"
  by (simp add: require_scope_def allows_def)

lemma post_jobs_cases:
  assumes "post_jobs D R dns depth env now clock i header key payload w = (res, w')"
    and p: "current_principal (sha256 D) (cfg D) header = Inr p"
  obtains (refused) e where "res = Inl e" "w_db w' = w_db w" "w_sent w' = w_sent w" "w_objects w' = w_objects w"
      "pc_scope p = Read \<Longrightarrow> \<exists>code d. e = HTTPException code d \<and> code \<in> {403, 429}"
  | (handled) r where "submit_job D dns depth env now i p key payload (w\<lparr>w_redis := r\<rparr>) = (res, w')" "pc_scope p \<noteq> Read"
proof -
  obtain lim r where l: "enforce_api_rate_limit (cfg D) R clock p (w_redis w) = (lim, r)" by (rule prod.exhaust)
  have lim: "lim = Inl e \<Longrightarrow> e = HTTPException 429 ''API rate limit exceeded''" for e
    using l by (auto simp: enforce_api_rate_limit_def Let_def split: prod.splits if_splits)
  consider e where "lim = Inl e" | e where "\<exists>x. lim = Inr x" "require_scope Write p = Inl e"
    | e where "\<exists>x. lim = Inr x" "\<exists>x. require_scope Write p = Inr x" "validate_job payload = Inl e"
    | "\<exists>x. lim = Inr x" "\<exists>x. require_scope Write p = Inr x" "\<exists>x. validate_job payload = Inr x"
    by (cases lim; cases "require_scope Write p"; cases "validate_job payload") auto
  then show thesis
  proof cases
    case 1
    with assms l lim [OF 1] show thesis by (auto simp: post_jobs_def intro: refused)
  next
    case 2
    with assms l read_only_scope [of p] show thesis by (auto simp: post_jobs_def intro!: refused)
  next
    case 3
    with assms l read_only_scope [of p] show thesis by (auto simp: post_jobs_def intro!: refused)
  next
    case 4
    with assms l read_only_scope [of p] show thesis by (auto simp: post_jobs_def intro!: handled [of r])
  qed
qed

lemma write_needed:
  "pc_scope p = Read \<Longrightarrow> cancel_job now p i w = (Inl (HTTPException 403 ''scope write required''), w)"
  "pc_scope p = Read \<Longrightarrow> retry_job env now k p i w = (Inl (HTTPException 403 ''scope write required''), w)"
  by (simp_all add: cancel_job_def retry_job_def read_only_scope)

lemma serve_get: "serve D R dns depth checks now clock fresh header e w = (res, w') \<Longrightarrow> method_of e = ''GET'' \<Longrightarrow> w' = w"
  by (cases e) (auto simp: method_of_def serve_def answered_def as_principal_def split: prod.splits sum.splits)

lemma serve_anonymous:
  "serve D R dns depth checks now clock fresh header e w = (res, w') \<Longrightarrow> current_principal (sha256 D) (cfg D) header = Inl x \<Longrightarrow>
    w' = w \<and> (open_route e \<or> res = Inl x)"
  by (cases e) (auto simp: serve_def answered_def as_principal_def post_jobs_def open_route_def split: prod.splits)

lemma serve_change:
  assumes run: "serve D R dns depth checks now clock fresh header e w = (res, w')"
    and p: "current_principal (sha256 D) (cfg D) header = Inr p" and e: "method_of e \<noteq> ''GET''"
  shows "confined p fresh w w' \<and> (pc_scope p = Read \<longrightarrow> w_db w' = w_db w \<and> w_sent w' = w_sent w
    \<and> status_code e res \<in> {403, 429})"
proof -
  consider (post) key payload where "e = PostJob key payload" | (cancel) i where "e = DeleteJob i"
    | (again) i where "e = PostRetry i" using e by (cases e) (auto simp: method_of_def)
  then show ?thesis
  proof cases
    case post
    obtain r0 where run: "post_jobs D R dns depth (\<lambda>w. w) now clock fresh header key payload w = (r0, w')"
      and res: "res = map_sum id Accepted r0"
      using run post by (cases "post_jobs D R dns depth (\<lambda>w. w) now clock fresh header key payload w")
        (auto simp: serve_def answered_def)
    from run p show ?thesis
    proof (cases rule: post_jobs_cases)
      case (refused x)
      then show ?thesis using res confined_same [of w' w] by auto
    next
      case (handled r)
      from submit_own [OF handled(1)] handled(2) show ?thesis by (simp add: confined_def)
    qed
  next
    case cancel
    obtain r0 where "cancel_job now p i w = (r0, w')" "res = map_sum id JobInfo r0"
      using run cancel p by (cases "cancel_job now p i w") (auto simp: serve_def answered_def as_principal_def)
    with cancel_own [of now p i w] write_needed(1) [of p now i w] show ?thesis by auto
  next
    case again
    obtain r0 where "retry_job (\<lambda>w. w) now fresh p i w = (r0, w')" "res = map_sum id Accepted r0"
      using run again p by (cases "retry_job (\<lambda>w. w) now fresh p i w") (auto simp: serve_def answered_def as_principal_def)
    with retry_own [of now fresh p i w] write_needed(2) [of p "\<lambda>w. w" now fresh i w] show ?thesis by auto
  qed
qed


lemma sample_keys: "current_principal (sha256 sample_deployment) (cfg sample_deployment) ''alpha''
    = Inr \<lparr>pc_key_id = ''dalpha'', pc_scope = Write\<rparr>"
  by code_simp


end
