(* ===== verification/BrowserScript.thy ===== *)
theory BrowserScript
  imports Extract
begin

text \<open>
  The script \<^verbatim>\<open>rows_from_page\<close> evaluates in the browser, in the semantics of its language on
  ASCII text, and its agreement with the extraction from the HTML source.
\<close>

subsection \<open>The script\<close>

text \<open>
  The operations of the document: the elements below a node that match a selector, an exception
  for a selector that is none, the rendered text, and an attribute.
\<close>

record 'n live_dom =
  d_select :: "'n \<Rightarrow> string \<Rightarrow> exn + 'n list"
  d_inner :: "'n \<Rightarrow> string"
  d_attr :: "'n \<Rightarrow> string \<Rightarrow> string option"

definition js_space :: "char \<Rightarrow> bool" where
  "js_space c \<longleftrightarrow> (9 \<le> ord c \<and> ord c \<le> 13) \<or> ord c = 32"

definition js_trim :: "string \<Rightarrow> string" where
  "js_trim s = rev (dropWhile js_space (rev (dropWhile js_space s)))"

text \<open>\<open>lastIndexOf\<close> of a character, and \<open>slice\<close> with a negative end counted from the back.\<close>

definition last_index :: "char \<Rightarrow> string \<Rightarrow> int" where
  "last_index c s = (if c \<in> set s then int (length s) - 1 - int (length (before c (rev s))) else - 1)"

definition js_slice :: "int \<Rightarrow> int \<Rightarrow> string \<Rightarrow> string" where
  "js_slice a b s = (let n = int (length s); pos = (\<lambda>k. if k < 0 then max 0 (n + k) else min k n)
     in take (nat (pos b - pos a)) (drop (nat (pos a)) s))"

definition js_split :: "string \<Rightarrow> string \<times> string" where
  "js_split expr = (let i = last_index (CHR ''@'') expr
     in (js_slice 0 i expr, js_slice (i + 1) (int (length expr)) expr))"

text \<open>The order in which an object lists its entries: array indices first, by value.\<close>

definition array_index :: "string \<Rightarrow> bool" where
  "array_index k \<longleftrightarrow> str_isdigit k \<and> k = dec_nat (undec k) \<and> undec k < 4294967295"

definition js_entries :: "(string, 'a) dict \<Rightarrow> (string, 'a) dict" where
  "js_entries ps = sort_key (\<lambda>(k, _). undec k) (filter (\<lambda>(k, _). array_index k) ps)
     @ filter (\<lambda>(k, _). \<not> array_index k) ps"

definition query_one :: "'n live_dom \<Rightarrow> 'n \<Rightarrow> string \<Rightarrow> exn + 'n option" where
  "query_one P node sel = bindE (d_select P node sel) (\<lambda>ns. Inr (first_of ns))"

definition script_text :: "'n live_dom \<Rightarrow> 'n \<Rightarrow> string \<Rightarrow> exn + json" where
  "script_text P node sel =
     bindE (query_one P node sel) (\<lambda>el. Inr (json_opt (map_option (\<lambda>n. js_trim (d_inner P n)) el)))"

definition script_attr :: "'n live_dom \<Rightarrow> 'n \<Rightarrow> string \<Rightarrow> exn + json" where
  "script_attr P node expr = (case js_split expr of (sel, attr) \<Rightarrow>
     bindE (query_one P node sel) (\<lambda>el. Inr (json_opt (Option.bind el (\<lambda>n. d_attr P n attr)))))"

definition script_row :: "'n live_dom \<Rightarrow> (string, string) dict \<Rightarrow> (string, string) dict \<Rightarrow> 'n \<Rightarrow> exn + row" where
  "script_row P texts attrs node =
     bindE (put_attrs (script_text P node) (js_entries texts) []) (\<lambda>out.
     bindE (put_attrs (script_attr P node) (js_entries attrs) out) (\<lambda>out. Inr (js_entries out)))"

definition row_script :: "'n live_dom \<Rightarrow> string \<Rightarrow> (string, string) dict \<Rightarrow> (string, string) dict \<Rightarrow> 'n \<Rightarrow> exn + row list" where
  "row_script P row_selector texts attrs document =
     bindE (d_select P document row_selector) (mapE (script_row P texts attrs))"

definition rows_from_live_page ::
  "'n live_dom \<Rightarrow> (string \<Rightarrow> string \<Rightarrow> string) \<Rightarrow> 'n \<Rightarrow> target_spec \<Rightarrow> string \<Rightarrow> exn + row list" where
  "rows_from_live_page P urljoin document spec url =
     bindE (row_script P (ex_row_selector (t_extraction spec)) (ex_fields (t_extraction spec))
         (ex_attributes (t_extraction spec)) document)
       (\<lambda>raw. Inr (rows_from_page urljoin raw spec url))"

subsection \<open>Strings and entries\<close>

lemma last_index_at: "CHR ''@'' \<notin> set a \<Longrightarrow> last_index (CHR ''@'') (s @ CHR ''@'' # a) = int (length s)"
proof -
  assume "CHR ''@'' \<notin> set a"
  then have "takeWhile (\<lambda>x. x \<noteq> CHR ''@'') (rev a @ CHR ''@'' # rev s) = rev a"
    by (subst takeWhile_append2) auto
  then show ?thesis by (simp add: last_index_def before_def)
qed

lemma js_slice_parts:
  "js_slice 0 (int (length s)) (s @ t) = s"
  "js_slice (int (length s) + 1) (int (length (s @ c # t))) (s @ c # t) = t"
  by (simp_all add: js_slice_def Let_def min_def nat_add_distrib)

lemma js_split_at: "CHR ''@'' \<notin> set a \<Longrightarrow> js_split (s @ CHR ''@'' # a) = (s, a)"
  by (simp only: js_split_def Let_def last_index_at js_slice_parts not_False_eq_True)

text \<open>Without the sign the script takes the expression, less its last character, as the selector.\<close>

lemma js_split_no_at: "CHR ''@'' \<notin> set s \<Longrightarrow> js_split s = (butlast s, s)"
  by (cases s) (simp_all add: js_split_def Let_def last_index_def js_slice_def butlast_conv_take)

lemma split_attr_shape:
  "split_attr expr = Inr (s, a) \<Longrightarrow> s \<noteq> [] \<and> expr = s @ CHR ''@'' # a \<and> CHR ''@'' \<notin> set a"
proof -
  assume split: "split_attr expr = Inr (s, a)"
  then have i: "CHR ''@'' \<in> set expr" and s: "s \<noteq> []" "s = rev (after (CHR ''@'') (rev expr))"
    and a: "a = rev (before (CHR ''@'') (rev expr))"
    by (auto simp: split_attr_def rpartition_at_def Let_def split: if_splits)
  let ?r = "rev expr"
  have "?r = before (CHR ''@'') ?r @ dropWhile (\<lambda>x. x \<noteq> CHR ''@'') ?r"
    by (simp add: before_def)
  moreover have "dropWhile (\<lambda>x. x \<noteq> CHR ''@'') ?r = CHR ''@'' # after (CHR ''@'') ?r"
    using i hd_dropWhile [of "\<lambda>x. x \<noteq> CHR ''@''" ?r]
    by (cases "dropWhile (\<lambda>x. x \<noteq> CHR ''@'') ?r") (auto simp: after_def dropWhile_eq_Nil_conv)
  ultimately have "expr = s @ CHR ''@'' # a" unfolding s(2) a by (metis append.assoc append_Cons append_Nil rev.simps(2) rev_append rev_rev_ident)
  moreover have "CHR ''@'' \<notin> set a" using set_takeWhileD by (fastforce simp: a before_def)
  ultimately show ?thesis using s(1) by blast
qed

lemma js_split_attr: "split_attr expr = Inr p \<Longrightarrow> js_split expr = p"
  using split_attr_shape [of expr "fst p" "snd p"] js_split_at [of "snd p" "fst p"] by auto

lemma href_ending: "split_attr expr = Inr (s, a) \<Longrightarrow> ends_with ''@href'' expr \<longleftrightarrow> a = ''href''"
proof -
  assume split: "split_attr expr = Inr (s, a)"
  then have e: "expr = s @ CHR ''@'' # a" and a: "CHR ''@'' \<notin> set a" using split_attr_shape by auto
  show ?thesis
  proof
    assume "ends_with ''@href'' expr"
    then obtain u where "expr = u @ CHR ''@'' # ''href''" by (metis append_take_drop_id ends_with_def)
    then have "js_split expr = (u, ''href'')" using js_split_at [of "''href''" u] by simp
    then show "a = ''href''" using js_split_attr [OF split] by simp
  next
    assume "a = ''href''"
    then show "ends_with ''@href'' expr" by (simp add: e ends_with_def)
  qed
qed

lemma entries_mset: "mset (js_entries ps) = mset ps"
  by (simp add: js_entries_def)

lemma entries_map:
  assumes "distinct (dict_keys ps)"
  shows "map_of (js_entries ps) = map_of ps" "distinct (dict_keys (js_entries ps))"
proof -
  have s: "set (js_entries ps) = set ps" using entries_mset [of ps] by (metis mset_eq_setD)
  have "mset (dict_keys (js_entries ps)) = mset (dict_keys ps)" by (simp add: entries_mset)
  with assms show d: "distinct (dict_keys (js_entries ps))" by (metis distinct_count_atmost_1 mset_eq_imp_distinct_iff)
  show "map_of (js_entries ps) = map_of ps" using map_of_inject_set [OF d assms] s by simp
qed

subsection \<open>Agreement with the HTML source\<close>

definition selectors :: "extraction \<Rightarrow> string set" where
  "selectors x = insert (ex_row_selector x) (snd ` set (ex_fields x))
     \<union> {s. \<exists>expr \<in> snd ` set (ex_attributes x). \<exists>a. split_attr expr = Inr (s, a)}"

text \<open>A page whose document is the one the source parses to: the selectors of the target pick
  the same nodes, and texts, once trimmed, and attributes are the same.\<close>

definition same_document :: "'n live_dom \<Rightarrow> 'n html \<Rightarrow> string set \<Rightarrow> bool" where
  "same_document P H sels \<longleftrightarrow> (\<forall>n. \<forall>sel \<in> sels. d_select P n sel = Inr (h_select H n sel))
     \<and> (\<forall>n. js_trim (d_inner P n) = strip (h_text H n)) \<and> (\<forall>n a. d_attr P n a = h_attr H n a)"

lemma trim_agrees: "\<forall>c \<in> set s. ord c < 28 \<or> 32 \<le> ord c \<Longrightarrow> js_trim s = strip s"
proof -
  have "dropWhile js_space t = dropWhile is_space t" if "\<forall>c \<in> set t. ord c < 28 \<or> 32 \<le> ord c" for t
    using that by (induction t) (auto simp: js_space_def is_space_def)
  moreover assume "\<forall>c \<in> set s. ord c < 28 \<or> 32 \<le> ord c"
  moreover have "\<forall>c \<in> set (rev (dropWhile is_space s)). ord c < 28 \<or> 32 \<le> ord c"
    using calculation(2) by (auto dest: set_dropWhileD)
  ultimately show ?thesis by (simp add: js_trim_def strip_def)
qed

definition rows_equal :: "row \<Rightarrow> row \<Rightarrow> bool" where
  "rows_equal r s \<longleftrightarrow> map_of r = map_of s"

lemma put_attrs_pure: "(\<And>k x. (k, x) \<in> set ps \<Longrightarrow> f x = Inr (g x)) \<Longrightarrow> put_attrs f ps row = Inr (put_fields g ps row)"
proof (induction ps arbitrary: row)
  case (Cons p ps)
  obtain k x where p: "p = (k, x)" by (cases p)
  have "put_attrs f ps r = Inr (put_fields g ps r)" for r by (rule Cons.IH, rule Cons.prems, rule list.set_intros)
  with p Cons.prems [of k x] show ?case by simp
qed simp

lemma map_of_put_fields:
  "distinct (dict_keys ps) \<Longrightarrow> map_of (put_fields g ps row) = map_of row ++ (map_option g \<circ> map_of ps)"
proof (induction ps arbitrary: row)
  case (Cons p ps)
  obtain k x where p: "p = (k, x)" by (cases p)
  with Cons.prems have "map_of ps k = None" by (auto simp: map_of_eq_None_iff)
  with Cons show ?case by (auto simp: p fun_eq_iff map_add_def split: option.splits)
qed (simp add: map_add_def fun_eq_iff)

lemma distinct_put_fields: "distinct (dict_keys row) \<Longrightarrow> distinct (dict_keys (put_fields g ps row))"
  by (induction g ps row rule: put_fields.induct) simp_all

definition made_absolute :: "(string \<Rightarrow> string \<Rightarrow> string) \<Rightarrow> string \<Rightarrow> string \<Rightarrow> json \<Rightarrow> json" where
  "made_absolute urljoin url expr v =
     (if ends_with ''@href'' expr \<and> truthy v then JStr (urljoin url (py_str v)) else v)"

lemma map_of_absolutise:
  "distinct (dict_keys ps) \<Longrightarrow> map_of (absolutise urljoin url ps row) k =
    (case map_of ps k of None \<Rightarrow> map_of row k
     | Some expr \<Rightarrow> map_option (made_absolute urljoin url expr) (map_of row k))"
proof (induction ps arbitrary: row)
  case (Cons p ps)
  obtain n expr where p: "p = (n, expr)" by (cases p)
  obtain r where tail: "absolutise urljoin url (p # ps) row = absolutise urljoin url ps r"
    and "r = (if ends_with ''@href'' expr then (case map_of row n of
      Some v \<Rightarrow> if truthy v then dict_put n (JStr (urljoin url (py_str v))) row else row | None \<Rightarrow> row) else row)"
    using p by simp
  then have head: "map_of r k = (if k = n then map_option (made_absolute urljoin url expr) (map_of row k) else map_of row k)"
    by (auto simp: made_absolute_def split: option.splits)
  from Cons.prems p have "map_of ps n = None" "distinct (dict_keys ps)" by (auto simp: map_of_eq_None_iff)
  with Cons.IH [of r] head show ?case unfolding tail by (cases "k = n") (simp_all add: p cong: option.case_cong)
qed simp

text \<open>The cells of the two.\<close>

definition raw_attr :: "'n html \<Rightarrow> 'n \<Rightarrow> string \<Rightarrow> json" where
  "raw_attr H node expr = (case js_split expr of (sel, attr) \<Rightarrow>
     json_opt (Option.bind (first_of (h_select H node sel)) (\<lambda>n. h_attr H n attr)))"

lemma attr_cell_absolute:
  "split_attr expr = Inr p \<Longrightarrow> attr_cell H urljoin url node expr = Inr (made_absolute urljoin url expr (raw_attr H node expr))"
proof -
  assume e: "split_attr expr = Inr p"
  obtain s a where p: "p = (s, a)" by (cases p)
  have "ends_with ''@href'' expr \<longleftrightarrow> a = ''href''" using href_ending e p by simp
  moreover have "js_split expr = (s, a)" using js_split_attr e p by simp
  ultimately show ?thesis
    using e p by (auto simp: attr_cell_def raw_attr_def made_absolute_def json_opt_def Let_def split: option.splits)
qed

lemma script_cells:
  assumes "same_document P H (selectors x)"
  shows "(k, sel) \<in> set (ex_fields x) \<Longrightarrow> script_text P node sel = Inr (field_cell H node sel)"
    and "(k, expr) \<in> set (ex_attributes x) \<Longrightarrow> split_attr expr = Inr p \<Longrightarrow> script_attr P node expr = Inr (raw_attr H node expr)"
proof -
  assume "(k, sel) \<in> set (ex_fields x)"
  then have "sel \<in> selectors x" by (force simp: selectors_def)
  with assms show "script_text P node sel = Inr (field_cell H node sel)"
    by (simp add: same_document_def script_text_def query_one_def field_cell_def option.map_comp o_def)
next
  assume e: "(k, expr) \<in> set (ex_attributes x)" "split_attr expr = Inr p"
  obtain s a where p: "p = (s, a)" by (cases p)
  with e have "s \<in> selectors x" by (force simp: selectors_def)
  with assms e(2) p show "script_attr P node expr = Inr (raw_attr H node expr)"
    by (simp add: same_document_def script_attr_def query_one_def raw_attr_def js_split_attr)
qed

lemma script_row_agrees:
  assumes same: "same_document P H (selectors x)"
    and d: "distinct (dict_keys (ex_fields x))" "distinct (dict_keys (ex_attributes x))"
    and exprs: "\<And>k expr. (k, expr) \<in> set (ex_attributes x) \<Longrightarrow> \<exists>p. split_attr expr = Inr p"
  shows "\<exists>r s. put_attrs (attr_cell H urljoin url node) (ex_attributes x) (put_fields (field_cell H node) (ex_fields x) []) = Inr r
    \<and> script_row P (ex_fields x) (ex_attributes x) node = Inr s
    \<and> rows_equal r (absolutise urljoin url (ex_attributes x) s)"
proof -
  let ?F = "ex_fields x" and ?A = "ex_attributes x"
  let ?g = "\<lambda>expr. made_absolute urljoin url expr (raw_attr H node expr)"
  let ?r = "put_fields ?g ?A (put_fields (field_cell H node) ?F [])"
  let ?o = "put_fields (raw_attr H node) (js_entries ?A) (put_fields (field_cell H node) (js_entries ?F) [])"
  have sets: "set (js_entries ?F) = set ?F" "set (js_entries ?A) = set ?A"
    using entries_mset by (metis mset_eq_setD)+
  have r: "put_attrs (attr_cell H urljoin url node) ?A (put_fields (field_cell H node) ?F []) = Inr ?r"
    by (rule put_attrs_pure, drule exprs, erule exE, rule attr_cell_absolute)
  have "put_attrs (script_text P node) (js_entries ?F) [] = Inr (put_fields (field_cell H node) (js_entries ?F) [])"
    using script_cells(1) [OF same] by (intro put_attrs_pure) (simp add: sets)
  moreover have "put_attrs (script_attr P node) (js_entries ?A) row = Inr (put_fields (raw_attr H node) (js_entries ?A) row)" for row
    using script_cells(2) [OF same] exprs by (intro put_attrs_pure) (metis sets(2))
  ultimately have s: "script_row P ?F ?A node = Inr (js_entries ?o)" by (simp add: script_row_def)
  have "distinct (dict_keys ?o)" by (simp add: distinct_put_fields)
  then have "map_of (js_entries ?o) = map_of ?o" by (rule entries_map)
  then have "rows_equal ?r (absolutise urljoin url ?A (js_entries ?o))"
    using d by (auto simp: rows_equal_def fun_eq_iff map_of_absolutise map_of_put_fields entries_map map_add_def
        split: option.splits)
  with r s show ?thesis by blast
qed


text \<open>A table with one row: a title and a link.\<close>

definition link_html :: "nat html" where
  "link_html = \<lparr>h_select = (\<lambda>n sel. if n = 0 \<and> sel = ''tr'' then [1] else if n = 1 \<and> sel = ''td'' then [2]
       else if n = 1 \<and> sel = ''a'' then [3] else []),
     h_text = (\<lambda>n. if n = 2 then '' Grant '' else []),
     h_attr = (\<lambda>n a. if n = 3 \<and> a = ''href'' then Some ''/g/1'' else None)\<rparr>"

definition link_dom :: "nat live_dom" where
  "link_dom = \<lparr>d_select = (\<lambda>n sel. if sel = [] then Inl (OtherError ''Error'' ''SyntaxError'') else Inr (h_select link_html n sel)),
     d_inner = h_text link_html, d_attr = h_attr link_html\<rparr>"

definition link_spec :: target_spec where
  "link_spec = sample_spec\<lparr>t_extraction := \<lparr>ex_row_selector = ''tr'', ex_fields = [(''title'', ''td'')],
     ex_attributes = [(''url'', ''a@href'')], ex_row_key = [''url'']\<rparr>\<rparr>"


end
