(* ===== verification/Migrate.thy ===== *)
theory Migrate
  imports Schema
begin

text \<open>
  The script the migration tool runs (\<^verbatim>\<open>db/migrations/env.py\<close>): logging, the URL of the database,
  and the two ways to run the statements of a revision.  The tool and the server are parameters:
  \<open>exec\<close> runs one statement, and a transaction keeps what it did only when it is committed.
\<close>

record migration_options =
  mg_url :: "string option"
  mg_literal_binds :: bool
  mg_compare_type :: bool
  mg_paramstyle :: "string option"

text \<open>What a run writes out instead of executing it.\<close>

datatype script_line = BeginTransaction | Statement ddl | CommitTransaction

record migration_run =
  mr_logging :: "string option"
  mr_options :: migration_options
  mr_script :: "script_line list"

text \<open>Without a connection the statements are written to a script between the lines of a
  transaction.\<close>

definition run_migrations_offline :: "string \<Rightarrow> ddl list \<Rightarrow> migration_options \<times> script_line list" where
  "run_migrations_offline url ops =
     (\<lparr>mg_url = Some url, mg_literal_binds = True, mg_compare_type = True, mg_paramstyle = Some ''named''\<rparr>,
      BeginTransaction # map Statement ops @ [CommitTransaction])"

text \<open>\<open>connect\<close> is what connecting to the URL raises, if it does; a refused statement leaves
  the transaction with an exception.\<close>

definition run_migrations_online ::
  "(string \<Rightarrow> exn option) \<Rightarrow> (ddl \<Rightarrow> 's \<Rightarrow> 's option) \<Rightarrow> string \<Rightarrow> ddl list \<Rightarrow> 's
    \<Rightarrow> (exn + migration_options) \<times> 's" where
  "run_migrations_online connect exec url ops s =
     (case connect url of
        Some e \<Rightarrow> (Inl e, s)
      | None \<Rightarrow>
          (case run_ddl exec ops s of
             None \<Rightarrow> (Inl (OtherError ''ProgrammingError'' ''statement refused''), s)
           | Some s' \<Rightarrow>
               (Inr \<lparr>mg_url = None, mg_literal_binds = False, mg_compare_type = True, mg_paramstyle = None\<rparr>, s')))"

text \<open>
  The URL goes through the option file of the tool, where a percent sign starts a reference:
  two stand for one, and one that starts no reference is refused.  References to other options
  are not followed.
\<close>

fun option_value :: "string \<Rightarrow> exn + string" where
  "option_value [] = Inr []"
| "option_value [c] = (if c = CHR ''%'' then Inl (ValueError ''invalid interpolation syntax'') else Inr [c])"
| "option_value (c # d # cs) =
     (if c \<noteq> CHR ''%'' then bindE (option_value (d # cs)) (\<lambda>r. Inr (c # r))
      else if d = CHR ''%'' then bindE (option_value cs) (\<lambda>r. Inr (CHR ''%'' # r))
      else if d = CHR ''('' then Inl (OtherError ''InterpolationError'' ''reference to another option'')
      else Inl (ValueError ''invalid interpolation syntax''))"

lemma option_value_plain: "CHR ''%'' \<notin> set url \<Longrightarrow> option_value url = Inr url"
  by (induction url rule: option_value.induct) auto

text \<open>A URL with a percent escape, as a password with a reserved character needs, is refused.\<close>

lemma option_value_escape:
  "CHR ''%'' \<notin> set u \<Longrightarrow> c \<notin> {CHR ''%'', CHR ''(''} \<Longrightarrow>
     option_value (u @ CHR ''%'' # c # v) = Inl (ValueError ''invalid interpolation syntax'')"
proof (induction u)
  case (Cons a u)
  then show ?case by (cases "u @ CHR ''%'' # c # v") auto
qed simp

definition env_script ::
  "(string \<Rightarrow> exn option) \<Rightarrow> (string \<Rightarrow> exn option) \<Rightarrow> (ddl \<Rightarrow> 's \<Rightarrow> 's option) \<Rightarrow> bool \<Rightarrow> string option
    \<Rightarrow> string \<Rightarrow> ddl list \<Rightarrow> 's \<Rightarrow> (exn + migration_run) \<times> 's" where
  "env_script file_config connect exec offline config_file database_url ops s =
     (case Option.bind config_file file_config of
        Some e \<Rightarrow> (Inl e, s)
      | None \<Rightarrow>
        (case option_value database_url of Inl e \<Rightarrow> (Inl e, s) | Inr url \<Rightarrow>
          if offline then
            (case run_migrations_offline url ops of (opts, script) \<Rightarrow>
               (Inr \<lparr>mr_logging = config_file, mr_options = opts, mr_script = script\<rparr>, s))
          else
            (case run_migrations_online connect exec url ops s of
               (Inl e, s') \<Rightarrow> (Inl e, s')
             | (Inr opts, s') \<Rightarrow> (Inr \<lparr>mr_logging = config_file, mr_options = opts, mr_script = []\<rparr>, s'))))"

subsection \<open>A script run by hand\<close>

text \<open>The server runs the lines: statements change a working state, which the end of the
  transaction keeps; the first refused statement ends the run.\<close>

fun run_script :: "(ddl \<Rightarrow> 's \<Rightarrow> 's option) \<Rightarrow> script_line list \<Rightarrow> 's \<Rightarrow> 's \<Rightarrow> bool \<times> 's" where
  "run_script exec [] kept current = (True, kept)"
| "run_script exec (BeginTransaction # ls) kept current = run_script exec ls kept kept"
| "run_script exec (CommitTransaction # ls) kept current = run_script exec ls current current"
| "run_script exec (Statement op # ls) kept current =
     (case exec op current of None \<Rightarrow> (False, kept) | Some s \<Rightarrow> run_script exec ls kept s)"

lemma run_script_statements:
  "run_script exec (map Statement ops @ [CommitTransaction]) kept current =
     (case run_ddl exec ops current of None \<Rightarrow> (False, kept) | Some s \<Rightarrow> (True, s))"
  by (induction ops arbitrary: current) (auto split: option.splits)

text \<open>
  A migration with a connection either runs every statement or leaves the database as it was;
  without one it leaves the database alone, and running the script it writes has the same
  outcome as a run with a connection.
\<close>

theorem migration_run_atomic:
  assumes "env_script file_config connect exec offline config_file url ops s = (res, s')"
  shows "(case run_ddl exec ops s of
      Some s1 \<Rightarrow> s' = (if \<not> offline \<and> (\<exists>r. res = Inr r) then s1 else s)
    | None \<Rightarrow> s' = s \<and> (\<not> offline \<longrightarrow> (\<exists>e. res = Inl e)))
    \<and> (offline \<longrightarrow> (\<forall>r. res = Inr r \<longrightarrow>
        run_script exec (mr_script r) s s = (case run_ddl exec ops s of None \<Rightarrow> (False, s) | Some s1 \<Rightarrow> (True, s1))))"
  using assms
  by (auto simp: env_script_def run_migrations_offline_def run_migrations_online_def run_script_statements
      split: option.splits if_splits sum.splits)

theorem migration_run_atomic_witness:
  "\<exists>r. env_script (\<lambda>f. None) (\<lambda>u. None) catalog_exec True (Some ''alembic.ini'') ''postgresql://db'' upgrade empty_catalog
      = (Inr r, empty_catalog)
    \<and> run_script catalog_exec (mr_script r) empty_catalog empty_catalog = (True, deployed)"
proof -
  obtain r where run: "env_script (\<lambda>f. None) (\<lambda>u. None) catalog_exec True (Some ''alembic.ini'') ''postgresql://db'' upgrade
      empty_catalog = (Inr r, empty_catalog)" by (simp add: env_script_def run_migrations_offline_def option_value_plain)
  obtain s1 where s1: "run_ddl catalog_exec upgrade empty_catalog = Some s1" "s1 = deployed"
    using catalog_server.run_all [OF upgrade_ok] by (auto simp: deployed_def)
  from migration_run_atomic [OF run] run s1 show ?thesis by auto
qed

end
