(* ===== verification/Metrics.thy ===== *)
theory Metrics
  imports States
begin

text \<open>
  The metrics the program declares (\<^verbatim>\<open>observability/metrics.py\<close>), the places that write them, and
  the alert rules of \<^verbatim>\<open>deploy/prometheus/alerts.yml\<close> that read them.  The metrics library is a
  parameter: what is relied on is that a metric with labels exports a series for the label
  values it was written with, and for no others.
\<close>

subsection \<open>Declarations\<close>

datatype metric_kind = Counter | Gauge | Histogram "rat list"

record metric =
  me_name :: string
  me_kind :: metric_kind
  me_labels :: "string list"

definition metric_table :: "(string \<times> metric) list" where
  "metric_table =
    [(''JOBS_SUBMITTED'', \<lparr>me_name = ''sq_jobs_submitted_total'', me_kind = Counter, me_labels = [''target'', ''fetcher'']\<rparr>),
     (''JOBS_FINISHED'', \<lparr>me_name = ''sq_jobs_finished_total'', me_kind = Counter, me_labels = [''target'', ''state'']\<rparr>),
     (''JOB_DURATION'', \<lparr>me_name = ''sq_job_duration_seconds'',
        me_kind = Histogram [1, 5, 15, 30, 60, 120, 300, 600, 1800], me_labels = [''target'', ''fetcher'']\<rparr>),
     (''PAGES_FETCHED'', \<lparr>me_name = ''sq_pages_fetched_total'', me_kind = Counter, me_labels = [''target'', ''fetcher'']\<rparr>),
     (''PAGE_FAILURES'', \<lparr>me_name = ''sq_page_failures_total'', me_kind = Counter, me_labels = [''target'', ''error_type'']\<rparr>),
     (''PAGE_DURATION'', \<lparr>me_name = ''sq_page_duration_seconds'',
        me_kind = Histogram [1 / 4, 1 / 2, 1, 2, 5, 10, 30, 60, 120], me_labels = [''target'', ''fetcher'']\<rparr>),
     (''ROWS_EXTRACTED'', \<lparr>me_name = ''sq_rows_extracted_total'', me_kind = Counter, me_labels = [''target'']\<rparr>),
     (''QUEUE_DEPTH'', \<lparr>me_name = ''sq_queue_depth'', me_kind = Gauge, me_labels = [''queue'']\<rparr>),
     (''CIRCUIT_STATE'', \<lparr>me_name = ''sq_circuit_state'', me_kind = Gauge, me_labels = [''domain'']\<rparr>),
     (''RATE_LIMIT_WAIT'', \<lparr>me_name = ''sq_rate_limit_wait_seconds'',
        me_kind = Histogram [1 / 100, 1 / 10, 1 / 2, 1, 2, 5, 10], me_labels = [''domain'']\<rparr>),
     (''DEAD_LETTERS'', \<lparr>me_name = ''sq_dead_letters_total'', me_kind = Counter, me_labels = [''reason'']\<rparr>),
     (''DRIFT_SUSPECTS'', \<lparr>me_name = ''sq_drift_suspects_total'', me_kind = Counter, me_labels = [''target'']\<rparr>),
     (''BROWSER_RSS'', \<lparr>me_name = ''sq_browser_rss_bytes'', me_kind = Gauge, me_labels = [''worker'']\<rparr>),
     (''WEBHOOK_ATTEMPTS'', \<lparr>me_name = ''sq_webhook_attempts_total'', me_kind = Counter, me_labels = [''outcome'']\<rparr>)]"

text \<open>Bucket bounds increase, names and label names are not repeated.\<close>

lemma metric_table_ok:
  "distinct (map fst metric_table)" "distinct (map (me_name \<circ> snd) metric_table)"
  "\<forall>(v, m) \<in> set metric_table. distinct (me_labels m)
     \<and> (case me_kind m of Histogram bs \<Rightarrow> sorted bs \<and> distinct bs | _ \<Rightarrow> True)"
  by (simp_all add: metric_table_def)

subsection \<open>Writes\<close>

datatype metric_op = Inc rat | SetTo rat | Observe rat

record metric_write =
  mw_metric :: string
  mw_labels :: "(string \<times> string) list"
  mw_op :: metric_op

text \<open>The calls in the program, each with the labels and the operation it has in the source.\<close>

inductive program_write :: "metric_write \<Rightarrow> bool" where
  Submitted: "program_write \<lparr>mw_metric = ''JOBS_SUBMITTED'', mw_labels = [(''target'', t), (''fetcher'', f)], mw_op = Inc 1\<rparr>"
| Finished: "program_write \<lparr>mw_metric = ''JOBS_FINISHED'', mw_labels = [(''target'', t), (''state'', st)], mw_op = Inc 1\<rparr>"
| JobTime: "program_write \<lparr>mw_metric = ''JOB_DURATION'', mw_labels = [(''target'', t), (''fetcher'', f)], mw_op = Observe x\<rparr>"
| Fetched: "program_write \<lparr>mw_metric = ''PAGES_FETCHED'', mw_labels = [(''target'', t), (''fetcher'', f)], mw_op = Inc 1\<rparr>"
| Failed: "program_write \<lparr>mw_metric = ''PAGE_FAILURES'', mw_labels = [(''target'', t), (''error_type'', exn_name e)],
    mw_op = Inc 1\<rparr>"
| PageTime: "program_write \<lparr>mw_metric = ''PAGE_DURATION'', mw_labels = [(''target'', t), (''fetcher'', f)], mw_op = Observe x\<rparr>"
| Rows: "program_write \<lparr>mw_metric = ''ROWS_EXTRACTED'', mw_labels = [(''target'', t)], mw_op = Inc (of_nat n)\<rparr>"
| Waited: "program_write \<lparr>mw_metric = ''RATE_LIMIT_WAIT'', mw_labels = [(''domain'', d)], mw_op = Observe x\<rparr>"
| Parked: "program_write \<lparr>mw_metric = ''DEAD_LETTERS'', mw_labels = [(''reason'', why)], mw_op = Inc 1\<rparr>"
| Drifted: "program_write \<lparr>mw_metric = ''DRIFT_SUSPECTS'', mw_labels = [(''target'', t)], mw_op = Inc 1\<rparr>"
| Memory: "program_write \<lparr>mw_metric = ''BROWSER_RSS'', mw_labels = [(''worker'', k)], mw_op = SetTo (of_int b)\<rparr>"
| Delivered: "program_write \<lparr>mw_metric = ''WEBHOOK_ATTEMPTS'', mw_labels = [(''outcome'', out)], mw_op = Inc 1\<rparr>"

text \<open>A call is accepted by the library when its label names are those declared and its
  operation is one of the kind.\<close>

fun op_of_kind :: "metric_kind \<Rightarrow> metric_op \<Rightarrow> bool" where
  "op_of_kind Counter (Inc x) \<longleftrightarrow> 0 \<le> x"
| "op_of_kind Gauge (SetTo x) \<longleftrightarrow> True"
| "op_of_kind (Histogram bs) (Observe x) \<longleftrightarrow> True"
| "op_of_kind _ _ \<longleftrightarrow> False"

definition accepted_write :: "metric_write \<Rightarrow> bool" where
  "accepted_write c \<longleftrightarrow> (case map_of metric_table (mw_metric c) of None \<Rightarrow> False
     | Some m \<Rightarrow> set (map fst (mw_labels c)) = set (me_labels m) \<and> distinct (map fst (mw_labels c))
         \<and> op_of_kind (me_kind m) (mw_op c))"

lemma program_write_accepted: "program_write c \<Longrightarrow> accepted_write c"
  by (induction rule: program_write.induct) (auto simp: accepted_write_def metric_table_def)

definition exported_name :: "string \<Rightarrow> string option" where
  "exported_name v = map_option me_name (map_of metric_table v)"

text \<open>The library: a state, a write, and the series a scrape sees under a name.\<close>

locale metrics_library =
  fixes fresh :: 's and put :: "metric_write \<Rightarrow> 's \<Rightarrow> 's" and series :: "'s \<Rightarrow> string \<Rightarrow> string list set"
  assumes none_at_first: "series fresh name = {}"
    and written: "accepted_write c \<Longrightarrow> exported_name (mw_metric c) = Some name \<Longrightarrow>
      series (put c s) name = insert (map snd (mw_labels c)) (series s name)"
    and untouched: "accepted_write c \<Longrightarrow> exported_name (mw_metric c) \<noteq> Some name \<Longrightarrow> series (put c s) name = series s name"
begin

lemma series_of_writes:
  assumes "\<forall>c \<in> set cs. program_write c"
  shows "series (fold put cs fresh) name
    = {map snd (mw_labels c) | c. c \<in> set cs \<and> exported_name (mw_metric c) = Some name}"
  using assms
proof (induction cs rule: rev_induct)
  case (snoc c cs)
  then have "accepted_write c" by (simp add: program_write_accepted)
  with snoc written [of c name] untouched [of c name] show ?case
    by (cases "exported_name (mw_metric c) = Some name") auto
qed (simp add: none_at_first)

end

text \<open>A library that keeps the set of label values by name.\<close>

definition set_write :: "metric_write \<Rightarrow> (string \<Rightarrow> string list set) \<Rightarrow> string \<Rightarrow> string list set" where
  "set_write c s = (case exported_name (mw_metric c) of None \<Rightarrow> s
     | Some n \<Rightarrow> s(n := insert (map snd (mw_labels c)) (s n)))"

interpretation label_sets: metrics_library "\<lambda>_. {}" set_write "\<lambda>s. s"
  by unfold_locales (auto simp: set_write_def split: option.splits)

subsection \<open>Alerts\<close>

text \<open>The alerts and the metrics their expressions read.\<close>

definition alert_rules :: "(string \<times> string list) list" where
  "alert_rules =
    [(''QueueBacklogGrowing'', [''sq_queue_depth'']),
     (''DomainCircuitOpen'', [''sq_circuit_state'']),
     (''SelectorDriftSuspected'', [''sq_drift_suspects_total'']),
     (''JobsDeadLettered'', [''sq_dead_letters_total'']),
     (''PageFailureRateHigh'', [''sq_page_failures_total'', ''sq_pages_fetched_total'']),
     (''BrowserWorkerMemoryGrowing'', [''sq_browser_rss_bytes''])]"

text \<open>A comparison of metrics one of which has no series has an empty result: the alert is silent.\<close>

definition silent :: "(string \<Rightarrow> string list set) \<Rightarrow> string list \<Rightarrow> bool" where
  "silent export names \<longleftrightarrow> (\<exists>n \<in> set names. export n = {})"

definition written_metrics :: "string list" where
  "written_metrics = [''JOBS_SUBMITTED'', ''JOBS_FINISHED'', ''JOB_DURATION'', ''PAGES_FETCHED'', ''PAGE_FAILURES'',
     ''PAGE_DURATION'', ''ROWS_EXTRACTED'', ''RATE_LIMIT_WAIT'', ''DEAD_LETTERS'', ''DRIFT_SUSPECTS'', ''BROWSER_RSS'',
     ''WEBHOOK_ATTEMPTS'']"

lemma program_write_metrics: "(\<exists>c. program_write c \<and> mw_metric c = v) \<longleftrightarrow> v \<in> set written_metrics"
proof
  show "\<exists>c. program_write c \<and> mw_metric c = v \<Longrightarrow> v \<in> set written_metrics"
    by (auto simp: written_metrics_def elim: program_write.cases)
  show "v \<in> set written_metrics \<Longrightarrow> \<exists>c. program_write c \<and> mw_metric c = v"
    unfolding written_metrics_def set_simps insert_iff empty_iff
    by (elim disjE FalseE; hypsubst; rule exI, rule conjI, rule program_write.intros, rule metric_write.select_convs(1))
qed

definition written_names :: "string set" where
  "written_names = {n. \<exists>v \<in> set written_metrics. exported_name v = Some n}"

lemma written_names_list: "written_names = set (List.map_filter exported_name written_metrics)"
  by (force simp: written_names_def map_filter_def)

lemma loud_alerts: "(alert, names) \<in> set alert_rules \<Longrightarrow>
    set names \<subseteq> written_names \<longleftrightarrow> alert \<notin> {''QueueBacklogGrowing'', ''DomainCircuitOpen''}"
proof -
  have "\<forall>(alert, names) \<in> set alert_rules.
      list_all (\<lambda>n. list_ex ((=) n) (List.map_filter exported_name written_metrics)) names
      \<longleftrightarrow> alert \<notin> {''QueueBacklogGrowing'', ''DomainCircuitOpen''}" by code_simp
  then show "(alert, names) \<in> set alert_rules \<Longrightarrow> ?thesis"
    by (fastforce simp: written_names_list list_all_iff list_ex_iff subset_iff)
qed

context metrics_library
begin

lemma loud_names: "(\<exists>cs. (\<forall>c \<in> set cs. program_write c) \<and> \<not> silent (series (fold put cs fresh)) names)
    \<longleftrightarrow> set names \<subseteq> written_names"
proof
  assume "\<exists>cs. (\<forall>c \<in> set cs. program_write c) \<and> \<not> silent (series (fold put cs fresh)) names"
  then obtain cs where cs: "\<forall>c \<in> set cs. program_write c" "\<not> silent (series (fold put cs fresh)) names" by blast
  show "set names \<subseteq> written_names"
  proof
    fix n assume "n \<in> set names"
    with cs(2) have "series (fold put cs fresh) n \<noteq> {}" by (auto simp: silent_def)
    with cs(1) obtain c where "program_write c" "exported_name (mw_metric c) = Some n"
      unfolding series_of_writes [OF cs(1)] by blast
    then show "n \<in> written_names" using program_write_metrics by (auto simp: written_names_def)
  qed
next
  assume names: "set names \<subseteq> written_names"
  have "\<exists>c. program_write c \<and> exported_name (mw_metric c) = Some n" if n: "n \<in> set names" for n
  proof -
    from names n obtain v where v: "v \<in> set written_metrics" "exported_name v = Some n"
      by (auto simp: written_names_def)
    from v(1) obtain c where "program_write c" "mw_metric c = v" unfolding program_write_metrics [symmetric] by blast
    with v(2) show ?thesis by blast
  qed
  then obtain pick where pick: "\<And>n. n \<in> set names \<Longrightarrow> program_write (pick n) \<and> exported_name (mw_metric (pick n)) = Some n"
    by metis
  then have all: "\<forall>c \<in> set (map pick names). program_write c" by auto
  have "\<not> silent (series (fold put (map pick names) fresh)) names"
    unfolding silent_def series_of_writes [OF all] using pick by auto
  with all show "\<exists>cs. (\<forall>c \<in> set cs. program_write c) \<and> \<not> silent (series (fold put cs fresh)) names" by blast
qed

end

subsection \<open>The processes of the deployment\<close>

text \<open>
  A worker has a main process, which serves its metrics (the signal \<^verbatim>\<open>worker_ready\<close>), and children,
  which run the tasks; each process has a registry of its own.  The handlers run in the API process,
  which serves its metrics too.  Prometheus scrapes the API and the two workers.
\<close>

datatype process = ApiProcess | WorkerMain nat | WorkerChild nat nat

definition scraped :: "process list" where
  "scraped = [ApiProcess, WorkerMain 0, WorkerMain 1]"

inductive process_write :: "process \<Rightarrow> metric_write \<Rightarrow> bool" where
  InHandler: "process_write ApiProcess \<lparr>mw_metric = ''JOBS_SUBMITTED'', mw_labels = [(''target'', t), (''fetcher'', f)],
    mw_op = Inc 1\<rparr>"
| InTask: "program_write c \<Longrightarrow> process_write (WorkerChild k n) c"

lemma process_write_program: "process_write p c \<Longrightarrow> program_write c"
  by (induction rule: process_write.induct) (auto intro: program_write.intros)

lemma scraped_write: "process_write p c \<Longrightarrow> p \<in> set scraped \<Longrightarrow> exported_name (mw_metric c) = Some ''sq_jobs_submitted_total''"
  by (induction rule: process_write.induct) (simp_all add: scraped_def exported_name_def metric_table_def)

definition registries :: "(metric_write \<Rightarrow> 's \<Rightarrow> 's) \<Rightarrow> 's \<Rightarrow> (process \<times> metric_write) list \<Rightarrow> process \<Rightarrow> 's" where
  "registries put fresh evs = fold (\<lambda>(p, c) regs. regs(p := put c (regs p))) evs (\<lambda>_. fresh)"

lemma registry_writes: "registries put fresh evs p = fold put (map snd (filter (\<lambda>e. fst e = p) evs)) fresh"
proof -
  have "fold (\<lambda>(p, c) regs. regs(p := put c (regs p))) evs regs p
      = fold put (map snd (filter (\<lambda>e. fst e = p) evs)) (regs p)" for regs
    by (induction evs arbitrary: regs) auto
  then show ?thesis by (simp add: registries_def)
qed

definition scrape :: "('s \<Rightarrow> string \<Rightarrow> string list set) \<Rightarrow> (process \<Rightarrow> 's) \<Rightarrow> string \<Rightarrow> string list set" where
  "scrape series regs name = (\<Union>p \<in> set scraped. series (regs p) name)"

lemma alert_metrics: "(alert, names) \<in> set alert_rules \<Longrightarrow> names \<noteq> [] \<and> ''sq_jobs_submitted_total'' \<notin> set names"
  by (auto simp: alert_rules_def)

context metrics_library
begin

lemma scraped_series:
  assumes "\<forall>(p, c) \<in> set evs. process_write p c" and "name \<noteq> ''sq_jobs_submitted_total''"
  shows "scrape series (registries put fresh evs) name = {}"
proof -
  have "series (registries put fresh evs p) name = {}" if p: "p \<in> set scraped" for p
  proof -
    let ?cs = "map snd (filter (\<lambda>e. fst e = p) evs)"
    have in_p: "process_write p c" if "c \<in> set ?cs" for c using that assms(1) by auto
    then have all: "\<forall>c \<in> set ?cs. program_write c" using process_write_program by blast
    have "exported_name (mw_metric c) \<noteq> Some name" if "c \<in> set ?cs" for c
      using scraped_write [OF in_p [OF that] p] assms(2) by simp
    then show ?thesis unfolding registry_writes series_of_writes [OF all] by blast
  qed
  then show ?thesis by (simp add: scrape_def)
qed

end

text \<open>
  C21. Of the alerts of the deployment, QueueBacklogGrowing and DomainCircuitOpen read metrics
  no code writes, and the other four read metrics the tasks write; but tasks run in child
  processes, and from the processes Prometheus scrapes no alert ever has a series to read.
\<close>

theorem alerts_that_can_fire:
  assumes "metrics_library fresh put series" and "(alert, names) \<in> set alert_rules"
  shows "((\<exists>cs. (\<forall>c \<in> set cs. program_write c) \<and> \<not> silent (series (fold put cs fresh)) names)
      \<longleftrightarrow> alert \<notin> {''QueueBacklogGrowing'', ''DomainCircuitOpen''})
    \<and> (\<forall>evs. (\<forall>(p, c) \<in> set evs. process_write p c) \<longrightarrow> silent (scrape series (registries put fresh evs)) names)"
proof (intro conjI allI impI)
  show "(\<exists>cs. (\<forall>c \<in> set cs. program_write c) \<and> \<not> silent (series (fold put cs fresh)) names)
      \<longleftrightarrow> alert \<notin> {''QueueBacklogGrowing'', ''DomainCircuitOpen''}"
    unfolding metrics_library.loud_names [OF assms(1)] by (rule loud_alerts [OF assms(2)])
next
  fix evs assume "\<forall>(p, c) \<in> set evs. process_write p c"
  from metrics_library.scraped_series [OF assms(1) this] alert_metrics [OF assms(2)]
  show "silent (scrape series (registries put fresh evs)) names"
    unfolding silent_def by (metis hd_in_set)
qed

theorem alerts_that_can_fire_witness:
  "\<not> (\<exists>cs. list_all program_write cs \<and> \<not> silent (fold set_write cs (\<lambda>_. {})) [''sq_queue_depth''])
    \<and> (\<exists>cs. list_all program_write cs \<and> \<not> silent (fold set_write cs (\<lambda>_. {})) [''sq_drift_suspects_total''])
    \<and> silent (scrape (\<lambda>s. s) (registries set_write (\<lambda>_. {})
        [(WorkerChild 0 1, \<lparr>mw_metric = ''DRIFT_SUSPECTS'', mw_labels = [(''target'', ''grants'')], mw_op = Inc 1\<rparr>)]))
        [''sq_drift_suspects_total'']"
proof -
  have q: "(''QueueBacklogGrowing'', [''sq_queue_depth'']) \<in> set alert_rules"
    and d: "(''SelectorDriftSuspected'', [''sq_drift_suspects_total'']) \<in> set alert_rules"
    by (simp_all add: alert_rules_def)
  note all = alerts_that_can_fire [OF label_sets.metrics_library_axioms q]
    alerts_that_can_fire [OF label_sets.metrics_library_axioms d]
  have "\<forall>(p, c) \<in> set [(WorkerChild 0 1, \<lparr>mw_metric = ''DRIFT_SUSPECTS'', mw_labels = [(''target'', ''grants'')], mw_op = Inc 1\<rparr>)].
      process_write p c"
    by (simp add: process_write.InTask program_write.Drifted)
  with all(2) have "silent (scrape (\<lambda>s. s) (registries set_write (\<lambda>_. {})
        [(WorkerChild 0 1, \<lparr>mw_metric = ''DRIFT_SUSPECTS'', mw_labels = [(''target'', ''grants'')], mw_op = Inc 1\<rparr>)]))
        [''sq_drift_suspects_total'']" by blast
  moreover have "\<not> (\<exists>cs. list_all program_write cs \<and> \<not> silent (fold set_write cs (\<lambda>_. {})) [''sq_queue_depth''])"
    using all(1) [THEN conjunct1] by (simp add: list_all_iff)
  moreover have "\<exists>cs. list_all program_write cs \<and> \<not> silent (fold set_write cs (\<lambda>_. {})) [''sq_drift_suspects_total'']"
    using all(2) [THEN conjunct1] by (simp add: list_all_iff)
  ultimately show ?thesis by blast
qed

end
