(* ===== verification/Observe.thy ===== *)
theory Observe
  imports Schedule
begin

text \<open>
  The wiring around the tasks and handlers: the context of a log line, the request middleware
  and the handler of unexpected errors, the set-up calls that may happen more than once, and
  the self-test task.  Time stamps, levels and the rendering of a log line are left out.
\<close>

subsection \<open>The context of a log line\<close>

type_synonym event = "(string, string) dict"

record log_context =
  lc_request :: "string option"
  lc_job :: "string option"

definition setdefault :: "string \<Rightarrow> string \<Rightarrow> event \<Rightarrow> event" where
  "setdefault k v ev = (if map_of ev k = None then dict_put k v ev else ev)"

definition put_context :: "string \<Rightarrow> string option \<Rightarrow> event \<Rightarrow> event" where
  "put_context k var ev = (case var of None \<Rightarrow> ev | Some v \<Rightarrow> if v = [] then ev else setdefault k v ev)"

definition add_context :: "log_context \<Rightarrow> event \<Rightarrow> event" where
  "add_context c ev = put_context ''job_id'' (lc_job c) (put_context ''request_id'' (lc_request c) ev)"

text \<open>The span of the tracer, when there is a valid one; a tracer that fails adds nothing.\<close>

definition add_trace :: "exn + (string \<times> string) option \<Rightarrow> event \<Rightarrow> event" where
  "add_trace trace ev = (case trace of
     Inr (Some (trace_id, span_id)) \<Rightarrow> setdefault ''span_id'' span_id (setdefault ''trace_id'' trace_id ev)
   | _ \<Rightarrow> ev)"

definition log_line :: "log_context \<Rightarrow> exn + (string \<times> string) option \<Rightarrow> event \<Rightarrow> event" where
  "log_line c trace ev = add_trace trace (add_context c ev)"

lemma map_of_setdefault: "map_of (setdefault k v ev) n = (if n = k \<and> map_of ev k = None then Some v else map_of ev n)"
  by (auto simp: setdefault_def)

lemma map_of_add_context:
  "map_of (add_context c ev) n = (case map_of ev n of Some x \<Rightarrow> Some x
     | None \<Rightarrow> if n = ''request_id'' \<and> lc_request c \<noteq> Some [] then lc_request c
              else if n = ''job_id'' \<and> lc_job c \<noteq> Some [] then lc_job c else None)"
  by (auto simp: add_context_def put_context_def map_of_setdefault split: option.splits)

subsection \<open>Requests\<close>

record answer =
  rp_status :: int
  rp_headers :: "(string, string) dict"
  rp_body :: json

text \<open>
  What runs below the middleware may log, may change its own context, and may raise; it gets
  the context and gives back a result, the context it leaves and the lines it logged.
\<close>

type_synonym 'a handled = "('a \<times> log_context \<times> event list)"

definition request_context ::
  "string option \<Rightarrow> string \<Rightarrow> (log_context \<Rightarrow> (exn + answer) handled) \<Rightarrow> log_context
    \<Rightarrow> (exn + answer) handled" where
  "request_context header fresh call_next c =
     (let rid = (case header of Some h \<Rightarrow> if h = [] then fresh else h | None \<Rightarrow> fresh) in
      case call_next (c\<lparr>lc_request := Some rid\<rparr>) of
        (res, c1, logged) \<Rightarrow>
          let c2 = c1\<lparr>lc_request := lc_request c\<rparr> in
          (case res of
             Inl e \<Rightarrow> (Inl e, c2, logged)
           | Inr r \<Rightarrow> (Inr (r\<lparr>rp_headers := dict_put ''X-Request-ID'' rid (rp_headers r)\<rparr>), c2, logged)))"

definition unhandled :: "string \<Rightarrow> exn \<Rightarrow> log_context \<Rightarrow> answer handled" where
  "unhandled path e c =
     (\<lparr>rp_status = 500, rp_headers = [], rp_body = JObj [(''detail'', JStr ''internal error'')]\<rparr>, c,
      [add_context c [(''event'', ''api.unhandled''), (''path'', path), (''error'', exn_str e)]])"

text \<open>
  The framework calls the handler of \<^verbatim>\<open>Exception\<close> from its outermost layer, around every
  middleware of the application, with the context that layer has.
\<close>

definition outermost_handler ::
  "((log_context \<Rightarrow> (exn + answer) handled) \<Rightarrow> (exn \<Rightarrow> log_context \<Rightarrow> answer handled) \<Rightarrow> log_context
     \<Rightarrow> answer handled) \<Rightarrow> bool" where
  "outermost_handler serve \<longleftrightarrow> (\<forall>app handler c. serve app handler c =
     (case app c of
        (Inr r, c1, logged) \<Rightarrow> (r, c1, logged)
      | (Inl e, c1, logged) \<Rightarrow> (case handler e c1 of (r, c2, lines) \<Rightarrow> (r, c2, logged @ lines))))"

text \<open>
  A request that succeeds carries its request id in the response, and the id is gone from the
  context afterwards; a request that raises is answered with 500 by a handler outside the
  middleware, so neither the response nor the line that logs the error has the id.
\<close>

theorem request_id_scope:
  assumes run: "call_next (c\<lparr>lc_request := Some rid\<rparr>) = (res, c1, logged)"
    and rid: "rid = (case header of Some h \<Rightarrow> if h = [] then fresh else h | None \<Rightarrow> fresh)"
    and serve: "outermost_handler serve" and idle: "lc_request c = None"
  shows "case serve (request_context header fresh call_next) (unhandled path) c of (r, c2, lines) \<Rightarrow>
    lc_request c2 = None
    \<and> (case res of
         Inr r0 \<Rightarrow> r = r0\<lparr>rp_headers := dict_put ''X-Request-ID'' rid (rp_headers r0)\<rparr> \<and> lines = logged
       | Inl e \<Rightarrow> rp_status r = 500 \<and> rp_body r = JObj [(''detail'', JStr ''internal error'')]
           \<and> map_of (rp_headers r) ''X-Request-ID'' = None
           \<and> (\<exists>line. lines = logged @ [line] \<and> map_of line ''error'' = Some (exn_str e)
               \<and> map_of line ''request_id'' = None))"
  using serve run idle unfolding outermost_handler_def
  by (cases res) (auto simp: request_context_def rid [symmetric] Let_def unhandled_def map_of_add_context)

definition outermost :: "(log_context \<Rightarrow> (exn + answer) handled) \<Rightarrow> (exn \<Rightarrow> log_context \<Rightarrow> answer handled)
    \<Rightarrow> log_context \<Rightarrow> answer handled" where
  "outermost app handler c =
     (case app c of
        (Inr r, c1, logged) \<Rightarrow> (r, c1, logged)
      | (Inl e, c1, logged) \<Rightarrow> (case handler e c1 of (r, c2, lines) \<Rightarrow> (r, c2, logged @ lines)))"

lemma outermost_is: "outermost_handler outermost"
  by (simp add: outermost_handler_def outermost_def)

theorem request_id_scope_witness:
  "case outermost (request_context (Some ''r-1'') ''f'' (\<lambda>c. (Inl (ValueError ''x''), c, [])))
      (unhandled ''/jobs'') \<lparr>lc_request = None, lc_job = None\<rparr> of (r, c2, lines) \<Rightarrow>
    rp_status r = 500 \<and> map_of (rp_headers r) ''X-Request-ID'' = None
    \<and> (\<exists>line. lines = [line] \<and> map_of line ''request_id'' = None)"
  using request_id_scope [OF _ refl outermost_is, where call_next = "\<lambda>c. (Inl (ValueError ''x''), c, [])"
      and c = "\<lparr>lc_request = None, lc_job = None\<rparr>" and header = "Some ''r-1''" and fresh = "''f''" and path = "''/jobs''"]
  by (auto split: prod.splits)

subsection \<open>Set-up that may happen more than once\<close>

text \<open>
  The metrics server: \<open>result\<close> is what \<^verbatim>\<open>start_http_server\<close> raises, if it does.  The state is
  the flag of the process and the ports this process serves.
\<close>

record metrics_state =
  ms_started :: bool
  ms_servers :: "int list"

definition os_error :: "exn \<Rightarrow> bool" where
  "os_error e = (case e of OtherError ty _ \<Rightarrow> ty = ''OSError'' | _ \<Rightarrow> False)"

definition start_metrics_server :: "exn option \<Rightarrow> int \<Rightarrow> metrics_state \<Rightarrow> (exn + unit) \<times> metrics_state" where
  "start_metrics_server result number s =
     (if ms_started s then (Inr (), s)
      else (case result of
          None \<Rightarrow> (Inr (), s\<lparr>ms_servers := ms_servers s @ [number], ms_started := True\<rparr>)
        | Some e \<Rightarrow> if os_error e then (Inr (), s) else (Inl e, s)))"

fun metrics_calls :: "(exn option \<times> int) list \<Rightarrow> metrics_state \<Rightarrow> metrics_state" where
  "metrics_calls [] s = s"
| "metrics_calls ((result, number) # calls) s = metrics_calls calls (snd (start_metrics_server result number s))"

datatype tracing_step = SetProvider string string string | InstrumentCelery | InstrumentDatabase

record tracing_state =
  tr_configured :: bool
  tr_done :: "tracing_step list"

text \<open>The steps of the set-up; \<open>broken\<close> says which of them raises.\<close>

fun tracing_steps :: "(tracing_step \<Rightarrow> exn option) \<Rightarrow> tracing_step list \<Rightarrow> tracing_state
    \<Rightarrow> (exn + unit) \<times> tracing_state" where
  "tracing_steps broken [] s = (Inr (), s\<lparr>tr_configured := True\<rparr>)"
| "tracing_steps broken (t # ts) s = (case broken t of
     Some e \<Rightarrow> (Inl e, s) | None \<Rightarrow> tracing_steps broken ts (s\<lparr>tr_done := tr_done s @ [t]\<rparr>))"

definition configure_tracing ::
  "(tracing_step \<Rightarrow> exn option) \<Rightarrow> string option \<Rightarrow> string \<Rightarrow> string \<Rightarrow> tracing_state
    \<Rightarrow> (exn + unit) \<times> tracing_state" where
  "configure_tracing broken endpoint environment service s =
     (case endpoint of
        None \<Rightarrow> (Inr (), s)
      | Some url \<Rightarrow>
          if tr_configured s \<or> url = [] then (Inr (), s)
          else tracing_steps broken [SetProvider service environment (url @ ''/v1/traces''),
                 InstrumentCelery, InstrumentDatabase] s)"

lemma metrics_started: "ms_started s \<Longrightarrow> metrics_calls calls s = s"
  by (induction calls) (auto simp: start_metrics_server_def)

lemma metrics_server_once:
  "length (ms_servers (metrics_calls calls \<lparr>ms_started = False, ms_servers = []\<rparr>))
      = (if \<exists>number. (None, number) \<in> set calls then 1 else 0)
   \<and> (ms_started (metrics_calls calls \<lparr>ms_started = False, ms_servers = []\<rparr>)
      \<longleftrightarrow> (\<exists>number. (None, number) \<in> set calls))"
proof (induction calls)
  case (Cons call calls)
  obtain result number where c: "call = (result, number)" by (cases call)
  show ?case
  proof (cases result)
    case None
    then show ?thesis by (auto simp: c start_metrics_server_def metrics_started)
  next
    case (Some e)
    with Cons show ?thesis by (auto simp: c start_metrics_server_def split: if_splits)
  qed
qed simp

lemma tracing_flag: "tracing_steps broken ts s = (Inr (), s1) \<Longrightarrow> tr_configured s1"
  by (induction ts arbitrary: s) (auto split: option.splits)

lemma tracing_once:
  assumes "configure_tracing broken endpoint environment service s = (Inr (), s1)"
  shows "configure_tracing broken' endpoint environment' service' s1 = (Inr (), s1)"
  using assms tracing_flag by (fastforce simp: configure_tracing_def split: option.splits if_splits simp del: tracing_steps.simps)

subsection \<open>The self-test task\<close>

definition started_key :: "string \<Rightarrow> string" where
  "started_key token = ''sq:selftest:started:'' @ token"

definition finished_key :: "string \<Rightarrow> string" where
  "finished_key token = ''sq:selftest:finished:'' @ token"

definition attempts_key :: "string \<Rightarrow> string" where
  "attempts_key token = ''sq:selftest:attempts:'' @ token"

text \<open>The task up to its sleep, and the task that gets through it.\<close>

definition marker_begin :: "'r redis \<Rightarrow> string \<Rightarrow> string \<Rightarrow> 'r \<Rightarrow> int \<times> 'r" where
  "marker_begin R token pid r =
     (case r_incr R (attempts_key token) r of
        (n, r1) \<Rightarrow> (n, r_set_ex R (started_key token) pid 600 r1))"

definition slow_marker :: "'r redis \<Rightarrow> string \<Rightarrow> rat \<Rightarrow> string \<Rightarrow> 'r \<Rightarrow> (string \<times> int \<times> string) \<times> 'r" where
  "slow_marker R token seconds pid r =
     (case marker_begin R token pid r of
        (n, r1) \<Rightarrow>
          ((token, n, pid), r_set_ex R (finished_key token) pid 600 (r_sleep R seconds r1)))"

text \<open>
  Deliveries to workers that die in the task: each does the part before the sleep, and some
  time passes before the next delivery.
\<close>

fun killed_deliveries :: "'r redis \<Rightarrow> string \<Rightarrow> (string \<times> rat) list \<Rightarrow> 'r \<Rightarrow> 'r" where
  "killed_deliveries R token [] r = r"
| "killed_deliveries R token ((pid, gap) # ds) r =
     killed_deliveries R token ds (r_sleep R gap (snd (marker_begin R token pid r)))"

context redis_server
begin

lemma marker_keys: "attempts_key t \<noteq> started_key t" "attempts_key t \<noteq> finished_key t" "started_key t \<noteq> finished_key t"
  by (simp_all add: attempts_key_def started_key_def finished_key_def)

lemma marker_begin_live:
  assumes "live r (attempts_key t) = (if n = 0 then None else Some (RInt (int n), None))"
  shows "fst (marker_begin R t pid r) = int n + 1"
    and "live (snd (marker_begin R t pid r)) =
      (live r)(attempts_key t := Some (RInt (int n + 1), None),
               started_key t := Some (RStr pid, Some (clock r + 600)))"
proof -
  have c: "is_counter (live r (attempts_key t))" using assms by (simp add: is_counter_def)
  obtain a r1 where r1: "r_incr R (attempts_key t) r = (a, r1)" by (rule prod.exhaust)
  have "a = int n + 1" "live r1 = (live r)(attempts_key t := Some (RInt (int n + 1), None))" "clock r1 = clock r"
    using incr [OF c] clock_cmds(4) [of "attempts_key t" r] assms
    by (simp_all add: r1 entry_int_def incr_entry_def split: if_splits)
  with set_ex [of 600 "started_key t" pid r1]
  show "fst (marker_begin R t pid r) = int n + 1"
    "live (snd (marker_begin R t pid r)) =
      (live r)(attempts_key t := Some (RInt (int n + 1), None),
               started_key t := Some (RStr pid, Some (clock r + 600)))"
    by (simp_all add: marker_begin_def r1)
qed

lemma killed_live:
  assumes "\<forall>(pid, gap) \<in> set ds. 0 \<le> gap" and "live r (attempts_key t) = (if n = 0 then None else Some (RInt (int n), None))"
    and "live r (finished_key t) = None"
  shows "live (killed_deliveries R t ds r) (attempts_key t)
      = (if n + length ds = 0 then None else Some (RInt (int (n + length ds)), None))
    \<and> live (killed_deliveries R t ds r) (finished_key t) = None"
  using assms
proof (induction ds arbitrary: r n)
  case (Cons d ds)
  obtain pid gap where d: "d = (pid, gap)" by (cases d)
  let ?r = "r_sleep R gap (snd (marker_begin R t pid r))"
  have "live ?r (attempts_key t) = Some (RInt (int (Suc n)), None)" "live ?r (finished_key t) = None"
    using Cons.prems marker_begin_live(2) [OF Cons.prems(2), of pid] live_sleep [of gap] marker_keys marker_keys [symmetric]
    by (simp_all add: d still_live_def)
  with Cons.IH [of ?r "Suc n"] Cons.prems(1) show ?case by (simp add: d)
qed simp

lemma marker_attempts:
  assumes "\<forall>(pid, gap) \<in> set ds. 0 \<le> gap" and "live r (attempts_key t) = None" "live r (finished_key t) = None"
    and "0 \<le> seconds"
  shows "live (killed_deliveries R t ds r) (finished_key t) = None"
    and "fst (slow_marker R t seconds pid (killed_deliveries R t ds r)) = (t, int (length ds) + 1, pid)"
    and "\<exists>x. live (snd (slow_marker R t seconds pid (killed_deliveries R t ds r))) (finished_key t) = Some (RStr pid, Some x)"
proof -
  let ?r = "killed_deliveries R t ds r"
  have k: "live ?r (attempts_key t) = (if length ds = 0 then None else Some (RInt (int (length ds)), None))"
    "live ?r (finished_key t) = None"
    using killed_live [OF assms(1), of r t 0] assms(2,3) by simp_all
  from k(2) show "live ?r (finished_key t) = None" .
  obtain a r1 where b: "marker_begin R t pid ?r = (a, r1)" by (rule prod.exhaust)
  have "a = int (length ds) + 1" using marker_begin_live(1) [OF k(1), of pid] by (simp add: b)
  then show "fst (slow_marker R t seconds pid ?r) = (t, int (length ds) + 1, pid)"
    by (simp add: slow_marker_def b)
  show "\<exists>x. live (snd (slow_marker R t seconds pid ?r)) (finished_key t) = Some (RStr pid, Some x)"
    using set_ex [of 600 "finished_key t" pid "r_sleep R seconds r1"] by (simp add: slow_marker_def b)
qed

end

theorem selftest_counts_deliveries:
  assumes "redis_server R live clock" and "\<forall>(pid, gap) \<in> set ds. 0 \<le> gap" and "0 \<le> seconds"
    and "live r (attempts_key t) = None" "live r (finished_key t) = None"
  shows "live (killed_deliveries R t ds r) (finished_key t) = None
    \<and> fst (slow_marker R t seconds pid (killed_deliveries R t ds r)) = (t, int (length ds) + 1, pid)
    \<and> (\<exists>x. live (snd (slow_marker R t seconds pid (killed_deliveries R t ds r))) (finished_key t)
        = Some (RStr pid, Some x))"
  using redis_server.marker_attempts [OF assms(1,2,4,5,3)] by blast

theorem selftest_counts_deliveries_witness:
  "fst (slow_marker mem_redis ''t'' 10 ''42'' (killed_deliveries mem_redis ''t'' [(''41'', 100)] mem_empty))
     = (''t'', 2, ''42'')"
  using selftest_counts_deliveries [OF mem.redis_server_axioms, of "[(''41'', 100)]" 10 mem_empty "''t''" "''42''"]
  by (simp add: mem_live_def mem_empty_def still_live_def)

subsection \<open>The memory of a browser worker\<close>

text \<open>
  \<^verbatim>\<open>report_memory\<close> of the browser pool: the gauge is set from the first line of the status
  file that names the resident size.  \<open>file\<close> is the exception of the open, or the lines.  An
  error that is not an \<^verbatim>\<open>OSError\<close> escapes.
\<close>

fun resident_bytes :: "string list \<Rightarrow> exn + int option" where
  "resident_bytes [] = Inr None"
| "resident_bytes (line # lines) =
     (if \<not> starts_with ''VmRSS:'' line then resident_bytes lines
      else (case split_ws line of
         _ # kb # _ \<Rightarrow>
           if int_text kb then Inr (Some (read_int kb * 1024))
           else Inl (ValueError ''invalid literal for int()'')
       | _ \<Rightarrow> Inl (OtherError ''IndexError'' ''list index out of range'')))"

definition report_memory :: "exn + string list \<Rightarrow> exn + int option" where
  "report_memory file = (case file of
     Inl e \<Rightarrow> if os_error e then Inr None else Inl e | Inr lines \<Rightarrow> resident_bytes lines)"

lemma split_ws_word: "list_all (\<lambda>c. \<not> is_space c) w \<Longrightarrow> split_ws_loop cur (w @ s) = split_ws_loop (cur @ w) s"
  by (induction w arbitrary: cur) auto

lemma split_ws_spaces: "list_all is_space sp \<Longrightarrow> split_ws_loop [] (sp @ s) = split_ws_loop [] s"
  by (induction sp) auto

lemma is_space_blank: "is_space CHR '' ''" "\<not> is_space CHR ''k''" "\<not> is_space CHR ''B''"
  by code_simp+

lemma dec_nat_no_space: "list_all (\<lambda>c. \<not> is_space c) (dec_nat n)"
proof -
  have "\<not> is_space c" if "c \<in> set (dec_nat n)" for c
    using dec_nat_chars [OF that] by (simp add: is_space_def ord_def)
  then show ?thesis by (simp add: list_all_iff)
qed

text \<open>The line the kernel writes: the size in kB, padded with blanks.\<close>

lemma memory_reported:
  assumes "list_all (\<lambda>l. \<not> starts_with ''VmRSS:'' l) earlier" and "list_all is_space pad" "pad \<noteq> []"
  shows "report_memory (Inr (earlier @ (''VmRSS:'' @ pad @ dec_int (int n) @ '' kB'') # rest)) = Inr (Some (int n * 1024))"
proof -
  let ?line = "''VmRSS:'' @ pad @ dec_nat n @ '' kB''"
  obtain c pad' where pad: "pad = c # pad'" "is_space c" "list_all is_space pad'" using assms(2,3) by (cases pad) auto
  have "list_all (\<lambda>c. \<not> is_space c) ''VmRSS:''" by code_simp
  then have "split_ws ?line = split_ws_loop ''VmRSS:'' (pad @ dec_nat n @ '' kB'')"
    unfolding split_ws_def using split_ws_word [of "''VmRSS:''" "[]" "pad @ dec_nat n @ '' kB''"] by (simp only: append_Nil)
  also have "\<dots> = ''VmRSS:'' # split_ws_loop [] (dec_nat n @ '' kB'')"
    using split_ws_spaces [OF pad(3), of "dec_nat n @ '' kB''"] pad(2) by (simp add: pad(1))
  also have "split_ws_loop [] (dec_nat n @ '' kB'') = [dec_nat n, ''kB'']"
    using split_ws_word [OF dec_nat_no_space, of "[]" n "'' kB''"] by (simp add: is_space_blank)
  finally have split: "split_ws ?line = [''VmRSS:'', dec_nat n, ''kB'']" .
  have "starts_with ''VmRSS:'' ?line" by (simp add: starts_with_def)
  with split have "resident_bytes (?line # rest) = Inr (Some (int n * 1024))"
    using int_text_dec [of "int n"] read_int_dec [of "int n"] by (simp add: dec_int_def)
  then have "resident_bytes (earlier @ ?line # rest) = Inr (Some (int n * 1024))"
    using assms(1) by (induction earlier) simp_all
  then show ?thesis by (simp add: report_memory_def dec_int_def)
qed

end
