(* ===== verification/Startup.thy ===== *)
theory Startup
  imports Observe BrowserPool
begin

text \<open>
  What a process does when it starts and stops: the logging set-up, the lifespan of the API
  process, and the signal handlers of a worker, which has a main process and children that run
  the tasks.
\<close>

subsection \<open>Logging\<close>

definition upper_char :: "char \<Rightarrow> char" where
  "upper_char c = (if is_lower c then char_of (ord c - 32) else c)"

definition level_names :: "string list" where
  "level_names = [''CRITICAL'', ''FATAL'', ''ERROR'', ''WARN'', ''WARNING'', ''INFO'', ''DEBUG'', ''NOTSET'']"

text \<open>
  Whether the root logger has a handler, its level, and the level of the filtering logger.  The
  basic set-up of the library does nothing when there is a handler, and adds the handler before it
  looks at the level.
\<close>

record logging_state =
  lg_handler :: bool
  lg_root :: "string option"
  lg_filter :: "string option"

definition configure_logging :: "string \<Rightarrow> logging_state \<Rightarrow> (exn + unit) \<times> logging_state" where
  "configure_logging level s =
     (let l = map upper_char level; s1 = s\<lparr>lg_handler := True\<rparr> in
      if \<not> lg_handler s \<and> l \<notin> set level_names then (Inl (ValueError (''Unknown level: '' @ repr_string l)), s1)
      else if l \<notin> set level_names then (Inl (KeyError l), s1)
      else (Inr (), s1\<lparr>lg_root := (if lg_handler s then lg_root s else Some l), lg_filter := Some l\<rparr>))"

text \<open>The first call decides the level of the root logger, the last one that of the filter.\<close>

lemma logging_twice:
  assumes "configure_logging a s = (Inr (), s1)" and "configure_logging b s1 = (Inr (), s2)"
  shows "lg_root s2 = lg_root s1 \<and> lg_filter s2 = Some (map upper_char b)"
  using assms by (auto simp: configure_logging_def Let_def split: if_splits)

subsection \<open>Processes\<close>

record process_state =
  ps_logging :: logging_state
  ps_tracing :: tracing_state
  ps_metrics :: metrics_state
  ps_pool :: pool

definition new_process :: process_state where
  "new_process = \<lparr>ps_logging = \<lparr>lg_handler = False, lg_root = None, lg_filter = None\<rparr>,
     ps_tracing = \<lparr>tr_configured = False, tr_done = []\<rparr>,
     ps_metrics = \<lparr>ms_started = False, ms_servers = []\<rparr>, ps_pool = no_pool\<rparr>"

text \<open>Settings that are read on the way, and what may go wrong.\<close>

record startup =
  st_level :: string
  st_endpoint :: "string option"
  st_environment :: string
  st_port :: int
  st_broken :: "tracing_step \<Rightarrow> exn option"
  st_server :: "exn option"

definition set_up :: "startup \<Rightarrow> string \<Rightarrow> process_state \<Rightarrow> (exn + unit) \<times> process_state" where
  "set_up c service p =
     (case configure_logging (st_level c) (ps_logging p) of
        (Inl e, l) \<Rightarrow> (Inl e, p\<lparr>ps_logging := l\<rparr>)
      | (Inr _, l) \<Rightarrow>
          (case configure_tracing (st_broken c) (st_endpoint c) (st_environment c) service (ps_tracing p) of
             (res, t) \<Rightarrow> (res, p\<lparr>ps_logging := l, ps_tracing := t\<rparr>)))"

definition lifespan_start :: "startup \<Rightarrow> process_state \<Rightarrow> (exn + unit) \<times> process_state" where
  "lifespan_start c p = set_up c ''scrapequeue-api'' p"

definition init_process :: "startup \<Rightarrow> process_state \<Rightarrow> (exn + unit) \<times> process_state" where
  "init_process c p = set_up c ''scrapequeue-worker'' p"

definition on_ready :: "startup \<Rightarrow> process_state \<Rightarrow> (exn + unit) \<times> process_state" where
  "on_ready c p = (case start_metrics_server (st_server c) (st_port c) (ps_metrics p) of
     (res, m) \<Rightarrow> (res, p\<lparr>ps_metrics := m\<rparr>))"

definition on_shutdown :: "process_state \<Rightarrow> process_state" where
  "on_shutdown p = p\<lparr>ps_pool := shutdown_pool (ps_pool p)\<rparr>"

text \<open>
  The life of a worker: its children start, the main process is ready, a child runs a task that
  uses the browser or one that does not, and the worker is shut down.
\<close>

record worker =
  wk_main :: process_state
  wk_children :: "process_state list"

datatype worker_event = ChildStarts | Ready | BrowserTask nat | Shutdown

fun worker_step :: "startup \<Rightarrow> worker_event \<Rightarrow> worker \<Rightarrow> worker" where
  "worker_step c ChildStarts w = w\<lparr>wk_children := wk_children w @ [snd (init_process c new_process)]\<rparr>"
| "worker_step c Ready w = w\<lparr>wk_main := snd (on_ready c (wk_main w))\<rparr>"
| "worker_step c (BrowserTask k) w = w\<lparr>wk_children :=
     (wk_children w)[k := (wk_children w ! k)\<lparr>ps_pool := launch (ps_pool (wk_children w ! k))\<rparr>]\<rparr>"
| "worker_step c Shutdown w = w\<lparr>wk_main := on_shutdown (wk_main w)\<rparr>"

definition new_worker :: worker where
  "new_worker = \<lparr>wk_main = new_process, wk_children = []\<rparr>"

definition browsers :: "worker \<Rightarrow> nat" where
  "browsers w = sum_list (map (\<lambda>p. bp_browsers (ps_pool p)) (wk_main w # wk_children w))"

lemma set_up_frame: "set_up c service p = (res, p') \<Longrightarrow> ps_pool p' = ps_pool p \<and> ps_metrics p' = ps_metrics p"
  by (auto simp: set_up_def split: prod.splits sum.splits)

lemma shutdown_nothing: "shutdown_pool no_pool = no_pool"
  by (simp add: shutdown_pool_def no_pool_def)

definition main_only :: "worker \<Rightarrow> bool" where
  "main_only w \<longleftrightarrow> ps_pool (wk_main w) = no_pool \<and> (\<forall>p \<in> set (wk_children w). ms_servers (ps_metrics p) = [])"

lemma main_has_no_browser: "ps_pool (wk_main w) = no_pool \<Longrightarrow> ps_pool (wk_main (worker_step c ev w)) = no_pool"
  by (cases ev) (auto simp: on_ready_def on_shutdown_def shutdown_nothing split: prod.splits)

lemma children_serve_nothing:
  "\<forall>p \<in> set (wk_children w). ms_servers (ps_metrics p) = [] \<Longrightarrow>
    \<forall>p \<in> set (wk_children (worker_step c ev w)). ms_servers (ps_metrics p) = []"
proof (cases ev)
  case ChildStarts
  have "ps_metrics (snd (init_process c new_process)) = ps_metrics new_process"
    using set_up_frame [OF surjective_pairing, of c "''scrapequeue-worker''" new_process] by (simp add: init_process_def)
  moreover assume "\<forall>p \<in> set (wk_children w). ms_servers (ps_metrics p) = []"
  ultimately show ?thesis by (auto simp: ChildStarts new_process_def)
next
  case (BrowserTask k)
  assume a: "\<forall>p \<in> set (wk_children w). ms_servers (ps_metrics p) = []"
  show ?thesis
  proof (cases "k < length (wk_children w)")
    case True
    with a set_update_subset_insert [of "wk_children w" k] show ?thesis
      by (simp add: BrowserTask subset_iff) (metis (no_types, lifting) nth_mem process_state.select_convs(3) process_state.update_convs(4) process_state.surjective)
  qed (use a in \<open>simp add: BrowserTask not_less list_update_beyond\<close>)
qed auto

text \<open>
  Whatever a worker did, the shutdown of its main process closes no browser, since the browsers
  are in the children, and no child serves metrics.
\<close>

theorem shutdown_closes_no_browser:
  assumes "w = fold (worker_step c) evs new_worker"
  shows "browsers (worker_step c Shutdown w) = browsers w
    \<and> (\<forall>p \<in> set (wk_children w). ms_servers (ps_metrics p) = [])"
proof -
  have step: "main_only w0 \<Longrightarrow> main_only (worker_step c ev w0)" for ev w0
    using main_has_no_browser children_serve_nothing unfolding main_only_def by blast
  have "main_only w0 \<Longrightarrow> main_only (fold (worker_step c) evs w0)" for w0
    using step by (induction evs arbitrary: w0) simp_all
  moreover have "main_only new_worker" by (simp add: main_only_def new_worker_def new_process_def)
  ultimately have "ps_pool (wk_main w) = no_pool" "\<forall>p \<in> set (wk_children w). ms_servers (ps_metrics p) = []"
    unfolding assms main_only_def by blast+
  then show ?thesis by (simp add: browsers_def on_shutdown_def shutdown_nothing)
qed

theorem shutdown_closes_no_browser_witness:
  "browsers (fold (worker_step \<lparr>st_level = ''info'', st_endpoint = None, st_environment = ''prod'', st_port = 9464,
      st_broken = (\<lambda>t. None), st_server = None\<rparr>) [ChildStarts, Ready, BrowserTask 0, Shutdown] new_worker) = 1"
proof -
  let ?c = "\<lparr>st_level = ''info'', st_endpoint = None, st_environment = ''prod'', st_port = 9464,
      st_broken = (\<lambda>t. None), st_server = None\<rparr>"
  have "browsers (fold (worker_step ?c) [ChildStarts, Ready, BrowserTask 0] new_worker) = 1" by code_simp
  with shutdown_closes_no_browser [OF refl, of ?c "[ChildStarts, Ready, BrowserTask 0]"] show ?thesis by simp
qed

end
