(* ===== verification/ImageCheck.thy ===== *)
theory ImageCheck
  imports Url
begin

text \<open>
  The package check of the image build: \<^verbatim>\<open>docker/verify_patched.py\<close>.  The file system is
  a tree of directories, files and symbolic links; a directory the script may not list has no
  entries to model.  \<open>rm\<close> is what \<^verbatim>\<open>shutil.rmtree(path, ignore_errors=True)\<close> does to the
  tree, which depends on permissions and open files; \<open>rmtree\<close> is the call that meets no error.
\<close>

subsection \<open>The file system\<close>

datatype node = Directory "(string \<times> node) list option" | Symlink | RegularFile

type_synonym fpath = "string list"

fun lookup_path :: "node \<Rightarrow> fpath \<Rightarrow> node option" where
  "lookup_path nd [] = Some nd"
| "lookup_path (Directory (Some es)) (n # p) =
     (case map_of es n of None \<Rightarrow> None | Some nd \<Rightarrow> lookup_path nd p)"
| "lookup_path _ (n # p) = None"

text \<open>The names in a directory, or \<open>None\<close> where \<^verbatim>\<open>iterdir\<close> raises.\<close>

definition iterdir :: "node \<Rightarrow> fpath \<Rightarrow> string list option" where
  "iterdir fs p = (case lookup_path fs p of
     Some (Directory (Some es)) \<Rightarrow> Some (remdups (map fst es)) | _ \<Rightarrow> None)"

fun is_real_dir :: "node \<Rightarrow> bool" where
  "is_real_dir (Directory _) = True"
| "is_real_dir _ = False"

definition real_dir_at :: "node \<Rightarrow> fpath \<Rightarrow> bool" where
  "real_dir_at fs p = (case lookup_path fs p of Some nd \<Rightarrow> is_real_dir nd | None \<Rightarrow> False)"

definition file_at :: "node \<Rightarrow> fpath \<Rightarrow> bool" where
  "file_at fs p = (lookup_path fs p = Some RegularFile)"

fun remove_at :: "fpath \<Rightarrow> node \<Rightarrow> node" where
  "remove_at [n] (Directory (Some es)) = Directory (Some (filter (\<lambda>(m, _). m \<noteq> n) es))"
| "remove_at (n # p) (Directory (Some es)) =
     Directory (Some (map (\<lambda>(m, nd). (m, if m = n then remove_at p nd else nd)) es))"
| "remove_at _ nd = nd"

definition rmtree :: "fpath \<Rightarrow> node \<Rightarrow> node" where
  "rmtree p fs = (if real_dir_at fs p then remove_at p fs else fs)"

definition unlink :: "fpath \<Rightarrow> node \<Rightarrow> node" where
  "unlink p fs = (if file_at fs p then remove_at p fs else fs)"

definition path_str :: "fpath \<Rightarrow> string" where
  "path_str p = (if p = [] then ''/'' else concat (map (\<lambda>n. CHR ''/'' # n) p))"

subsection \<open>Versions and metadata directories\<close>

definition minimum :: "(string \<times> nat list) list" where
  "minimum = [(''setuptools'', [78, 1, 1]), (''msgpack'', [1, 2, 1]), (''virtualenv'', [21, 7, 13])]"

definition skip_dirs :: "string list" where
  "skip_dirs = [''/proc'', ''/sys'', ''/dev'', ''/run'', ''/ms-playwright'']"

fun parse_parts :: "string list \<Rightarrow> nat list" where
  "parse_parts [] = []"
| "parse_parts (chunk # chunks) =
     (let digits = takeWhile is_digit chunk in
      if digits = [] then [] else undec digits # parse_parts chunks)"

definition parse_version :: "string \<Rightarrow> nat list" where
  "parse_version v = parse_parts (split_on (CHR ''.'') v)"

definition outdated :: "string \<Rightarrow> string \<Rightarrow> bool" where
  "outdated name v = (case map_of minimum name of
     None \<Rightarrow> False | Some m \<Rightarrow> parse_version v < m)"

definition name_char :: "char \<Rightarrow> bool" where
  "name_char c \<longleftrightarrow> is_alnum c \<or> c \<in> {CHR ''_'', CHR ''.'', CHR ''-''}"

text \<open>
  \<^verbatim>\<open>METADATA_DIR\<close>: a name, a dash, a version that starts with a digit and has no dash, and
  one of the two suffixes.  The version having no dash, it starts after the last one.  The
  final \<^verbatim>\<open>$\<close> of the expression also matches before a newline at the end.
\<close>

definition metadata_core :: "string \<Rightarrow> string option" where
  "metadata_core s =
     (let t = (if s \<noteq> [] \<and> last s = CHR 0x0A then butlast s else s) in
      if ends_with ''.dist-info'' t then Some (take (length t - 10) t)
      else if ends_with ''.egg-info'' t then Some (take (length t - 9) t)
      else None)"

definition metadata_match :: "string \<Rightarrow> (string \<times> string) option" where
  "metadata_match s =
     (case metadata_core s of
        None \<Rightarrow> None
      | Some core \<Rightarrow>
          (case rpartition_at (CHR ''-'') core of
             (name, found, v) \<Rightarrow>
               if found \<and> name \<noteq> [] \<and> list_all name_char name \<and> v \<noteq> [] \<and> is_digit (hd v)
               then Some (name, v) else None))"

definition package_name :: "string \<Rightarrow> string" where
  "package_name n = lower (map (\<lambda>c. if c = CHR ''_'' then CHR ''-'' else c) n)"

subsection \<open>Walking the tree\<close>

text \<open>What a loop over the entries of a directory does with one entry.\<close>

datatype 'a visit = Ignore | Take 'a | Enter

fun taken :: "'a visit \<Rightarrow> 'a list" where
  "taken (Take x) = [x]"
| "taken _ = []"

text \<open>
  The loop both walks share: the directory on top of the stack is listed, unless it is one to
  skip or cannot be listed, and its entries are taken, pushed or ignored.  The head of the list
  is the top of the stack.
\<close>

fun tree_weight :: "node \<Rightarrow> nat" where
  "tree_weight (Directory (Some es)) = 1 + sum_list (map (\<lambda>(_, nd). tree_weight nd) es)"
| "tree_weight _ = 1"

definition weight_at :: "node \<Rightarrow> fpath \<Rightarrow> nat" where
  "weight_at fs p = (case lookup_path fs p of None \<Rightarrow> 1 | Some nd \<Rightarrow> tree_weight nd)"

definition entries :: "node \<Rightarrow> fpath \<Rightarrow> fpath list" where
  "entries fs cur = (if path_str cur \<in> set skip_dirs then []
     else case iterdir fs cur of None \<Rightarrow> [] | Some names \<Rightarrow> map (\<lambda>n. cur @ [n]) names)"

lemma weight_pos: "0 < tree_weight nd"
  by (cases nd rule: tree_weight.cases) simp_all

lemma lookup_append:
  "lookup_path fs (p @ q) = (case lookup_path fs p of None \<Rightarrow> None | Some nd \<Rightarrow> lookup_path nd q)"
  by (induction fs p rule: lookup_path.induct) (auto split: option.splits)

lemma weight_names:
  "sum_list (map (\<lambda>n. case map_of es n of None \<Rightarrow> 1 | Some nd \<Rightarrow> tree_weight nd) (remdups (map fst es)))
     \<le> sum_list (map (\<lambda>(_, nd). tree_weight nd) es)"
proof (induction es)
  case (Cons e es)
  let ?w = "\<lambda>es n. case map_of es n of None \<Rightarrow> 1 | Some nd \<Rightarrow> tree_weight nd"
  let ?A = "fst ` set es"
  have "sum (?w (e # es)) (insert (fst e) ?A) = tree_weight (snd e) + sum (?w es) (?A - {fst e})"
    by (simp add: sum.insert_remove)
  also have "\<dots> \<le> tree_weight (snd e) + sum (?w es) ?A"
    by (simp add: sum_mono2)
  finally show ?case
    using Cons.IH by (simp add: sum.set_conv_list [symmetric] case_prod_beta del: remdups.simps)
qed simp

lemma weight_entries: "sum_list (map (weight_at fs) (entries fs cur)) < weight_at fs cur"
proof (cases "lookup_path fs cur")
  case (Some nd)
  show ?thesis
  proof (cases nd rule: tree_weight.cases)
    case (1 es)
    have "weight_at fs (cur @ [n]) = (case map_of es n of None \<Rightarrow> 1 | Some nd \<Rightarrow> tree_weight nd)" for n
      by (simp add: weight_at_def lookup_append Some 1 split: option.splits)
    then show ?thesis using Some 1 weight_names [of es]
      by (simp add: entries_def iterdir_def weight_at_def [of fs cur] comp_def weight_pos)
  qed (simp_all add: entries_def iterdir_def Some weight_at_def)
qed (simp add: entries_def iterdir_def weight_at_def)

lemma weight_filter: "sum_list (map f (filter P xs)) \<le> (sum_list (map f xs) :: nat)"
  by (induction xs) simp_all

function scan :: "(fpath \<Rightarrow> 'a visit) \<Rightarrow> node \<Rightarrow> fpath list \<Rightarrow> 'a list \<Rightarrow> 'a list" where
  "scan visit fs [] found = found"
| "scan visit fs (cur # stack) found =
     scan visit fs (rev (filter (\<lambda>p. visit p = Enter) (entries fs cur)) @ stack)
       (found @ concat (map (\<lambda>p. taken (visit p)) (entries fs cur)))"
  by pat_completeness auto
termination
proof (relation "measure (\<lambda>(visit, fs, stack, found). sum_list (map (weight_at fs) stack))")
  fix visit :: "fpath \<Rightarrow> 'a visit" and fs cur stack and found :: "'a list"
  have "sum_list (map (weight_at fs) (rev (filter (\<lambda>p. visit p = Enter) (entries fs cur))))
      \<le> sum_list (map (weight_at fs) (entries fs cur))"
    unfolding rev_map [symmetric] sum_list_rev by (rule weight_filter)
  with weight_entries [of fs cur]
  show "((visit, fs, rev (filter (\<lambda>p. visit p = Enter) (entries fs cur)) @ stack,
          found @ concat (map (\<lambda>p. taken (visit p)) (entries fs cur))), visit, fs, cur # stack, found)
      \<in> measure (\<lambda>(visit, fs, stack, found). sum_list (map (weight_at fs) stack))"
    by simp
qed simp

definition walk_visit :: "node \<Rightarrow> fpath \<Rightarrow> (string \<times> string \<times> fpath) visit" where
  "walk_visit fs entry =
     (if \<not> real_dir_at fs entry then Ignore
      else if contains ''/_vendor/'' (path_str entry @ ''/'') then Ignore
      else
        (case metadata_match (last entry) of
           None \<Rightarrow> Enter
         | Some (n, version) \<Rightarrow>
             if package_name n \<in> set (map fst minimum)
             then Take (package_name n, version, entry) else Ignore))"

definition walk :: "node \<Rightarrow> (string \<times> string \<times> fpath) list" where
  "walk fs = scan (walk_visit fs) fs [[]] []"

text \<open>\<^verbatim>\<open>fnmatch\<close> for patterns whose only special character is the star.\<close>

function glob :: "string \<Rightarrow> string \<Rightarrow> bool" where
  "glob [] s = (s = [])"
| "glob (c # cs) [] = (c = CHR ''*'' \<and> glob cs [])"
| "glob (c # cs) (x # xs) =
     (if c = CHR ''*'' then glob cs (x # xs) \<or> glob (c # cs) xs else x = c \<and> glob cs xs)"
  by pat_completeness auto
termination by (relation "measure (\<lambda>(p, s). length p + length s)") auto

definition sbom_patterns :: "string list" where
  "sbom_patterns = [''*.cdx.json'', ''*.spdx.json'', ''*.spdx'', ''*sbom*.json'', ''bom.json'']"

definition sbom_visit :: "node \<Rightarrow> fpath \<Rightarrow> fpath visit" where
  "sbom_visit fs entry =
     (if lookup_path fs entry = Some Symlink then Ignore
      else if real_dir_at fs entry then Enter
      else if list_ex (\<lambda>pattern. glob pattern (last entry)) sbom_patterns then Take entry
      else Ignore)"

definition stale_sboms :: "node \<Rightarrow> fpath list" where
  "stale_sboms fs = scan (sbom_visit fs) fs [[]] []"

subsection \<open>Purging and the verdict\<close>

definition purge_package :: "(fpath \<Rightarrow> node \<Rightarrow> node) \<Rightarrow> string \<Rightarrow> fpath \<Rightarrow> node \<Rightarrow> node" where
  "purge_package rm name metadata_dir fs =
     (let parent = butlast metadata_dir;
          fs1 = rm metadata_dir fs;
          fs2 = rm (parent @ [name]) fs1;
          fs3 = rm (parent @ [map (\<lambda>c. if c = CHR ''-'' then CHR ''_'' else c) name]) fs2
      in if name = ''setuptools'' then rm (parent @ [''pkg_resources'']) fs3 else fs3)"

definition copy_text :: "string \<Rightarrow> string \<Rightarrow> fpath \<Rightarrow> string" where
  "copy_text name version dir = name @ '' '' @ version @ '' in '' @ path_str (butlast dir)"

fun sbom_step :: "bool \<Rightarrow> fpath \<Rightarrow> node \<times> string list \<times> string list
    \<Rightarrow> node \<times> string list \<times> string list" where
  "sbom_step should_purge sbom (fs, out, removed) =
     (let out' = out @ [''sbom '' @ path_str sbom] in
      if should_purge then (unlink sbom fs, out', removed @ [''stale SBOM '' @ path_str sbom])
      else (fs, out', removed))"

fun copy_step :: "(fpath \<Rightarrow> node \<Rightarrow> node) \<Rightarrow> bool \<Rightarrow> string \<times> string \<times> fpath
    \<Rightarrow> node \<times> string list \<times> string list \<Rightarrow> node \<times> string list \<times> string list" where
  "copy_step rm should_purge (name, version, dir) (fs, out, removed) =
     (let old = outdated name version;
          out' = out @ [(if old then ''OLD '' else ''ok  '') @ '' '' @ name @ '' '' @ version @ ''  ''
            @ path_str (butlast dir)]
      in if old \<and> should_purge
         then (purge_package rm name dir fs, out', removed @ [copy_text name version dir])
         else (fs, out', removed))"

definition purge_phase :: "(fpath \<Rightarrow> node \<Rightarrow> node) \<Rightarrow> bool \<Rightarrow> node \<Rightarrow> node \<times> string list \<times> string list" where
  "purge_phase rm should_purge fs =
     (let st = fold (sbom_step should_purge) (stale_sboms fs) (fs, [], []) in
      fold (copy_step rm should_purge) (sort_key (\<lambda>(_, _, dir). path_str dir) (walk (fst st))) st)"

definition survivors :: "node \<Rightarrow> (string \<times> string \<times> fpath) list" where
  "survivors fs = filter (\<lambda>(name, version, _). outdated name version) (walk fs)"

definition missing_packages :: "node \<Rightarrow> string list" where
  "missing_packages fs = filter (\<lambda>name. name \<notin> fst ` set (walk fs)) (map fst minimum)"

definition verify_main :: "(fpath \<Rightarrow> node \<Rightarrow> node) \<Rightarrow> string list \<Rightarrow> node \<Rightarrow> int \<times> node \<times> string list" where
  "verify_main rm argv fs =
     (let (fs', out, removed) = purge_phase rm (''--purge'' \<in> set argv) fs;
          out' = out @ map (\<lambda>line. ''removed '' @ line) removed
      in if survivors fs' \<noteq> [] \<or> missing_packages fs' \<noteq> []
         then (1, fs', out' @ [join (CHR 0x0A # ''  '') ((CHR 0x0A # ''FAILED:'')
                 # map (\<lambda>(name, version, dir). copy_text name version dir) (survivors fs')
                 @ map (\<lambda>n. n @ '' is missing entirely'') (missing_packages fs'))])
         else (0, fs', out' @ [CHR 0x0A # ''all copies are at or above the required versions'']))"

subsection \<open>What a walk finds\<close>

definition enters :: "(fpath \<Rightarrow> 'a visit) \<Rightarrow> node \<Rightarrow> fpath \<Rightarrow> fpath \<Rightarrow> bool" where
  "enters visit fs p q \<longleftrightarrow> q \<in> set (entries fs p) \<and> visit q = Enter"

definition takes :: "(fpath \<Rightarrow> 'a visit) \<Rightarrow> node \<Rightarrow> fpath \<Rightarrow> 'a set" where
  "takes visit fs p = {x. \<exists>q \<in> set (entries fs p). visit q = Take x}"

lemma set_taken: "set (concat (map (\<lambda>p. taken (visit p)) es)) = {x. \<exists>q \<in> set es. visit q = Take x}"
proof -
  have "x \<in> set (taken v) \<longleftrightarrow> v = Take x" for x and v :: "'a visit"
    by (cases v) auto
  then show ?thesis by auto
qed

lemma scan_set:
  "set (scan visit fs stack found)
     = set found \<union> (\<Union>p \<in> set stack. \<Union>q \<in> {q. (enters visit fs)\<^sup>*\<^sup>* p q}. takes visit fs q)"
proof (induction visit fs stack found rule: scan.induct)
  case (2 visit fs cur stack found)
  have "{q. (enters visit fs)\<^sup>*\<^sup>* cur q}
      = insert cur (\<Union>p \<in> {p. enters visit fs cur p}. {q. (enters visit fs)\<^sup>*\<^sup>* p q})"
    by (auto elim: converse_rtranclpE intro: converse_rtranclp_into_rtranclp)
  moreover have "set (filter (\<lambda>p. visit p = Enter) (entries fs cur)) = {p. enters visit fs cur p}"
    by (auto simp: enters_def)
  moreover have "set (concat (map (\<lambda>p. taken (visit p)) (entries fs cur))) = takes visit fs cur"
    by (simp only: set_taken takes_def)
  ultimately show ?case
    using 2 by (simp only: scan.simps set_append set_rev list.set UN_Un UN_insert UN_simps Un_ac)
qed simp

declare scan.simps [simp del]

text \<open>
  An entry is open when every directory above it, from the root down, was listed and entered:
  none of them is one to skip, one below a vendored package, a metadata directory or a link.
\<close>

lemma entries_iff:
  "q \<in> set (entries fs p) \<longleftrightarrow> path_str p \<notin> set skip_dirs
     \<and> (\<exists>n es. q = p @ [n] \<and> lookup_path fs p = Some (Directory (Some es)) \<and> map_of es n \<noteq> None)"
  by (auto simp: entries_def iterdir_def dom_map_of_conv_image_fst [symmetric] split: option.splits node.splits)

lemma reach_prefix:
  "(enters visit fs)\<^sup>*\<^sup>* [] q \<longleftrightarrow>
     (\<forall>p n r. q = p @ n # r \<longrightarrow> p @ [n] \<in> set (entries fs p) \<and> visit (p @ [n]) = Enter)"
proof
  assume "(enters visit fs)\<^sup>*\<^sup>* [] q"
  then show "\<forall>p n r. q = p @ n # r \<longrightarrow> p @ [n] \<in> set (entries fs p) \<and> visit (p @ [n]) = Enter"
  proof (induction rule: rtranclp_induct)
    case (step q q')
    then obtain m where m: "q' = q @ [m]" "q' \<in> set (entries fs q)" "visit q' = Enter"
      by (auto simp: enters_def entries_iff)
    show ?case
    proof (intro allI impI)
      fix p n r assume "q' = p @ n # r"
      with m show "p @ [n] \<in> set (entries fs p) \<and> visit (p @ [n]) = Enter"
        using step.IH by (cases r rule: rev_cases) auto
    qed
  qed simp
next
  assume "\<forall>p n r. q = p @ n # r \<longrightarrow> p @ [n] \<in> set (entries fs p) \<and> visit (p @ [n]) = Enter"
  then show "(enters visit fs)\<^sup>*\<^sup>* [] q"
  proof (induction q rule: rev_induct)
    case (snoc n q)
    then have "enters visit fs q (q @ [n])" by (simp add: enters_def)
    moreover have "(enters visit fs)\<^sup>*\<^sup>* [] q" using snoc by (metis append.assoc append_Cons)
    ultimately show ?case by simp
  qed simp
qed

lemma scan_root:
  "x \<in> set (scan visit fs [[]] []) \<longleftrightarrow>
     (\<exists>p n. p @ [n] \<in> set (entries fs p) \<and> visit (p @ [n]) = Take x
        \<and> (\<forall>q m r. p = q @ m # r \<longrightarrow> q @ [m] \<in> set (entries fs q) \<and> visit (q @ [m]) = Enter))"
proof -
  have "q \<in> set (entries fs p) \<Longrightarrow> \<exists>n. q = p @ [n]" for q p by (auto simp: entries_iff)
  then show ?thesis by (simp add: scan_set takes_def reach_prefix) blast
qed

lemma walk_visit_cases [simp]:
  "walk_visit fs e = Enter \<longleftrightarrow> real_dir_at fs e \<and> \<not> contains ''/_vendor/'' (path_str e @ ''/'')
     \<and> metadata_match (last e) = None"
  "walk_visit fs e = Take (nm, v, d) \<longleftrightarrow> real_dir_at fs e \<and> \<not> contains ''/_vendor/'' (path_str e @ ''/'')
     \<and> (\<exists>n. metadata_match (last e) = Some (n, v) \<and> nm = package_name n) \<and> nm \<in> fst ` set minimum \<and> d = e"
  by (auto simp: walk_visit_def simp del: set_map split: option.splits) (force simp: image_iff)+

text \<open>The declarative reading: the copies a scanner of the image would count.\<close>

definition walked_dir :: "node \<Rightarrow> fpath \<Rightarrow> bool" where
  "walked_dir fs p \<longleftrightarrow> (\<exists>es. lookup_path fs p = Some (Directory (Some es))) \<and> path_str p \<notin> set skip_dirs"

definition copy_at :: "node \<Rightarrow> string \<Rightarrow> string \<Rightarrow> fpath \<Rightarrow> bool" where
  "copy_at fs name version dir \<longleftrightarrow>
     dir \<noteq> [] \<and> real_dir_at fs dir \<and> \<not> contains ''/_vendor/'' (path_str dir @ ''/'')
     \<and> (\<exists>n. metadata_match (last dir) = Some (n, version) \<and> name = package_name n)
     \<and> name \<in> fst ` set minimum
     \<and> (\<forall>p n r. dir = p @ n # r \<longrightarrow> walked_dir fs p
          \<and> (r \<noteq> [] \<longrightarrow> \<not> contains ''/_vendor/'' (path_str (p @ [n]) @ ''/'') \<and> metadata_match n = None))"

lemma walk_iff: "(name, version, dir) \<in> set (walk fs) \<longleftrightarrow> copy_at fs name version dir"
proof -
  have entry: "q @ [m] \<in> set (entries fs q) \<longleftrightarrow> walked_dir fs q \<and> lookup_path fs (q @ [m]) \<noteq> None" for q m
    by (auto simp: entries_iff walked_dir_def lookup_append split: option.splits)
  have dir: "real_dir_at fs q \<Longrightarrow> lookup_path fs q \<noteq> None" for q
    by (auto simp: real_dir_at_def split: option.splits)
  show ?thesis
  proof
    assume "(name, version, dir) \<in> set (walk fs)"
    then obtain p n where p: "walked_dir fs p" "walk_visit fs (p @ [n]) = Take (name, version, dir)"
      "\<And>q m r. p = q @ m # r \<Longrightarrow> walked_dir fs q \<and> walk_visit fs (q @ [m]) = Enter"
      unfolding walk_def scan_root entry by blast
    show "copy_at fs name version dir"
      unfolding copy_at_def
    proof (intro conjI allI impI)
      fix q m r assume d: "dir = q @ m # r"
      show "walked_dir fs q" using p d by (cases r rule: rev_cases) auto
      assume "r \<noteq> []"
      with p d have "walk_visit fs (q @ [m]) = Enter" by (cases r rule: rev_cases) auto
      then show "\<not> contains ''/_vendor/'' (path_str (q @ [m]) @ ''/'')" "metadata_match m = None" by simp_all
    qed (use p in auto)
  next
    assume c: "copy_at fs name version dir"
    then obtain p n where d: "dir = p @ [n]" by (cases dir rule: rev_cases) (auto simp: copy_at_def)
    have below: "walked_dir fs q \<and> (r \<noteq> [] \<longrightarrow> \<not> contains ''/_vendor/'' (path_str (q @ [m]) @ ''/'')
        \<and> metadata_match m = None)" if "dir = q @ m # r" for q m r
      using c that unfolding copy_at_def by blast
    have "p @ [n] \<in> set (entries fs p)"
      using below [of p n "[]"] c d dir [of "p @ [n]"] by (simp add: entry copy_at_def)
    moreover have "walk_visit fs (p @ [n]) = Take (name, version, dir)"
      using c d by (simp add: copy_at_def)
    moreover have "q @ [m] \<in> set (entries fs q) \<and> walk_visit fs (q @ [m]) = Enter" if "p = q @ m # r" for q m r
    proof -
      have q: "dir = q @ m # (r @ [n])" using that d by simp
      have "walked_dir fs (q @ [m])"
        using below [of "q @ [m]" "hd (r @ [n])" "tl (r @ [n])"] q by (cases r) simp_all
      then have "real_dir_at fs (q @ [m])" "lookup_path fs (q @ [m]) \<noteq> None"
        by (auto simp: walked_dir_def real_dir_at_def)
      with below [OF q] show ?thesis by (simp add: entry)
    qed
    ultimately show "(name, version, dir) \<in> set (walk fs)"
      unfolding walk_def scan_root by blast
  qed
qed

text \<open>A directory that can be listed, and what removing the trees at \<open>T\<close> does to the image.\<close>

definition listable :: "node \<Rightarrow> fpath \<Rightarrow> bool" where
  "listable fs p \<longleftrightarrow> (\<exists>es. lookup_path fs p = Some (Directory (Some es)))"

definition pruned :: "fpath set \<Rightarrow> node \<Rightarrow> node \<Rightarrow> bool" where
  "pruned T fs fs' \<longleftrightarrow> (\<forall>q.
     (real_dir_at fs' q \<longleftrightarrow> real_dir_at fs q \<and> (\<forall>t \<in> T. \<not> prefix t q))
     \<and> (listable fs' q \<longleftrightarrow> listable fs q \<and> (\<forall>t \<in> T. \<not> prefix t q))
     \<and> (file_at fs' q \<longrightarrow> file_at fs q))"

lemma pruned_refl: "pruned {} fs fs"
  by (simp add: pruned_def)

lemma pruned_trans: "pruned T fs fs1 \<Longrightarrow> pruned U fs1 fs2 \<Longrightarrow> pruned (T \<union> U) fs fs2"
  by (auto simp: pruned_def)

fun kind_of :: "node \<Rightarrow> node" where
  "kind_of (Directory (Some _)) = Directory (Some [])"
| "kind_of nd = nd"

lemma map_of_filter_key: "map_of (filter (\<lambda>(m, _). m \<noteq> n) es) k = (if k = n then None else map_of es k)"
  by (induction es) auto

lemma map_of_change_key:
  "map_of (map (\<lambda>(m, nd). (m, if m = n then f nd else nd)) es) k
     = (if k = n then map_option f (map_of es k) else map_of es k)"
  by (induction es) auto

lemma lookup_remove_at:
  "p \<noteq> [] \<Longrightarrow>
     (if prefix p q then lookup_path (remove_at p fs) q = None
      else map_option kind_of (lookup_path (remove_at p fs) q) = map_option kind_of (lookup_path fs q))"
proof (induction p arbitrary: fs q)
  case (Cons n p)
  show ?case
  proof (cases fs rule: kind_of.cases)
    case (1 es)
    show ?thesis
    proof (cases q)
      case q: (Cons k q')
      show ?thesis
      proof (cases "p = [] \<or> k \<noteq> n")
        case True
        then show ?thesis using q 1
          by (cases p) (auto simp: map_of_filter_key map_of_change_key split: option.splits)
      next
        case False
        with Cons.IH [of q'] q 1 show ?thesis
          by (cases p) (auto simp: map_of_change_key split: option.splits)
      qed
    qed (use 1 in \<open>cases p; simp\<close>)
  qed (cases q; simp)+
qed simp

lemma prefix_lookup: "prefix p q \<Longrightarrow> lookup_path fs p = None \<Longrightarrow> lookup_path fs q = None"
  by (auto simp: prefix_def lookup_append)

lemma kind_tests:
  "real_dir_at fs q \<longleftrightarrow> map_option kind_of (lookup_path fs q) \<in> {Some (Directory None), Some (Directory (Some []))}"
  "listable fs q \<longleftrightarrow> map_option kind_of (lookup_path fs q) = Some (Directory (Some []))"
  "file_at fs q \<longleftrightarrow> map_option kind_of (lookup_path fs q) = Some RegularFile"
proof -
  have "kind_of nd = Directory (Some []) \<longleftrightarrow> (\<exists>es. nd = Directory (Some es))"
    "kind_of nd = Directory None \<longleftrightarrow> nd = Directory None" "kind_of nd = RegularFile \<longleftrightarrow> nd = RegularFile" for nd
    by (cases nd rule: kind_of.cases; simp)+
  moreover have "is_real_dir nd \<longleftrightarrow> nd = Directory None \<or> (\<exists>es. nd = Directory (Some es))" for nd
    by (cases nd rule: kind_of.cases) simp_all
  ultimately show "real_dir_at fs q \<longleftrightarrow> map_option kind_of (lookup_path fs q) \<in> {Some (Directory None), Some (Directory (Some []))}"
    "listable fs q \<longleftrightarrow> map_option kind_of (lookup_path fs q) = Some (Directory (Some []))"
    "file_at fs q \<longleftrightarrow> map_option kind_of (lookup_path fs q) = Some RegularFile"
    by (auto simp: real_dir_at_def listable_def file_at_def split: option.splits)
qed

lemma pruned_remove_at:
  assumes "p \<noteq> []"
  shows "pruned {p} fs (remove_at p fs)"
proof -
  have "map_option kind_of (lookup_path (remove_at p fs) q)
      = (if prefix p q then None else map_option kind_of (lookup_path fs q))" for q
    using lookup_remove_at [OF assms, of q fs] by (cases "prefix p q") simp_all
  then show ?thesis by (simp add: pruned_def kind_tests)
qed

text \<open>Below a path that is not a directory there is nothing.\<close>

lemma below_dir:
  assumes "lookup_path fs q \<noteq> None" and "prefix p q"
  shows "p = q \<or> listable fs p"
proof -
  obtain r where r: "q = p @ r" using assms(2) by (auto simp: prefix_def)
  obtain nd where nd: "lookup_path fs p = Some nd" "lookup_path nd r \<noteq> None"
    using assms(1) r by (auto simp: lookup_append split: option.splits)
  then show ?thesis using r by (cases r; cases nd rule: kind_of.cases) (auto simp: listable_def)
qed

lemma found_here: "real_dir_at fs q \<or> listable fs q \<or> file_at fs q \<Longrightarrow> lookup_path fs q \<noteq> None"
  by (auto simp: real_dir_at_def listable_def file_at_def split: option.splits)

lemma listable_real_dir: "listable fs q \<Longrightarrow> real_dir_at fs q"
  by (auto simp: listable_def real_dir_at_def)

lemma pruned_rmtree:
  assumes "p \<noteq> []"
  shows "pruned {p} fs (rmtree p fs)"
proof (cases "real_dir_at fs p")
  case True
  then show ?thesis using pruned_remove_at [OF assms] by (simp add: rmtree_def)
next
  case False
  then have "\<not> (prefix p q \<and> (real_dir_at fs q \<or> listable fs q))" for q
    using below_dir [of fs q p] found_here [of fs q] listable_real_dir by blast
  with False show ?thesis unfolding pruned_def rmtree_def by auto
qed

lemma not_dir_and_file: "file_at fs p \<Longrightarrow> \<not> real_dir_at fs p"
  by (simp add: file_at_def real_dir_at_def)

lemma pruned_unlink:
  assumes "p \<noteq> []"
  shows "pruned {} fs (unlink p fs)" and "\<not> file_at (unlink p fs) p"
proof -
  have "pruned {} fs (remove_at p fs)" if f: "file_at fs p"
  proof -
    have "\<not> (prefix p q \<and> (real_dir_at fs q \<or> listable fs q))" for q
      using below_dir [of fs q p] found_here [of fs q] listable_real_dir not_dir_and_file [OF f] by blast
    with pruned_remove_at [OF assms, of fs] show ?thesis unfolding pruned_def by blast
  qed
  then show "pruned {} fs (unlink p fs)" by (simp add: unlink_def pruned_refl)
  show "\<not> file_at (unlink p fs) p"
    using lookup_remove_at [OF assms, of p fs] by (simp add: unlink_def file_at_def)
qed

text \<open>What the purge of one copy is after.\<close>

definition purged_paths :: "string \<Rightarrow> fpath \<Rightarrow> fpath set" where
  "purged_paths name dir = {dir, butlast dir @ [name],
     butlast dir @ [map (\<lambda>c. if c = CHR ''-'' then CHR ''_'' else c) name]}
     \<union> (if name = ''setuptools'' then {butlast dir @ [''pkg_resources'']} else {})"

lemma pruned_purge:
  assumes "dir \<noteq> []"
  shows "pruned (purged_paths name dir) fs (purge_package rmtree name dir fs)"
proof -
  let ?b = "butlast dir @ [name]" and ?c = "butlast dir @ [map (\<lambda>c. if c = CHR ''-'' then CHR ''_'' else c) name]"
    and ?d = "butlast dir @ [''pkg_resources'']"
  let ?fs3 = "rmtree ?c (rmtree ?b (rmtree dir fs))"
  have 3: "pruned ({dir} \<union> {?b} \<union> {?c}) fs ?fs3"
    by (rule pruned_trans [OF pruned_trans [OF pruned_rmtree pruned_rmtree] pruned_rmtree]) (simp_all add: assms)
  then have 4: "pruned ({dir} \<union> {?b} \<union> {?c} \<union> {?d}) fs (rmtree ?d ?fs3)"
    by (rule pruned_trans) (rule pruned_rmtree, simp)
  from 3 4 show ?thesis
    unfolding purge_package_def purged_paths_def Let_def by (cases "name = ''setuptools''") (simp_all add: insert_commute)
qed

lemma copy_at_dirs:
  "copy_at fs name v dir \<longleftrightarrow> real_dir_at fs dir \<and> (\<forall>p n r. dir = p @ n # r \<longrightarrow> listable fs p)
     \<and> dir \<noteq> [] \<and> \<not> contains ''/_vendor/'' (path_str dir @ ''/'')
     \<and> (\<exists>n. metadata_match (last dir) = Some (n, v) \<and> name = package_name n) \<and> name \<in> fst ` set minimum
     \<and> (\<forall>p n r. dir = p @ n # r \<longrightarrow> path_str p \<notin> set skip_dirs
         \<and> (r \<noteq> [] \<longrightarrow> \<not> contains ''/_vendor/'' (path_str (p @ [n]) @ ''/'') \<and> metadata_match n = None))"
  unfolding copy_at_def walked_dir_def listable_def by blast

lemma copy_at_pruned:
  assumes "pruned T fs fs'"
  shows "copy_at fs' name v dir \<longleftrightarrow> copy_at fs name v dir \<and> (\<forall>t \<in> T. \<not> prefix t dir)"
proof -
  have up: "\<not> prefix t p" if "\<not> prefix t dir" "dir = p @ n # r" for t p n r
    using that by (auto simp: prefix_def)
  have d: "real_dir_at fs' dir \<longleftrightarrow> real_dir_at fs dir \<and> (\<forall>t \<in> T. \<not> prefix t dir)"
    and l: "listable fs' q \<longleftrightarrow> listable fs q \<and> (\<forall>t \<in> T. \<not> prefix t q)" for q
    using assms by (simp_all add: pruned_def)
  have "real_dir_at fs' dir \<and> (\<forall>p n r. dir = p @ n # r \<longrightarrow> listable fs' p)
    \<longleftrightarrow> (real_dir_at fs dir \<and> (\<forall>p n r. dir = p @ n # r \<longrightarrow> listable fs p)) \<and> (\<forall>t \<in> T. \<not> prefix t dir)"
    unfolding d l using up by blast
  then show ?thesis unfolding copy_at_dirs by argo
qed

lemma sbom_fold:
  "\<forall>p \<in> set ps. p \<noteq> [] \<Longrightarrow>
     pruned {} fs (fst (fold (sbom_step True) ps (fs, out, removed)))
     \<and> (\<forall>p \<in> set ps. \<not> file_at (fst (fold (sbom_step True) ps (fs, out, removed))) p)"
proof (induction ps arbitrary: fs out removed)
  case (Cons p ps)
  let ?st = "sbom_step True p (fs, out, removed)"
  have st: "fst ?st = unlink p fs" by (simp add: Let_def)
  obtain out' removed' where eq: "?st = (unlink p fs, out', removed')"
    using st by (cases ?st) auto
  have p: "p \<noteq> []" using Cons.prems by simp
  have ih: "pruned {} (unlink p fs) (fst (fold (sbom_step True) ps ?st))"
    "\<forall>p \<in> set ps. \<not> file_at (fst (fold (sbom_step True) ps ?st)) p"
    using Cons.IH [of "unlink p fs" out' removed'] Cons.prems unfolding eq by simp_all
  from pruned_trans [OF pruned_unlink(1) [OF p] ih(1)] ih pruned_unlink(2) [OF p, of fs]
  show ?case unfolding pruned_def by auto
qed (simp add: pruned_refl)

definition purged_all :: "(string \<times> string \<times> fpath) list \<Rightarrow> fpath set" where
  "purged_all cs = (\<Union>(name, v, dir) \<in> set (filter (\<lambda>(name, v, _). outdated name v) cs). purged_paths name dir)"

lemma copy_fold:
  "\<forall>(name, v, dir) \<in> set cs. dir \<noteq> [] \<Longrightarrow>
     pruned (purged_all cs) fs (fst (fold (copy_step rmtree True) cs (fs, out, removed)))"
proof (induction cs arbitrary: fs out removed)
  case (Cons c cs)
  obtain name v dir where c: "c = (name, v, dir)" by (cases c)
  let ?T = "if outdated name v then purged_paths name dir else {}"
  let ?st = "copy_step rmtree True c (fs, out, removed)"
  have st: "pruned ?T fs (fst ?st)"
    using Cons.prems pruned_purge [of dir] by (simp add: c Let_def pruned_refl)
  obtain fs1 out' removed' where eq: "?st = (fs1, out', removed')" by (cases ?st)
  have "pruned (purged_all cs) fs1 (fst (fold (copy_step rmtree True) cs ?st))"
    unfolding eq by (rule Cons.IH) (use Cons.prems in simp)
  with st have "pruned (?T \<union> purged_all cs) fs (fst (fold (copy_step rmtree True) cs ?st))"
    unfolding eq fst_conv by (rule pruned_trans)
  moreover have "?T \<union> purged_all cs = purged_all (c # cs)" by (auto simp: c purged_all_def)
  ultimately show ?case by simp
qed (simp add: pruned_refl purged_all_def)

lemma walk_dirs: "(name, v, dir) \<in> set (walk fs) \<Longrightarrow> dir \<noteq> []"
  by (simp add: walk_iff copy_at_def)

lemma sbom_visit_Take [simp]:
  "sbom_visit fs e = Take x \<longleftrightarrow> x = e \<and> lookup_path fs e \<noteq> Some Symlink \<and> \<not> real_dir_at fs e
     \<and> list_ex (\<lambda>pattern. glob pattern (last e)) sbom_patterns"
  "sbom_visit fs e = Enter \<longleftrightarrow> real_dir_at fs e"
  by (auto simp: sbom_visit_def real_dir_at_def)

definition sbom_at :: "node \<Rightarrow> fpath \<Rightarrow> bool" where
  "sbom_at fs p \<longleftrightarrow> p \<noteq> [] \<and> file_at fs p \<and> list_ex (\<lambda>pattern. glob pattern (last p)) sbom_patterns
     \<and> (\<forall>q n r. p = q @ n # r \<longrightarrow> listable fs q \<and> path_str q \<notin> set skip_dirs)"

lemma stale_sboms_iff: "p \<in> set (stale_sboms fs) \<longleftrightarrow> sbom_at fs p"
proof -
  have entry: "q @ [m] \<in> set (entries fs q) \<longleftrightarrow> listable fs q \<and> path_str q \<notin> set skip_dirs
      \<and> lookup_path fs (q @ [m]) \<noteq> None" for q m
    by (auto simp: entries_iff listable_def lookup_append split: option.splits)
  have kinds: "lookup_path fs q \<noteq> None \<and> lookup_path fs q \<noteq> Some Symlink \<and> \<not> real_dir_at fs q \<longleftrightarrow> file_at fs q" for q
    by (cases "lookup_path fs q"; cases "the (lookup_path fs q)") (auto simp: file_at_def real_dir_at_def)
  show ?thesis
  proof
    assume "p \<in> set (stale_sboms fs)"
    then obtain d n where p: "p = d @ [n]" "d @ [n] \<in> set (entries fs d)" "sbom_visit fs p = Take p"
      "\<And>q m r. d = q @ m # r \<Longrightarrow> q @ [m] \<in> set (entries fs q)"
      unfolding stale_sboms_def scan_root by auto
    have "listable fs q \<and> path_str q \<notin> set skip_dirs" if "p = q @ m # r" for q m r
      using p that by (cases r rule: rev_cases) (auto simp: entry)
    with p(1,2,3) kinds [of p] show "sbom_at fs p" by (auto simp: sbom_at_def entry)
  next
    assume c: "sbom_at fs p"
    then obtain d n where d: "p = d @ [n]" by (cases p rule: rev_cases) (auto simp: sbom_at_def)
    have above: "listable fs q \<and> path_str q \<notin> set skip_dirs" if "p = q @ m # r" for q m r
      using c that unfolding sbom_at_def by blast
    have "d @ [n] \<in> set (entries fs d) \<and> sbom_visit fs (d @ [n]) = Take p"
      using c d above [of d n "[]"] kinds [of p] by (simp add: entry sbom_at_def)
    moreover have "q @ [m] \<in> set (entries fs q) \<and> sbom_visit fs (q @ [m]) = Enter" if "d = q @ m # r" for q m r
    proof -
      have "listable fs (q @ [m])"
        using above [of "q @ [m]" "hd (r @ [n])" "tl (r @ [n])"] d that by (cases r) simp_all
      then have "lookup_path fs (q @ [m]) \<noteq> None \<and> real_dir_at fs (q @ [m])"
        using found_here listable_real_dir by blast
      with above [of q m "r @ [n]"] d that show ?thesis by (simp add: entry)
    qed
    ultimately show "p \<in> set (stale_sboms fs)" unfolding stale_sboms_def scan_root by blast
  qed
qed

lemma survivors_iff: "(name, v, dir) \<in> set (survivors fs) \<longleftrightarrow> copy_at fs name v dir \<and> outdated name v"
  by (auto simp: survivors_def walk_iff)

lemma no_survivors: "survivors fs = [] \<longleftrightarrow> (\<forall>name v dir. copy_at fs name v dir \<longrightarrow> \<not> outdated name v)"
  by (metis survivors_iff list.set_intros(1) list.exhaust empty_iff empty_set prod_cases3)

lemma no_missing: "missing_packages fs = [] \<longleftrightarrow> (\<forall>name \<in> fst ` set minimum. \<exists>v dir. copy_at fs name v dir)"
proof -
  have "name \<in> fst ` set (walk fs) \<longleftrightarrow> (\<exists>v dir. copy_at fs name v dir)" for name
    unfolding walk_iff [symmetric] by force
  then show ?thesis by (simp add: missing_packages_def filter_empty_conv)
qed

lemma outdated_iff:
  "name \<in> fst ` set minimum \<Longrightarrow> \<not> outdated name v \<longleftrightarrow> the (map_of minimum name) \<le> parse_version v"
  by (auto simp: outdated_def dom_map_of_conv_image_fst [symmetric] not_less split: option.splits)

text \<open>
  C38. The image check exits with 0 exactly when every copy of a checked package the walk can
  reach is at or above its minimum version and every package has at least one copy; whatever
  the removal calls did.
\<close>

theorem image_check_sound:
  assumes run: "verify_main rm argv fs = (code, fs', out)"
  shows "code = (if (\<forall>name v dir. copy_at fs' name v dir \<longrightarrow> the (map_of minimum name) \<le> parse_version v)
      \<and> (\<forall>name \<in> fst ` set minimum. \<exists>v dir. copy_at fs' name v dir) then 0 else 1)"
proof -
  have "code = (if survivors fs' \<noteq> [] \<or> missing_packages fs' \<noteq> [] then 1 else 0)"
    using run by (auto simp: verify_main_def Let_def split: prod.splits if_splits)
  moreover have "survivors fs' = []
      \<longleftrightarrow> (\<forall>name v dir. copy_at fs' name v dir \<longrightarrow> the (map_of minimum name) \<le> parse_version v)"
    unfolding no_survivors using outdated_iff by (meson copy_at_def)
  ultimately show ?thesis unfolding no_missing [symmetric] by simp
qed

theorem walk_finds_copies: "set (walk fs) = {(name, v, dir). copy_at fs name v dir}"
  using walk_iff by auto

lemma purge_phase_result:
  assumes run: "purge_phase rmtree True fs = (fs', out, removed)"
  shows "copy_at fs' name v dir \<longleftrightarrow> copy_at fs name v dir
      \<and> (\<forall>name2 v2 dir2. copy_at fs name2 v2 dir2 \<and> outdated name2 v2
          \<longrightarrow> (\<forall>t \<in> purged_paths name2 dir2. \<not> prefix t dir))"
    and "copy_at fs name2 v2 dir2 \<Longrightarrow> outdated name2 v2 \<Longrightarrow> t \<in> purged_paths name2 dir2 \<Longrightarrow>
      prefix t q \<Longrightarrow> \<not> real_dir_at fs' q"
    and "\<not> sbom_at fs' p"
proof -
  let ?st = "fold (sbom_step True) (stale_sboms fs) (fs, [], [])"
  let ?cs = "sort_key (\<lambda>(_, _, dir). path_str dir) (walk (fst ?st))"
  have sb: "\<forall>p \<in> set (stale_sboms fs). p \<noteq> []" by (simp add: stale_sboms_iff sbom_at_def)
  note 1 = sbom_fold [OF sb, of fs "[]" "[]"]
  obtain out1 removed1 where st: "?st = (fst ?st, out1, removed1)" by (cases ?st) auto
  have fs': "fs' = fst (fold (copy_step rmtree True) ?cs ?st)"
    using arg_cong [OF run, of fst] by (simp add: purge_phase_def Let_def)
  have cs: "\<forall>(name, v, dir) \<in> set ?cs. dir \<noteq> []"
    using walk_dirs by auto
  have 2: "pruned (purged_all ?cs) (fst ?st) fs'"
    unfolding fs' by (subst st) (rule copy_fold [OF cs])
  have same: "copy_at (fst ?st) name v dir \<longleftrightarrow> copy_at fs name v dir" for name v dir
    using copy_at_pruned [OF conjunct1 [OF 1]] by simp
  have all: "t \<in> purged_all ?cs \<longleftrightarrow> (\<exists>name v dir. copy_at fs name v dir \<and> outdated name v \<and> t \<in> purged_paths name dir)" for t
    by (auto simp: purged_all_def walk_iff same)
  have 3: "pruned (purged_all ?cs) fs fs'" using pruned_trans [OF conjunct1 [OF 1] 2] by simp
  show "copy_at fs' name v dir \<longleftrightarrow> copy_at fs name v dir
      \<and> (\<forall>name2 v2 dir2. copy_at fs name2 v2 dir2 \<and> outdated name2 v2
          \<longrightarrow> (\<forall>t \<in> purged_paths name2 dir2. \<not> prefix t dir))"
    unfolding copy_at_pruned [OF 3] using all by blast
  show "\<not> real_dir_at fs' q" if "copy_at fs name2 v2 dir2" "outdated name2 v2" "t \<in> purged_paths name2 dir2" "prefix t q"
    using 3 all that unfolding pruned_def by blast
  show "\<not> sbom_at fs' p"
  proof
    assume s: "sbom_at fs' p"
    with 3 have "sbom_at fs p" unfolding sbom_at_def pruned_def by blast
    then have "\<not> file_at (fst ?st) p" using 1 by (simp add: stale_sboms_iff)
    with 2 s show False unfolding sbom_at_def pruned_def by blast
  qed
qed

text \<open>
  C39. With --purge and removals that meet no error, the copies left are exactly the copies
  that lie in no directory purged for an outdated copy, none of them is outdated, no SBOM file
  is left, and the exit code is 0 if and only if every package still has a copy.
\<close>

theorem purge_exact:
  assumes run: "verify_main rmtree argv fs = (code, fs', out)" and flag: "''--purge'' \<in> set argv"
  shows "(\<forall>name v dir. copy_at fs' name v dir \<longleftrightarrow> copy_at fs name v dir
        \<and> (\<forall>name2 v2 dir2. copy_at fs name2 v2 dir2 \<and> outdated name2 v2
            \<longrightarrow> (\<forall>t \<in> purged_paths name2 dir2. \<not> prefix t dir)))
    \<and> survivors fs' = [] \<and> (\<forall>p. \<not> sbom_at fs' p)
    \<and> (code = 0 \<longleftrightarrow> (\<forall>name \<in> fst ` set minimum. \<exists>v dir. copy_at fs' name v dir))"
proof -
  obtain out1 removed where ph: "purge_phase rmtree True fs = (fs', out1, removed)"
    and code: "code = (if survivors fs' \<noteq> [] \<or> missing_packages fs' \<noteq> [] then 1 else 0)"
    using run flag by (auto simp: verify_main_def Let_def split: prod.splits if_splits)
  note r = purge_phase_result [OF ph]
  have none: "survivors fs' = []"
    unfolding no_survivors
  proof (intro allI impI)
    fix name v dir
    assume c: "copy_at fs' name v dir"
    then have "\<not> outdated name v" if "dir \<in> purged_paths name dir" using r(1) that by blast
    then show "\<not> outdated name v" by (simp add: purged_paths_def)
  qed
  have "code = 0 \<longleftrightarrow> (\<forall>name \<in> fst ` set minimum. \<exists>v dir. copy_at fs' name v dir)"
    unfolding no_missing [symmetric] using code none by simp
  with r(1,3) none show ?thesis by blast
qed

text \<open>
  Purging an outdated copy removes the package directory beside it, also when a current copy of
  the same package shares that directory; the check looks at metadata only and can still exit
  with 0.
\<close>

theorem purge_takes_current_code:
  assumes run: "verify_main rmtree argv fs = (code, fs', out)" and flag: "''--purge'' \<in> set argv"
    and old: "copy_at fs name v (parent @ [m])" "outdated name v"
  shows "\<not> real_dir_at fs' (parent @ [name] @ q)"
proof -
  obtain out1 removed where ph: "purge_phase rmtree True fs = (fs', out1, removed)"
    using run flag by (auto simp: verify_main_def Let_def split: prod.splits if_splits)
  have "parent @ [name] \<in> purged_paths name (parent @ [m])" by (simp add: purged_paths_def)
  moreover have "prefix (parent @ [name]) (parent @ [name] @ q)" by simp
  ultimately show ?thesis using purge_phase_result(2) [OF ph old] by blast
qed

lemma rpartition_last: "c \<notin> set v \<Longrightarrow> rpartition_at c (n @ c # v) = (n, True, v)"
  using before_skip [of c "rev v" "c # rev n"] after_skip [of c "rev v" "c # rev n"]
  by (simp add: rpartition_at_def before_def after_def)

lemma metadata_core_suffix:
  "metadata_core (s @ ''.dist-info'') = Some s" "metadata_core (s @ ''.egg-info'') = Some s"
  by (simp_all add: metadata_core_def ends_with_def last_append)

theorem metadata_names:
  assumes "list_all name_char name" "name \<noteq> []" "CHR ''-'' \<notin> set v" "v \<noteq> []" "is_digit (hd v)" "CHR ''-'' \<notin> set tag"
  shows "metadata_match (name @ ''-'' @ v @ ''.dist-info'') = Some (name, v)
    \<and> metadata_match (name @ ''-'' @ v @ ''.egg-info'') = Some (name, v)
    \<and> metadata_match (name @ ''-'' @ v @ ''-py'' @ tag @ ''.egg-info'') = None"
proof -
  have core: "rpartition_at (CHR ''-'') (name @ ''-'' @ v) = (name, True, v)"
    "rpartition_at (CHR ''-'') (name @ ''-'' @ v @ ''-py'' @ tag) = (name @ ''-'' @ v, True, ''py'' @ tag)"
    using rpartition_last [of "CHR ''-''" v name] rpartition_last [of "CHR ''-''" "''py'' @ tag" "name @ ''-'' @ v"] assms
    by simp_all
  have cores: "metadata_core (name @ ''-'' @ v @ ''.dist-info'') = Some (name @ ''-'' @ v)"
    "metadata_core (name @ ''-'' @ v @ ''.egg-info'') = Some (name @ ''-'' @ v)"
    "metadata_core (name @ ''-'' @ v @ ''-py'' @ tag @ ''.egg-info'') = Some (name @ ''-'' @ v @ ''-py'' @ tag)"
    using metadata_core_suffix(1) [of "name @ ''-'' @ v"] metadata_core_suffix(2) [of "name @ ''-'' @ v"]
      metadata_core_suffix(2) [of "name @ ''-'' @ v @ ''-py'' @ tag"] unfolding append.assoc by blast+
  have "\<not> is_digit (CHR ''p'')" by code_simp
  then show ?thesis
    using assms unfolding metadata_match_def cores by (simp add: core [simplified])
qed

lemma digits_parse:
  "parse_parts (map dec_nat ns) = ns"
proof (induction ns)
  case (Cons n ns)
  have "\<forall>x \<in> set (dec_nat n). is_digit x"
    using dec_nat_chars [of _ n] by (force simp: takeWhile_eq_all_conv is_digit_def ord_def)
  then have all: "takeWhile is_digit (dec_nat n) = dec_nat n" by (simp add: takeWhile_eq_all_conv)
  show ?case using Cons by (simp add: Let_def all)
qed simp

lemma parse_dotted:
  assumes "ns \<noteq> []"
  shows "parse_version (join ''.'' (map dec_nat ns)) = ns"
proof -
  have "CHR ''.'' \<notin> set (dec_nat n)" for n
    using dec_nat_chars [of "CHR ''.''" n] by auto
  with assms show ?thesis
    using split_on_join [of "map dec_nat ns" "CHR ''.''"] by (simp add: parse_version_def digits_parse)
qed

definition mixed_image :: node where
  "mixed_image = Directory (Some [(''lib'', Directory (Some
     [(''setuptools-65.5.0.dist-info'', Directory (Some [])),
      (''setuptools-80.0.0.dist-info'', Directory (Some [])),
      (''setuptools'', Directory (Some [(''_vendor'', Directory (Some [])), (''__init__.py'', RegularFile)])),
      (''msgpack-1.2.1.dist-info'', Directory (Some [])),
      (''virtualenv-21.7.13.dist-info'', Directory (Some [])), (''x.cdx.json'', RegularFile)])),
     (''proc'', Directory None)])"

definition clean_image :: node where
  "clean_image = Directory (Some [(''lib'', Directory (Some
     [(''setuptools-80.0.0.dist-info'', Directory (Some [])),
      (''msgpack-1.2.1.dist-info'', Directory (Some [])),
      (''virtualenv-21.7.13.dist-info'', Directory (Some []))])),
     (''proc'', Directory None)])"

lemma mixed_run:
  "\<exists>out. verify_main rmtree [''--purge''] mixed_image = (0, clean_image, out)"
proof -
  have "fst (verify_main rmtree [''--purge''] mixed_image) = 0"
    "fst (snd (verify_main rmtree [''--purge''] mixed_image)) = clean_image" by code_simp+
  then show ?thesis by (metis prod.collapse)
qed

lemma mixed_copies:
  "copy_at mixed_image ''setuptools'' ''65.5.0'' [''lib'', ''setuptools-65.5.0.dist-info'']"
  "copy_at mixed_image ''setuptools'' ''80.0.0'' [''lib'', ''setuptools-80.0.0.dist-info'']"
  "copy_at clean_image ''setuptools'' ''80.0.0'' [''lib'', ''setuptools-80.0.0.dist-info'']"
  unfolding walk_iff [symmetric] by code_simp+

theorem image_check_sound_witness:
  "\<exists>out. verify_main rmtree [''--purge''] mixed_image = (0, clean_image, out)
    \<and> (\<forall>v dir. copy_at clean_image ''setuptools'' v dir \<longrightarrow> [78, 1, 1] \<le> parse_version v)"
proof -
  obtain out where run: "verify_main rmtree [''--purge''] mixed_image = (0, clean_image, out)" using mixed_run by blast
  have "the (map_of minimum ''setuptools'') = [78, 1, 1]" by (simp add: minimum_def)
  with image_check_sound [OF run] run show ?thesis by (metis zero_neq_one)
qed

theorem purge_exact_witness:
  "\<exists>out. verify_main rmtree [''--purge''] mixed_image = (0, clean_image, out)
    \<and> \<not> copy_at clean_image ''setuptools'' ''65.5.0'' [''lib'', ''setuptools-65.5.0.dist-info'']
    \<and> copy_at mixed_image ''setuptools'' ''65.5.0'' [''lib'', ''setuptools-65.5.0.dist-info'']"
proof -
  obtain out where run: "verify_main rmtree [''--purge''] mixed_image = (0, clean_image, out)" using mixed_run by blast
  have "outdated ''setuptools'' ''65.5.0''" by code_simp
  moreover have "survivors clean_image = []" using purge_exact [OF run] by simp
  ultimately have "\<not> copy_at clean_image ''setuptools'' ''65.5.0'' [''lib'', ''setuptools-65.5.0.dist-info'']"
    unfolding no_survivors by blast
  with run mixed_copies(1) show ?thesis by blast
qed

theorem purge_takes_current_code_witness:
  "\<exists>out. verify_main rmtree [''--purge''] mixed_image = (0, clean_image, out)
    \<and> copy_at clean_image ''setuptools'' ''80.0.0'' [''lib'', ''setuptools-80.0.0.dist-info'']
    \<and> real_dir_at mixed_image [''lib'', ''setuptools''] \<and> \<not> real_dir_at clean_image [''lib'', ''setuptools'']"
proof -
  obtain out where run: "verify_main rmtree [''--purge''] mixed_image = (0, clean_image, out)" using mixed_run by blast
  have "outdated ''setuptools'' ''65.5.0''" "real_dir_at mixed_image [''lib'', ''setuptools'']" by code_simp+
  moreover have "\<not> real_dir_at clean_image ([''lib''] @ [''setuptools''] @ [])"
    by (rule purge_takes_current_code [OF run]) (use mixed_copies(1) calculation in simp_all)
  ultimately show ?thesis using run mixed_copies(3) by simp
qed

theorem metadata_names_witness:
  "metadata_match ''setuptools-65.5.0.dist-info'' = Some (''setuptools'', ''65.5.0'')
    \<and> metadata_match ''setuptools-65.5.0-py3.11.egg-info'' = None"
proof -
  have "list_all name_char ''setuptools''" "is_digit (hd ''65.5.0'')" by code_simp+
  from metadata_names [OF this(1) _ _ _ this(2), of "''3.11''"] show ?thesis by simp
qed

end
