(* ===== verification/Sessions.thy ===== *)
theory Sessions
  imports Schedule
begin

text \<open>
  The transaction every session of the program runs in: \<^verbatim>\<open>session_scope\<close> of the tasks and
  \<^verbatim>\<open>get_db\<close> of the request handlers, which are the same function.  A session sees its own
  working copy of the database; what it does outside the database, such as sending a message,
  is not part of the transaction.
\<close>

text \<open>How the body of a session ends: a value, an exception, or something that is not an
  \<^verbatim>\<open>Exception\<close> (the interpreter being told to exit).\<close>

datatype 'a outcome = Value 'a | Raised exn | Terminated

record ('d, 'x) session =
  durable :: 'd
  working :: 'd
  outside :: 'x

definition open_session :: "'d \<Rightarrow> 'x \<Rightarrow> ('d, 'x) session" where
  "open_session d x = \<lparr>durable = d, working = d, outside = x\<rparr>"

text \<open>\<open>broken\<close> is the exception the commit raises, if it does.\<close>

definition commit_session :: "exn option \<Rightarrow> ('d, 'x) session \<Rightarrow> exn option \<times> ('d, 'x) session" where
  "commit_session broken s = (case broken of
     None \<Rightarrow> (None, s\<lparr>durable := working s\<rparr>) | Some e \<Rightarrow> (Some e, s))"

definition rollback_session :: "('d, 'x) session \<Rightarrow> ('d, 'x) session" where
  "rollback_session s = s\<lparr>working := durable s\<rparr>"

text \<open>Closing gives the connection back; what was not committed is gone.\<close>

definition close_session :: "('d, 'x) session \<Rightarrow> 'd \<times> 'x" where
  "close_session s = (durable s, outside s)"

definition session_scope ::
  "exn option \<Rightarrow> (('d, 'x) session \<Rightarrow> 'a outcome \<times> ('d, 'x) session) \<Rightarrow> 'd \<Rightarrow> 'x
    \<Rightarrow> 'a outcome \<times> 'd \<times> 'x" where
  "session_scope broken body d x =
     (case body (open_session d x) of
        (Value v, s) \<Rightarrow>
          (case commit_session broken s of
             (None, s1) \<Rightarrow> (Value v, close_session s1)
           | (Some e, s1) \<Rightarrow> (Raised e, close_session (rollback_session s1)))
      | (Raised e, s) \<Rightarrow> (Raised e, close_session (rollback_session s))
      | (Terminated, s) \<Rightarrow> (Terminated, close_session s))"

definition get_db ::
  "exn option \<Rightarrow> (('d, 'x) session \<Rightarrow> 'a outcome \<times> ('d, 'x) session) \<Rightarrow> 'd \<Rightarrow> 'x
    \<Rightarrow> 'a outcome \<times> 'd \<times> 'x" where
  "get_db broken handler d x =
     (case handler (open_session d x) of
        (Value v, s) \<Rightarrow>
          (case commit_session broken s of
             (None, s1) \<Rightarrow> (Value v, close_session s1)
           | (Some e, s1) \<Rightarrow> (Raised e, close_session (rollback_session s1)))
      | (Raised e, s) \<Rightarrow> (Raised e, close_session (rollback_session s))
      | (Terminated, s) \<Rightarrow> (Terminated, close_session s))"

lemma get_db_scope: "get_db = session_scope"
  by (simp add: fun_eq_iff get_db_def session_scope_def)

text \<open>A body made of statements on the working copy and sends; only the scope commits.\<close>

definition uncommitting :: "(('d, 'x) session \<Rightarrow> 'a outcome \<times> ('d, 'x) session) \<Rightarrow> bool" where
  "uncommitting body \<longleftrightarrow> (\<forall>s. durable (snd (body s)) = durable s)"

definition statement :: "('d \<Rightarrow> exn + 'a \<times> 'd) \<Rightarrow> ('d, 'x) session \<Rightarrow> 'a outcome \<times> ('d, 'x) session" where
  "statement f s = (case f (working s) of
     Inl e \<Rightarrow> (Raised e, s) | Inr (v, d) \<Rightarrow> (Value v, s\<lparr>working := d\<rparr>))"

lemma statement_uncommitting: "uncommitting (statement f)"
  by (auto simp: uncommitting_def statement_def split: sum.splits)

lemma session_scope_cases:
  assumes "uncommitting body" and "body (open_session d x) = (r, s)"
  shows "session_scope broken body d x =
    (case (r, broken) of (Value v, None) \<Rightarrow> (Value v, working s, outside s)
       | (Value v, Some e) \<Rightarrow> (Raised e, d, outside s)
       | (Raised e, _) \<Rightarrow> (Raised e, d, outside s) | (Terminated, _) \<Rightarrow> (Terminated, d, outside s))"
proof -
  have "durable s = d" using assms unfolding uncommitting_def open_session_def
    by (metis session.select_convs(1) snd_conv)
  then show ?thesis
    by (auto simp: session_scope_def assms(2) commit_session_def close_session_def rollback_session_def
        split: outcome.splits option.splits)
qed

theorem session_all_or_nothing:
  assumes body: "uncommitting body" and run: "session_scope broken body d x = (r, d', x')"
  shows "(case r of Value v \<Rightarrow> (\<exists>s. body (open_session d x) = (Value v, s) \<and> broken = None
        \<and> d' = working s \<and> x' = outside s)
      | Raised e \<Rightarrow> d' = d | Terminated \<Rightarrow> d' = d)
    \<and> session_scope None (statement f) d x = (case f d of Inl e \<Rightarrow> (Raised e, d, x) | Inr (v, d1) \<Rightarrow> (Value v, d1, x))"
proof -
  obtain r0 s where b: "body (open_session d x) = (r0, s)" by (rule prod.exhaust)
  from run have "(r, d', x') = (case (r0, broken) of (Value v, None) \<Rightarrow> (Value v, working s, outside s)
       | (Value v, Some e) \<Rightarrow> (Raised e, d, outside s)
       | (Raised e, _) \<Rightarrow> (Raised e, d, outside s) | (Terminated, _) \<Rightarrow> (Terminated, d, outside s))"
    unfolding session_scope_cases [OF body b] by simp
  with b show ?thesis
    by (cases "f d") (auto simp: session_scope_def statement_def open_session_def commit_session_def
        close_session_def rollback_session_def split: outcome.splits option.splits)
qed

text \<open>
  The handler of a submission as the body of its session: the job row is inserted and flushed,
  the message is sent, and the task id is assigned, all before the commit.
\<close>

definition submit_body ::
  "'s deployment \<Rightarrow> resolver \<Rightarrow> (string \<Rightarrow> int) \<Rightarrow> datetime \<Rightarrow> uuid \<Rightarrow> principal
    \<Rightarrow> string option \<Rightarrow> job_create \<Rightarrow> (db, message list) session
    \<Rightarrow> job_accepted outcome \<times> (db, message list) session" where
  "submit_body D dns depth now i p key payload s =
     (case submit_check D dns depth p key payload (working s) of
        Inl e \<Rightarrow> (Raised e, s)
      | Inr (Inl replay) \<Rightarrow> (Value replay, s)
      | Inr (Inr n) \<Rightarrow>
          (case create_job now i n (working s) of
             Inl e \<Rightarrow> (Raised e, s)
           | Inr (j, db1) \<Rightarrow>
               (Value \<lparr>ja_id = i, ja_state = PENDING, ja_replay = False\<rparr>,
                s\<lparr>working := update_job now i (\<lambda>r. r\<lparr>j_celery_task_id := Some i\<rparr>) db1,
                  outside := outside s @ [CrawlMsg i (queue_for (n_fetcher n))]\<rparr>)))"

definition submit_request ::
  "exn option \<Rightarrow> 's deployment \<Rightarrow> resolver \<Rightarrow> (string \<Rightarrow> int) \<Rightarrow> datetime \<Rightarrow> uuid \<Rightarrow> principal
    \<Rightarrow> string option \<Rightarrow> job_create \<Rightarrow> ('s, 'r) world \<Rightarrow> job_accepted outcome \<times> ('s, 'r) world" where
  "submit_request broken D dns depth now i p key payload w =
     (case get_db broken (submit_body D dns depth now i p key payload) (w_db w) (w_sent w) of
        (res, db', sent) \<Rightarrow> (res, w\<lparr>w_db := db', w_sent := sent\<rparr>))"

lemma submit_uncommitting: "uncommitting (submit_body D dns depth now i p key payload)"
  by (auto simp: uncommitting_def submit_body_def split: sum.splits)

text \<open>What a handler's exception or answer looks like outside.\<close>

fun outcome_of :: "exn + 'a \<Rightarrow> 'a outcome" where
  "outcome_of (Inl e) = Raised e"
| "outcome_of (Inr v) = Value v"

lemma new_row_update:
  assumes "create_job now i n db = Inr (j, db1)"
  shows "update_job now i (\<lambda>r. r\<lparr>j_celery_task_id := Some i\<rparr>) db1
    = db\<lparr>jobs := jobs db @ [j\<lparr>j_celery_task_id := Some i\<rparr>]\<rparr>"
proof -
  have j: "j = new_job now i n" and db': "db1 = db\<lparr>jobs := jobs db @ [j]\<rparr>" and new: "i \<notin> j_id ` set (jobs db)"
    using assms by (simp_all add: create_job_Inr get_job_None)
  have "map (\<lambda>k. if j_id k = i then (k\<lparr>j_celery_task_id := Some i\<rparr>)\<lparr>j_updated_at := now\<rparr> else k) (jobs db)
      = jobs db"
    using new by (intro map_idI) auto
  then show ?thesis by (simp add: update_job_def db' j new_job_def)
qed

lemma submit_request_ok:
  "submit_request None D dns depth now i p key payload w
     = (case submit_job D dns depth (\<lambda>w. w) now i p key payload w of (res, w') \<Rightarrow> (outcome_of res, w'))"
  by (auto simp: submit_request_def get_db_scope session_scope_def submit_body_def submit_job_def open_session_def
      commit_session_def close_session_def rollback_session_def Let_def new_row_update
      split: sum.splits prod.splits)

lemma submit_request_broken:
  "submit_request (Some e) D dns depth now i p key payload w
     = (case submit_job D dns depth (\<lambda>w. w) now i p key payload w of (res, w') \<Rightarrow>
          (Raised (case res of Inl e' \<Rightarrow> e' | Inr _ \<Rightarrow> e), w'\<lparr>w_db := w_db w\<rparr>))"
  by (auto simp: submit_request_def get_db_scope session_scope_def submit_body_def submit_job_def open_session_def
      commit_session_def close_session_def rollback_session_def Let_def new_row_update send_def
      split: sum.splits prod.splits)

text \<open>Beat submits in a session of its own and sends when the session has ended.\<close>

definition beat_body ::
  "job_fields \<Rightarrow> datetime \<Rightarrow> uuid \<Rightarrow> (db, message list) session \<Rightarrow> uuid outcome \<times> (db, message list) session" where
  "beat_body n now i = statement (\<lambda>db. case create_job now i n db of
     Inl e \<Rightarrow> Inl e
   | Inr (j, db1) \<Rightarrow> Inr (i, update_job now i (\<lambda>r. r\<lparr>j_celery_task_id := Some i\<rparr>) db1))"

definition beat_request ::
  "exn option \<Rightarrow> 's deployment \<Rightarrow> resolver \<Rightarrow> datetime \<Rightarrow> uuid \<Rightarrow> string \<Rightarrow> row \<Rightarrow> ('s, 'r) world
    \<Rightarrow> uuid outcome \<times> ('s, 'r) world" where
  "beat_request broken D dns now i name job w =
     (case scheduled_fields D dns name job of
        Inl e \<Rightarrow> (Raised e, w)
      | Inr n \<Rightarrow>
          (case session_scope broken (beat_body n now i) (w_db w) (w_sent w) of
             (Value k, db', sent) \<Rightarrow>
               (Value k, send (CrawlMsg i (queue_for (n_fetcher n))) (w\<lparr>w_db := db', w_sent := sent\<rparr>))
           | (res, db', sent) \<Rightarrow> (res, w\<lparr>w_db := db', w_sent := sent\<rparr>)))"

lemma beat_request_ok:
  "beat_request None D dns now i name job w
     = (case submit_scheduled_job D dns (\<lambda>w. w) now i name job w of (res, w') \<Rightarrow> (outcome_of res, w'))"
  by (auto simp: beat_request_def session_scope_def beat_body_def statement_def submit_scheduled_job_def open_session_def
      commit_session_def close_session_def rollback_session_def Let_def new_row_update
      split: sum.splits prod.splits)

lemma beat_request_broken:
  "beat_request (Some e) D dns now i name job w
     = (Raised (case submit_scheduled_job D dns (\<lambda>w. w) now i name job w of (Inl e', _) \<Rightarrow> e' | (Inr _, _) \<Rightarrow> e), w)"
  by (auto simp: beat_request_def session_scope_def beat_body_def statement_def submit_scheduled_job_def open_session_def
      commit_session_def close_session_def rollback_session_def Let_def
      split: sum.splits prod.splits)

theorem requests_in_sessions:
  "submit_request None D dns depth now i p key payload w
     = (case submit_job D dns depth (\<lambda>w. w) now i p key payload w of (res, w') \<Rightarrow> (outcome_of res, w'))
   \<and> beat_request None D dns now i name job w
     = (case submit_scheduled_job D dns (\<lambda>w. w) now i name job w of (res, w') \<Rightarrow> (outcome_of res, w'))"
  using submit_request_ok beat_request_ok by blast



theorem session_all_or_nothing_witness:
  "\<exists>r d' x'. session_scope None (statement (\<lambda>d::nat. Inr (d, d + 1))) 3 ([] :: string list) = (r, d', x')
     \<and> (case r of Value v \<Rightarrow> v = 3 \<and> d' = 4 | Raised e \<Rightarrow> d' = 3 | Terminated \<Rightarrow> d' = 3)"
proof -
  let ?f = "\<lambda>d::nat. (Inr (d, d + 1) :: exn + nat \<times> nat)"
  obtain r d' x' where run: "session_scope None (statement ?f) 3 ([] :: string list) = (r, d', x')"
    by (rule prod_cases3)
  have "session_scope None (statement ?f) 3 ([] :: string list) = (Value 3, 4, [])"
    using session_all_or_nothing [OF statement_uncommitting run, of ?f] by simp
  then show ?thesis by simp
qed

end
