(* ===== verification/Redirects.thy ===== *)
theory Redirects
  imports Fetch
begin

text \<open>
  The HTTP client of \<^verbatim>\<open>workers/fetch.py\<close> is built with \<^verbatim>\<open>follow_redirects=True\<close>: a
  redirect is followed inside the client, so the guards see the first URL of a page only.
\<close>

text \<open>
  What a server answers to one request: a redirect, with the URL and the body of the next
  request, or anything else.  \<open>visited\<close> is the list of URLs requested, the last of them the one
  that answered.
\<close>

type_synonym 'n wire = "string \<Rightarrow> (string, json) dict option
  \<Rightarrow> (string \<times> (string, json) dict option) + (http_failure + 'n response)"

fun follow :: "nat \<Rightarrow> 'n wire \<Rightarrow> string \<Rightarrow> (string, json) dict option
    \<Rightarrow> string list \<times> (http_failure + 'n response)" where
  "follow hops wire url body =
     (case wire url body of
        Inr answer \<Rightarrow> ([url], answer)
      | Inl (url', body') \<Rightarrow>
          (case hops of
             0 \<Rightarrow> ([url], Inl (HttpOther (OtherError ''TooManyRedirects'' url)))
           | Suc n \<Rightarrow> (case follow n wire url' body' of (visited, answer) \<Rightarrow> (url # visited, answer))))"

declare follow.simps [simp del]

definition max_redirects :: nat where
  "max_redirects = 20"

text \<open>The client of a fetcher, on the servers the wire stands for.\<close>

definition redirecting :: "'n web \<Rightarrow> 'n wire \<Rightarrow> bool" where
  "redirecting W wire \<longleftrightarrow> wb_http W = (\<lambda>url body. snd (follow max_redirects wire url body))"

lemma follow_answer:
  "follow hops wire url body = (us, Inr resp) \<Longrightarrow>
     us \<noteq> [] \<and> hd us = url \<and> length us \<le> hops + 1 \<and> (\<exists>body'. wire (last us) body' = Inr (Inr resp))"
proof (induction hops arbitrary: url body us)
  case 0
  then show ?case by (subst (asm) follow.simps) (auto split: sum.splits)
next
  case (Suc hops)
  show ?case
  proof (cases "wire url body")
    case (Inr a)
    with Suc.prems show ?thesis by (subst (asm) follow.simps) auto
  next
    case (Inl b)
    obtain url' body' where b: "b = (url', body')" by (cases b)
    obtain vs a where f: "follow hops wire url' body' = (vs, a)" by (rule prod.exhaust)
    with Suc.prems have u: "us = url # vs" "a = Inr resp"
      by (subst (asm) follow.simps, simp add: Inl b)+
    with Suc.IH [of url' body' vs] f show ?thesis by auto
  qed
qed

text \<open>A page fetched with plain GET, and its answer.\<close>

lemma get_request: "t_method spec \<noteq> POST \<Longrightarrow> http_request W spec page url =
    (case wb_http W url None of
       Inr response \<Rightarrow> Inr response
     | Inl HttpTimeout \<Rightarrow> Inl (TransientFetchError (''timeout fetching '' @ url))
     | Inl (HttpTransport m) \<Rightarrow> Inl (TransientFetchError (''transport error fetching '' @ url @ '': '' @ m))
     | Inl (HttpOther e) \<Rightarrow> Inl e)"
  by (simp add: http_request_def)

lemma get_response:
  assumes "t_fetcher spec \<noteq> Browser" "t_method spec \<noteq> POST" and "run_fetcher W spec page url = Inr y"
  obtains resp where "wb_http W url None = Inr resp"
    "run_fetcher (W\<lparr>wb_http := \<lambda>_ _. Inr resp\<rparr>) spec page url = Inr y"
proof (cases "wb_http W url None")
  case (Inl f)
  with assms show thesis
    by (cases f) (simp_all add: run_fetcher_def http_fetch_def get_request)
next
  case (Inr resp)
  moreover have "run_fetcher (W\<lparr>wb_http := \<lambda>_ _. Inr resp\<rparr>) spec page url = run_fetcher W spec page url"
    using assms(1,2) Inr by (simp add: run_fetcher_def http_fetch_def get_request cong: option.case_cong)
  ultimately show thesis using that assms(3) by simp
qed

lemma answered_alike:
  assumes run: "fetch_one c W R S fuel now spec page base r = Some (Inr x, r', gs)"
    and url: "page_url spec page base = Inr url" and get: "t_fetcher spec \<noteq> Browser" "t_method spec \<noteq> POST"
  obtains resp where "wb_http W url None = Inr resp"
    "fetch_one c (W\<lparr>wb_http := \<lambda>_ _. Inr resp\<rparr>) R S fuel now spec page base r = Some (Inr x, r', gs)"
proof -
  have req: "Request \<in> set gs" using fetch_one_success [OF run] .
  from fetch_one_request [OF run req] obtain url' waited r2 where
    u: "page_url spec page base = Inr url'"
    and res: "(Inr x, r') = after_request c R url' waited (run_fetcher W spec page url') (sr_during S r2)"
    by metis
  then obtain y where y: "run_fetcher W spec page url = Inr y"
    using url by (auto simp: after_request_def split: sum.splits prod.splits)
  obtain resp where resp: "wb_http W url None = Inr resp"
    "run_fetcher (W\<lparr>wb_http := \<lambda>_ _. Inr resp\<rparr>) spec page url = Inr y"
    by (rule get_response [OF get y])
  have "robots_check c (W\<lparr>wb_http := f\<rparr>) spec u = robots_check c W spec u" for f u
    by (simp add: robots_check_def)
  with run resp(2) y have "fetch_one c (W\<lparr>wb_http := \<lambda>_ _. Inr resp\<rparr>) R S fuel now spec page base r
      = Some (Inr x, r', gs)"
    by (simp add: fetch_one_def url Let_def cong: sum.case_cong option.case_cong prod.case_cong)
  with resp(1) show thesis using that by blast
qed

text \<open>
  C26. The guards see the first URL of a page only: of a page fetched with GET, the answer is
  that of the last server of the chain of redirects the client follows, wherever that server
  is, and the task treats it exactly as if the guarded URL had answered. The witness follows an
  allowed page to the metadata address 169.254.169.254, which the guard refuses when asked.
\<close>

theorem redirect_unguarded:
  assumes client: "redirecting W wire" and http: "t_fetcher spec \<noteq> Browser" "t_method spec \<noteq> POST"
    and run: "fetch_one c W R S fuel now spec page base r = Some (Inr x, r', gs)"
    and url: "page_url spec page base = Inr url"
  shows "\<exists>us resp body. follow max_redirects wire url None = (us, Inr resp) \<and> hd us = url
    \<and> wire (last us) body = Inr (Inr resp)
    \<and> fetch_one c (W\<lparr>wb_http := \<lambda>_ _. Inr resp\<rparr>) R S fuel now spec page base r = Some (Inr x, r', gs)"
proof -
  obtain resp where resp: "wb_http W url None = Inr resp"
    "fetch_one c (W\<lparr>wb_http := \<lambda>_ _. Inr resp\<rparr>) R S fuel now spec page base r = Some (Inr x, r', gs)"
    by (rule answered_alike [OF run url http])
  obtain us a where f: "follow max_redirects wire url None = (us, a)" by (rule prod.exhaust)
  with resp(1) client have "a = Inr resp" by (simp add: redirecting_def)
  with follow_answer [of max_redirects wire url None us resp] f resp(2) show ?thesis by blast
qed

text \<open>A page that redirects to the metadata service of a cloud provider.\<close>

definition metadata_url :: string where
  "metadata_url = ''http://169.254.169.254/latest''"

definition metadata_wire :: "unit wire" where
  "metadata_wire url body = (if url = sample_url then Inl (metadata_url, None) else Inr (wb_http sample_web url body))"

definition redirect_web :: "unit web" where
  "redirect_web = sample_web\<lparr>wb_http := \<lambda>url body. snd (follow max_redirects metadata_wire url body)\<rparr>"

lemma metadata_refused:
  "assert_allowed sample_dns metadata_url [''a.gov''] True = Inl (BlockedURL ''host not on the allowlist: 169.254.169.254'')"
  by code_simp

lemma metadata_follow: "follow max_redirects metadata_wire sample_url None = ([sample_url, metadata_url], wb_http sample_web metadata_url None)"
proof -
  have "metadata_url \<noteq> sample_url" by code_simp
  then show ?thesis by (simp add: follow.simps max_redirects_def metadata_wire_def numeral_eq_Suc)
qed

lemma redirect_sel: "wb_html redirect_web = wb_html sample_web" "wb_urljoin redirect_web = wb_urljoin sample_web"
  by (simp_all add: redirect_web_def)

lemma redirect_fetch:
  "\<exists>r' x gs. fetch_one sample_settings redirect_web mem_redis alone 2 0 sample_spec 3 None mem_empty = Some (Inr x, r', gs)"
proof -
  obtain r' x gs where run: "fetch_one sample_settings sample_web mem_redis alone 2 0 sample_spec 3 None mem_empty
     = Some (Inr x, r', gs)" using sample_fetch by blast
  have "wb_http redirect_web sample_url None = wb_http sample_web sample_url None"
    by (simp add: redirect_web_def metadata_follow) (simp add: sample_web_def)
  moreover have get: "t_method sample_spec \<noteq> POST" "t_fetcher sample_spec \<noteq> Browser"
    by (simp_all add: sample_spec_def)
  ultimately have "run_fetcher redirect_web sample_spec 3 sample_url = run_fetcher sample_web sample_spec 3 sample_url"
    by (simp add: run_fetcher_def http_fetch_def get_request redirect_sel cong: option.case_cong if_cong)
  moreover have "robots_check sample_settings redirect_web sample_spec u = robots_check sample_settings sample_web sample_spec u" for u
    by (simp add: robots_check_def redirect_web_def)
  moreover have "wb_dns redirect_web = wb_dns sample_web" by (simp add: redirect_web_def)
  ultimately have "fetch_one sample_settings redirect_web mem_redis alone 2 0 sample_spec 3 None mem_empty
      = fetch_one sample_settings sample_web mem_redis alone 2 0 sample_spec 3 None mem_empty"
    by (simp add: fetch_one_def sample_parts Let_def cong: sum.case_cong option.case_cong prod.case_cong)
  with run show ?thesis by simp
qed

theorem redirect_unguarded_witness:
  "\<exists>x r' gs us resp. fetch_one sample_settings redirect_web mem_redis alone 2 0 sample_spec 3 None mem_empty
      = Some (Inr x, r', gs)
    \<and> follow max_redirects metadata_wire sample_url None = (us, Inr resp) \<and> last us = metadata_url
    \<and> assert_allowed (wb_dns redirect_web) (last us) (allowed_target_hosts sample_settings) True
        = Inl (BlockedURL ''host not on the allowlist: 169.254.169.254'')"
proof -
  obtain x r' gs where run: "fetch_one sample_settings redirect_web mem_redis alone 2 0 sample_spec 3 None mem_empty
      = Some (Inr x, r', gs)" using redirect_fetch by blast
  have "redirecting redirect_web metadata_wire" by (simp add: redirecting_def redirect_web_def)
  moreover have "t_fetcher sample_spec \<noteq> Browser" "t_method sample_spec \<noteq> POST" by (simp_all add: sample_spec_def)
  ultimately obtain us resp where f: "follow max_redirects metadata_wire sample_url None = (us, Inr resp)"
    using redirect_unguarded [OF _ _ _ run sample_parts(1)] by blast
  then have "last us = metadata_url" by (auto simp: metadata_follow)
  with run f metadata_refused show ?thesis by (simp add: redirect_web_def)
qed

end
